(* ===== verification/Prelude.thy ===== *)
theory Prelude
  imports Main "HOL-Library.Word"
begin

text \<open>
  Shared vocabulary of the development.

  \<^item> Bytes and strings: \<open>std::string\<close>, \<open>std::string_view\<close> and the allocator-aware
    \<open>DataEngine::String\<close> are lists of \<open>char\<close>, and an Isabelle \<open>char\<close> is one byte.
  \<^item> \<open>size_t\<close>, \<open>std::uint64_t\<close>: \<open>64 word\<close>, so that the wrap-around of the
    machine arithmetic is part of the model.
  \<^item> The result of C++ code: \<open>Ret\<close> a value, \<open>Throw\<close> an exception, or \<open>UB\<close>, which stands for
    an execution the standard gives no meaning to (a dangling pointer, an index out of range, a
    division by zero) or one that does not return.
  \<^item> The two locales for state machines, \<open>transition_system\<close> and \<open>simulation\<close>, in which the
    reachability arguments of the concurrent components are proved once.
\<close>

section \<open>Collections of facts\<close>

named_theorems outcome_simps \<open>computation rules for outcomes\<close>
named_theorems heap_simps \<open>facts about the node store of the engine\<close>
named_theorems byte_simps \<open>facts about bytes and characters\<close>

section \<open>Names of types\<close>

type_synonym u64 = "64 word"
type_synonym u32 = "32 word"
type_synonym u16 = "16 word"
type_synonym u8 = "8 word"
type_synonym tid = nat

section \<open>Results of C++ code\<close>

datatype exn = Bad_alloc | Runtime_error string | Out_of_range | System_error

datatype 'a outcome = Ret 'a | Throw exn | UB

fun bind_outcome :: "'a outcome \<Rightarrow> ('a \<Rightarrow> 'b outcome) \<Rightarrow> 'b outcome" where
  "bind_outcome (Ret x) f = f x"
| "bind_outcome (Throw e) f = Throw e"
| "bind_outcome UB f = UB"

definition of_option :: "'a option \<Rightarrow> 'a outcome" where
  "of_option x = (case x of None \<Rightarrow> UB | Some y \<Rightarrow> Ret y)"

lemma of_option_simps [simp, outcome_simps]:
  "of_option None = UB" "of_option (Some y) = Ret y"
  by (simp_all add: of_option_def)

lemma of_option_eq_Ret [simp]: "of_option x = Ret y \<longleftrightarrow> x = Some y"
  by (cases x) simp_all

lemma bind_outcome_eq_Ret [outcome_simps]:
  "bind_outcome m f = Ret y \<longleftrightarrow> (\<exists>x. m = Ret x \<and> f x = Ret y)"
  by (cases m) simp_all

section \<open>Strings\<close>

text \<open>
  \<open>c_str\<close>: a C string ends at its first NUL byte. \<open>string_ref\<close>: RapidJSON's \<open>SizeType\<close> has 32
  bits, and the code casts the size of a view to it.
\<close>

definition c_str :: "string \<Rightarrow> string" where
  "c_str s = takeWhile (\<lambda>c. c \<noteq> CHR 0x00) s"

definition string_ref :: "string \<Rightarrow> string" where
  "string_ref s = take (length s mod 2 ^ 32) s"

lemma string_ref_short [simp]: "length s < 2 ^ 32 \<Longrightarrow> string_ref s = s"
  by (simp add: string_ref_def)

section \<open>Generic lemmas\<close>

lemma map_of_append_None [simp]: "map_of xs k = None \<Longrightarrow> map_of (xs @ ys) k = map_of ys k"
  by (induction xs) auto

lemma distinct_map_fst_map_of:
  "distinct (map fst xs) \<Longrightarrow> (k, v) \<in> set xs \<longleftrightarrow> map_of xs k = Some v"
  by (simp add: map_of_eq_Some_iff)

lemma short_list: "length xs < 2 \<Longrightarrow> xs = [] \<or> (\<exists>a. xs = [a])"
  by (cases xs; cases "tl xs") auto

lemma drop_SucD: "drop p xs = x # ys \<Longrightarrow> drop (Suc p) xs = ys"
  by (metis drop_Suc list.sel(3) tl_drop)

lemma drop_lessD: "drop p xs = x # ys \<Longrightarrow> p < length xs"
  by (metis drop_all list.distinct(1) not_le)

lemma mod_length_less: "xs \<noteq> [] \<Longrightarrow> n mod length xs < length xs"
  by simp

lemma distinct_concat_nth:
  assumes "\<And>i. i < length xss \<Longrightarrow> distinct (xss ! i)"
    and "\<And>i j. i < length xss \<Longrightarrow> j < length xss \<Longrightarrow> i \<noteq> j \<Longrightarrow> set (xss ! i) \<inter> set (xss ! j) = {}"
  shows "distinct (concat xss)"
  using assms
proof (induction xss)
  case (Cons xs xss)
  have "distinct xs" using Cons.prems(1) [of 0] by simp
  moreover have "distinct (concat xss)"
  proof (rule Cons.IH)
    show "distinct (xss ! i)" if "i < length xss" for i
      using that Cons.prems(1) [of "Suc i"] by simp
    show "set (xss ! i) \<inter> set (xss ! j) = {}" if "i < length xss" "j < length xss" "i \<noteq> j" for i j
      using that Cons.prems(2) [of "Suc i" "Suc j"] by simp
  qed
  moreover have "set xs \<inter> set ys = {}" if "ys \<in> set xss" for ys
  proof -
    from that obtain i where "i < length xss" "ys = xss ! i" by (auto simp: in_set_conv_nth)
    with Cons.prems(2) [of 0 "Suc i"] show ?thesis by simp
  qed
  ultimately show ?case by auto
qed simp

lemma map_of_rev_distinct: "distinct (map fst xs) \<Longrightarrow> map_of (rev xs) = map_of xs"
  by (rule map_of_eqI) (auto simp: rev_map [symmetric] distinct_map_fst_map_of [symmetric] map_of_eq_Some_iff)

lemma unat_minus_1: "unat (-1 :: u64) = 18446744073709551615"
proof -
  have m: "(-1 :: u64) = of_nat 18446744073709551615" by simp
  show ?thesis unfolding m unat_of_nat by simp
qed

section \<open>Key-value stores\<close>

text \<open>
  The interface of the engine that persistence and the HTTP handlers rely on: \<open>put\<close> always
  succeeds on a good state and is the update of the map, and \<open>items\<close> lists every entry once.
\<close>

primrec put_all :: "('k \<Rightarrow> 'v \<Rightarrow> 's \<Rightarrow> 's option) \<Rightarrow> ('k \<times> 'v) list \<Rightarrow> 's \<Rightarrow> 's option" where
  "put_all put [] s = Some s"
| "put_all put (x # xs) s = (case put (fst x) (snd x) s of None \<Rightarrow> None | Some s' \<Rightarrow> put_all put xs s')"

locale kv_store =
  fixes inv :: "'s \<Rightarrow> bool"
    and view :: "'s \<Rightarrow> 'k \<rightharpoonup> 'v"
    and items :: "'s \<Rightarrow> ('k \<times> 'v) list"
    and put :: "'k \<Rightarrow> 'v \<Rightarrow> 's \<Rightarrow> 's option"
  assumes put_ok: "inv s \<Longrightarrow> \<exists>s'. put k v s = Some s' \<and> inv s' \<and> view s' = (view s)(k \<mapsto> v)"
    and items_view: "inv s \<Longrightarrow> map_of (items s) = view s"
    and items_distinct: "inv s \<Longrightarrow> distinct (map fst (items s))"
begin

lemma put_all_ok:
  "inv s \<Longrightarrow> \<exists>s'. put_all put xs s = Some s' \<and> inv s' \<and> view s' = view s ++ map_of (rev xs)"
proof (induction xs arbitrary: s)
  case (Cons x xs)
  from put_ok [OF Cons.prems, of "fst x" "snd x"] obtain s1 where s1:
    "put (fst x) (snd x) s = Some s1" "inv s1" "view s1 = (view s)(fst x \<mapsto> snd x)" by blast
  from Cons.IH [OF s1(2)] obtain s2 where
    "put_all put xs s1 = Some s2" "inv s2" "view s2 = view s1 ++ map_of (rev xs)" by blast
  with s1 show ?case by (cases x) (auto simp: map_add_def fun_eq_iff split: option.splits)
qed simp

lemma reload:
  assumes "inv s" "inv s0" "view s0 = Map.empty"
  shows "\<exists>s1. put_all put (items s) s0 = Some s1 \<and> inv s1 \<and> view s1 = view s"
  using put_all_ok [OF assms(2), of "items s"] assms
  by (auto simp: map_of_rev_distinct items_distinct items_view)

lemma finite_view: "inv s \<Longrightarrow> finite (dom (view s))"
  using finite_dom_map_of [of "items s"] by (simp add: items_view)

lemma length_items: "inv s \<Longrightarrow> length (items s) = card (dom (view s))"
  using distinct_card [OF items_distinct, of s] by (simp add: dom_map_of_conv_image_fst items_view [symmetric])

lemma set_items: "inv s \<Longrightarrow> set (items s) = {(k, v). view s k = Some v}"
  by (auto simp: distinct_map_fst_map_of items_distinct items_view)

end

section \<open>Transition systems\<close>

text \<open>
  A component with many threads is an initial-state predicate and a step relation. An invariant
  that holds initially and that every step keeps holds in every reachable state.
\<close>

inductive reach :: "('s \<Rightarrow> bool) \<Rightarrow> ('s \<Rightarrow> 's \<Rightarrow> bool) \<Rightarrow> 's \<Rightarrow> bool"
  for ini :: "'s \<Rightarrow> bool" and stp :: "'s \<Rightarrow> 's \<Rightarrow> bool" where
  reach_init: "ini s \<Longrightarrow> reach ini stp s"
| reach_step: "reach ini stp s \<Longrightarrow> stp s t \<Longrightarrow> reach ini stp t"

locale transition_system =
  fixes ini :: "'s \<Rightarrow> bool"
    and stp :: "'s \<Rightarrow> 's \<Rightarrow> bool"
    and inv :: "'s \<Rightarrow> bool"
  assumes inv_init: "ini s \<Longrightarrow> inv s"
    and inv_step: "inv s \<Longrightarrow> stp s t \<Longrightarrow> inv t"
begin

lemma reach_inv: "reach ini stp s \<Longrightarrow> inv s"
  by (induction rule: reach.induct) (auto intro: inv_init inv_step)

lemma steps_inv: "stp\<^sup>*\<^sup>* s t \<Longrightarrow> inv s \<Longrightarrow> inv t"
  by (induction rule: rtranclp_induct) (auto intro: inv_step)

lemma reach_steps: "stp\<^sup>*\<^sup>* s t \<Longrightarrow> reach ini stp s \<Longrightarrow> reach ini stp t"
  by (induction rule: rtranclp_induct) (auto intro: reach.reach_step)

lemma stable:
  assumes keep: "\<And>s t. inv s \<Longrightarrow> stp s t \<Longrightarrow> P s \<Longrightarrow> P t"
    and "stp\<^sup>*\<^sup>* s t" "inv s" "P s"
  shows "P t"
  using assms(2-4)
proof (induction rule: rtranclp_induct)
  case base
  then show ?case by simp
next
  case (step t u)
  then have "inv t" by (blast intro: steps_inv)
  with step show ?case by (blast intro: keep)
qed

end

text \<open>
  A forward simulation: the abstraction of a concrete step is an abstract step or nothing.
\<close>

locale simulation = transition_system +
  fixes abs :: "'s \<Rightarrow> 'a"
    and aini :: "'a \<Rightarrow> bool"
    and astp :: "'a \<Rightarrow> 'a \<Rightarrow> bool"
  assumes abs_init: "ini s \<Longrightarrow> aini (abs s)"
    and abs_step: "inv s \<Longrightarrow> stp s t \<Longrightarrow> abs t = abs s \<or> astp (abs s) (abs t)"
begin

lemma reach_abs: "reach ini stp s \<Longrightarrow> reach aini astp (abs s)"
proof (induction rule: reach.induct)
  case (reach_init s)
  then show ?case by (blast intro: reach.reach_init abs_init)
next
  case (reach_step s t)
  then have "inv s" by (blast intro: reach_inv)
  with reach_step show ?case
    using abs_step [of s t] by (auto intro: reach.reach_step)
qed

lemma steps_abs: "stp\<^sup>*\<^sup>* s t \<Longrightarrow> inv s \<Longrightarrow> astp\<^sup>*\<^sup>* (abs s) (abs t)"
proof (induction rule: rtranclp_induct)
  case base
  then show ?case by simp
next
  case (step t u)
  then have "inv t" by (blast intro: steps_inv)
  from this step.hyps(2) have "abs u = abs t \<or> astp (abs t) (abs u)" by (rule abs_step)
  with step show ?case by (auto intro: rtranclp.rtrancl_into_rtrancl)
qed

end

end
