(* ===== verification/Allocation.thy ===== *)
theory Allocation
  imports Prelude
begin

text \<open>
  Memory and allocators: \<open>Allocator.h\<close>, \<open>utils/stl.h\<close>, \<open>AllocatorFactory.h\<close> and
  \<open>AllocatorFactory.cpp\<close>.

  The free store hands out an address it never gave out before; a cell is raw memory or holds a
  constructed object, and an operation on a cell in the wrong state (a second free, a read of raw
  memory) is \<open>UB\<close>. The factory keeps one allocator per thread in a map behind a shared mutex; the
  second half of the theory models the threads that run \<open>get_current_thread_allocator\<close>, one
  critical section or lock operation per step, and proves that the \<open>assert\<close> after \<open>emplace\<close> holds.
\<close>

section \<open>The free store\<close>

type_synonym addr = nat

datatype 'a cell = Raw | Live 'a

record 'a store =
  cells :: "addr \<rightharpoonup> 'a cell"
  top :: addr

definition empty_store :: "'a store" where
  "empty_store = \<lparr>cells = Map.empty, top = 0\<rparr>"

definition deref :: "'a store \<Rightarrow> addr \<Rightarrow> 'a option" where
  "deref h a = (case cells h a of Some (Live x) \<Rightarrow> Some x | _ \<Rightarrow> None)"

definition poke :: "'a store \<Rightarrow> addr \<Rightarrow> 'a \<Rightarrow> 'a store" where
  "poke h a x = h\<lparr>cells := (cells h)(a \<mapsto> Live x)\<rparr>"

definition store_wf :: "'a store \<Rightarrow> bool" where
  "store_wf h \<longleftrightarrow> (\<forall>a. top h \<le> a \<longrightarrow> cells h a = None)"

text \<open>
  \<open>SeparateHeapAllocator\<close>. Its \<open>allocate\<close> and \<open>deallocate\<close> ignore the heap and use
  \<open>std::allocator\<close>, which may throw \<open>std::bad_alloc\<close>: the flag says whether memory is left.
\<close>

record allocator =
  m_heap :: u64

definition rebind_allocator :: "allocator \<Rightarrow> allocator" where
  "rebind_allocator other = \<lparr>m_heap = m_heap other\<rparr>"

definition allocate :: "allocator \<Rightarrow> bool \<Rightarrow> 'a store \<Rightarrow> addr outcome \<times> 'a store" where
  "allocate al ok h =
     (if ok then (Ret (top h), h\<lparr>cells := (cells h)(top h \<mapsto> Raw), top := Suc (top h)\<rparr>)
      else (Throw Bad_alloc, h))"

definition deallocate :: "allocator \<Rightarrow> addr \<Rightarrow> 'a store \<Rightarrow> unit outcome \<times> 'a store" where
  "deallocate al a h =
     (case cells h a of
        Some Raw \<Rightarrow> (Ret (), h\<lparr>cells := (cells h)(a := None)\<rparr>)
      | _ \<Rightarrow> (UB, h))"

text \<open>\<open>allocator_traits::construct\<close> runs the constructor in place; it may throw.\<close>

definition construct :: "addr \<Rightarrow> 'a outcome \<Rightarrow> 'a store \<Rightarrow> unit outcome \<times> 'a store" where
  "construct a ctor h =
     (case cells h a of
        Some Raw \<Rightarrow> (case ctor of Ret x \<Rightarrow> (Ret (), poke h a x) | Throw e \<Rightarrow> (Throw e, h) | UB \<Rightarrow> (UB, h))
      | _ \<Rightarrow> (UB, h))"

definition destroy :: "addr \<Rightarrow> 'a store \<Rightarrow> unit outcome \<times> 'a store" where
  "destroy a h =
     (case cells h a of
        Some (Live x) \<Rightarrow> (Ret (), h\<lparr>cells := (cells h)(a \<mapsto> Raw)\<rparr>)
      | _ \<Rightarrow> (UB, h))"

text \<open>\<open>std_extra::allocate_new\<close>: the memory is given back when the constructor throws.\<close>

definition allocate_new :: "allocator \<Rightarrow> bool \<Rightarrow> 'a outcome \<Rightarrow> 'a store \<Rightarrow> addr outcome \<times> 'a store" where
  "allocate_new alloc ok ctor h =
     (case allocate alloc ok h of
        (Ret ptr, h1) \<Rightarrow>
          (case construct ptr ctor h1 of
             (Ret _, h2) \<Rightarrow> (Ret ptr, h2)
           | (Throw e, h2) \<Rightarrow>
               (case deallocate alloc ptr h2 of
                  (Ret _, h3) \<Rightarrow> (Throw e, h3)
                | (_, h3) \<Rightarrow> (UB, h3))
           | (UB, h2) \<Rightarrow> (UB, h2))
      | (Throw e, h1) \<Rightarrow> (Throw e, h1)
      | (UB, h1) \<Rightarrow> (UB, h1))"

lemma deref_empty [simp, heap_simps]: "deref empty_store a = None"
  by (simp add: deref_def empty_store_def)

lemma deref_poke [simp, heap_simps]: "deref (poke h a x) b = (if b = a then Some x else deref h b)"
  by (simp add: deref_def poke_def)

lemma top_poke [simp, heap_simps]: "top (poke h a x) = top h"
  by (simp add: poke_def)

lemma store_wf_empty [simp]: "store_wf empty_store"
  by (simp add: store_wf_def empty_store_def)

lemma deref_below_top: "store_wf h \<Longrightarrow> deref h a = Some x \<Longrightarrow> a < top h"
  by (force simp: store_wf_def deref_def not_less [symmetric] split: option.splits)

lemma store_wf_poke: "store_wf h \<Longrightarrow> a < top h \<Longrightarrow> store_wf (poke h a x)"
  by (simp add: store_wf_def poke_def)

lemma allocate_new_Ret:
  assumes "store_wf h" "ok" "ctor = Ret x"
  shows "allocate_new al ok ctor h = (Ret (top h), (poke h (top h) x)\<lparr>top := Suc (top h)\<rparr>)"
  using assms by (simp add: allocate_new_def allocate_def construct_def poke_def)

lemma allocate_new_fails:
  assumes "store_wf h" "allocate_new al ok ctor h = (Throw e, h')"
  shows "cells h' = cells h" "top h \<le> top h'"
  using assms
  by (auto simp: allocate_new_def allocate_def construct_def deallocate_def poke_def store_wf_def
      split: if_splits outcome.splits)

lemma allocate_new_cases:
  assumes "store_wf h" "ctor \<noteq> UB"
  obtains (ok) x where "ok" "ctor = Ret x"
      "allocate_new al ok ctor h = (Ret (top h), (poke h (top h) x)\<lparr>top := Suc (top h)\<rparr>)"
    | (no_memory) "allocate_new al ok ctor h = (Throw Bad_alloc, h)"
    | (ctor_throws) e h' where "ctor = Throw e" "allocate_new al ok ctor h = (Throw e, h')"
  using assms
  by (cases ok; cases ctor)
     (auto simp: allocate_new_def allocate_def construct_def deallocate_def poke_def)

section \<open>\<open>AllocatorFactory\<close>: one allocator per thread\<close>

record factory =
  allocators :: "tid \<rightharpoonup> allocator"

text \<open>
  \<open>unordered_map::emplace\<close> keeps an element that is already there; its result is whether it
  inserted, and the element now in the map.
\<close>

definition emplace :: "tid \<Rightarrow> allocator \<Rightarrow> (tid \<rightharpoonup> allocator) \<Rightarrow> (bool \<times> allocator) \<times> (tid \<rightharpoonup> allocator)" where
  "emplace t a m = (case m t of None \<Rightarrow> ((True, a), m(t \<mapsto> a)) | Some b \<Rightarrow> ((False, b), m))"

text \<open>
  The call as one thread sees it; \<open>thash\<close> is \<open>std::hash<std::thread::id>\<close>. A failed \<open>assert\<close> is
  \<open>UB\<close>, since release builds compile it out and go on.
\<close>

definition get_current_thread_allocator ::
    "(tid \<Rightarrow> u64) \<Rightarrow> tid \<Rightarrow> factory \<Rightarrow> allocator outcome \<times> factory" where
  "get_current_thread_allocator thash threadId f =
     (case allocators f threadId of
        Some a \<Rightarrow> (Ret a, f)
      | None \<Rightarrow>
          (let heapId = thash threadId;
               newAllocator = \<lparr>m_heap = heapId\<rparr>;
               (result, m) = emplace threadId newAllocator (allocators f)
           in (if fst result then Ret (snd result) else UB, f\<lparr>allocators := m\<rparr>)))"

definition get_allocator :: "(tid \<Rightarrow> u64) \<Rightarrow> tid \<Rightarrow> factory \<Rightarrow> allocator outcome \<times> factory" where
  "get_allocator thash threadId f =
     (case get_current_thread_allocator thash threadId f of
        (Ret a, f') \<Rightarrow> (Ret (rebind_allocator a), f')
      | (Throw e, f') \<Rightarrow> (Throw e, f')
      | (UB, f') \<Rightarrow> (UB, f'))"

definition factory_ok :: "(tid \<Rightarrow> u64) \<Rightarrow> (tid \<rightharpoonup> allocator) \<Rightarrow> bool" where
  "factory_ok thash m \<longleftrightarrow> (\<forall>t a. m t = Some a \<longrightarrow> a = \<lparr>m_heap = thash t\<rparr>)"

lemma get_allocator_ok:
  assumes ok: "factory_ok thash (allocators f)"
  obtains f' where "get_allocator thash t f = (Ret \<lparr>m_heap = thash t\<rparr>, f')"
    "factory_ok thash (allocators f')" "allocators f' = (allocators f)(t \<mapsto> \<lparr>m_heap = thash t\<rparr>)"
proof (cases "allocators f t")
  case None
  with ok show ?thesis
    by (intro that [of "f\<lparr>allocators := (allocators f)(t \<mapsto> \<lparr>m_heap = thash t\<rparr>)\<rparr>"])
      (auto simp: get_allocator_def get_current_thread_allocator_def emplace_def
        rebind_allocator_def factory_ok_def Let_def)
next
  case (Some a)
  with ok have a: "a = \<lparr>m_heap = thash t\<rparr>" by (simp add: factory_ok_def)
  with Some have "get_allocator thash t f = (Ret \<lparr>m_heap = thash t\<rparr>, f)"
    by (simp add: get_allocator_def get_current_thread_allocator_def rebind_allocator_def)
  with ok Some a show ?thesis by (intro that) (auto simp: fun_upd_triv)
qed

subsection \<open>Threads in \<open>get_current_thread_allocator\<close>\<close>

text \<open>
  The program counter of a thread in the call. The shared lock protects the lookup, the unique
  lock the insertion; between the two the thread holds no lock.
\<close>

datatype fpc =
    F_lock_shared
  | F_find
  | F_unlock_shared "allocator option"
  | F_make
  | F_lock_unique allocator
  | F_emplace allocator
  | F_unlock_unique "bool \<times> allocator"
  | F_return bool allocator

record factory_sys =
  shared_map :: "tid \<rightharpoonup> allocator"
  readers :: "tid set"
  writer :: "tid option"
  fpcs :: "tid \<Rightarrow> fpc"

definition set_fpc :: "tid \<Rightarrow> fpc \<Rightarrow> factory_sys \<Rightarrow> factory_sys" where
  "set_fpc t p s = s\<lparr>fpcs := (fpcs s)(t := p)\<rparr>"

text \<open>One step of a thread; \<open>None\<close> when it waits for a lock. A returned thread may call again.\<close>

fun factory_step :: "(tid \<Rightarrow> u64) \<Rightarrow> tid \<Rightarrow> fpc \<Rightarrow> factory_sys \<Rightarrow> factory_sys option" where
  "factory_step thash t F_lock_shared s =
     (if writer s = None then Some (set_fpc t F_find (s\<lparr>readers := insert t (readers s)\<rparr>)) else None)"
| "factory_step thash t F_find s = Some (set_fpc t (F_unlock_shared (shared_map s t)) s)"
| "factory_step thash t (F_unlock_shared found) s =
     Some (set_fpc t (case found of Some a \<Rightarrow> F_return True a | None \<Rightarrow> F_make)
       (s\<lparr>readers := readers s - {t}\<rparr>))"
| "factory_step thash t F_make s = Some (set_fpc t (F_lock_unique \<lparr>m_heap = thash t\<rparr>) s)"
| "factory_step thash t (F_lock_unique a) s =
     (if writer s = None \<and> readers s = {} then Some (set_fpc t (F_emplace a) (s\<lparr>writer := Some t\<rparr>))
      else None)"
| "factory_step thash t (F_emplace a) s =
     (let (r, m) = emplace t a (shared_map s)
      in Some (set_fpc t (F_unlock_unique r) (s\<lparr>shared_map := m\<rparr>)))"
| "factory_step thash t (F_unlock_unique r) s =
     Some (set_fpc t (F_return (fst r) (snd r)) (s\<lparr>writer := None\<rparr>))"
| "factory_step thash t (F_return asserted a) s = Some (set_fpc t F_lock_shared s)"

inductive factory_next :: "(tid \<Rightarrow> u64) \<Rightarrow> factory_sys \<Rightarrow> factory_sys \<Rightarrow> bool" for thash where
  factory_nextI: "factory_step thash t (fpcs s t) s = Some s' \<Longrightarrow> factory_next thash s s'"

inductive_cases factory_nextE: "factory_next thash s s'"

definition factory_init :: "factory_sys \<Rightarrow> bool" where
  "factory_init s \<longleftrightarrow> shared_map s = Map.empty \<and> readers s = {} \<and> writer s = None \<and>
     (\<forall>t. fpcs s t = F_lock_shared)"

text \<open>
  The invariant: the lock agrees with the program counters, the writer is alone, the map has the
  right allocators, and a thread between its lookup and its insertion has no entry.
\<close>

fun holds_shared :: "fpc \<Rightarrow> bool" where
  "holds_shared F_find = True"
| "holds_shared (F_unlock_shared _) = True"
| "holds_shared _ = False"

fun holds_unique :: "fpc \<Rightarrow> bool" where
  "holds_unique (F_emplace _) = True"
| "holds_unique (F_unlock_unique _) = True"
| "holds_unique _ = False"

fun fpc_ok :: "(tid \<Rightarrow> u64) \<Rightarrow> tid \<Rightarrow> (tid \<rightharpoonup> allocator) \<Rightarrow> fpc \<Rightarrow> bool" where
  "fpc_ok thash t m F_lock_shared = True"
| "fpc_ok thash t m F_find = True"
| "fpc_ok thash t m (F_unlock_shared found) = (found = m t)"
| "fpc_ok thash t m F_make = (m t = None)"
| "fpc_ok thash t m (F_lock_unique a) = (m t = None \<and> a = \<lparr>m_heap = thash t\<rparr>)"
| "fpc_ok thash t m (F_emplace a) = (m t = None \<and> a = \<lparr>m_heap = thash t\<rparr>)"
| "fpc_ok thash t m (F_unlock_unique r) = (fst r \<and> m t = Some (snd r))"
| "fpc_ok thash t m (F_return asserted a) = (asserted \<and> m t = Some a)"

definition factory_inv :: "(tid \<Rightarrow> u64) \<Rightarrow> factory_sys \<Rightarrow> bool" where
  "factory_inv thash s \<longleftrightarrow>
     (\<forall>t. t \<in> readers s \<longleftrightarrow> holds_shared (fpcs s t)) \<and>
     (\<forall>t. writer s = Some t \<longleftrightarrow> holds_unique (fpcs s t)) \<and>
     (writer s \<noteq> None \<longrightarrow> readers s = {}) \<and>
     factory_ok thash (shared_map s) \<and>
     (\<forall>t. fpc_ok thash t (shared_map s) (fpcs s t))"

lemma fpc_ok_other: "t \<noteq> u \<Longrightarrow> fpc_ok thash u (m(t \<mapsto> a)) p = fpc_ok thash u m p"
  by (cases p) auto

text \<open>A step of one thread changes nothing the other threads' part of the invariant depends on.\<close>

lemma factory_invI:
  assumes "\<And>u. u \<in> readers s \<longleftrightarrow> holds_shared (fpcs s u)"
    and "\<And>u. writer s = Some u \<longleftrightarrow> holds_unique (fpcs s u)"
    and "writer s \<noteq> None \<Longrightarrow> readers s = {}"
    and "factory_ok thash (shared_map s)"
    and "\<And>u. fpc_ok thash u (shared_map s) (fpcs s u)"
  shows "factory_inv thash s"
  using assms by (auto simp: factory_inv_def)

lemma factory_invD:
  assumes "factory_inv thash s"
  shows "u \<in> readers s \<longleftrightarrow> holds_shared (fpcs s u)"
    and "writer s = Some u \<longleftrightarrow> holds_unique (fpcs s u)"
    and "writer s = Some u \<Longrightarrow> readers s = {}"
    and "factory_ok thash (shared_map s)"
    and "fpc_ok thash u (shared_map s) (fpcs s u)"
  using assms by (auto simp: factory_inv_def)

lemma factory_step_inv:
  assumes inv: "factory_inv thash s" and step: "factory_step thash t (fpcs s t) s = Some s'"
  shows "factory_inv thash s'"
proof -
  note D = factory_invD [OF inv]
  show ?thesis
  proof (cases "fpcs s t")
    case F_lock_shared
    with step D show ?thesis
      by (intro factory_invI) (auto simp: set_fpc_def split: if_splits)
  next
    case F_find
    with step D show ?thesis
      by (intro factory_invI) (auto simp: set_fpc_def split: if_splits)
  next
    case (F_unlock_shared found)
    with step D(1-4) D(5) [of t] D(5) show ?thesis
      by (intro factory_invI) (auto simp: set_fpc_def split: option.splits if_splits)
  next
    case F_make
    with step D(1-4) D(5) [of t] D(5) show ?thesis
      by (intro factory_invI) (auto simp: set_fpc_def split: if_splits)
  next
    case (F_lock_unique a)
    with step D(1-4) D(5) [of t] D(5) show ?thesis
      by (intro factory_invI) (auto simp: set_fpc_def split: if_splits)
  next
    case (F_emplace a)
    with D(5) [of t] have m: "shared_map s t = None" "a = \<lparr>m_heap = thash t\<rparr>" by simp_all
    with step F_emplace D show ?thesis
      by (intro factory_invI) (auto simp: set_fpc_def emplace_def factory_ok_def fpc_ok_other split: if_splits)
  next
    case (F_unlock_unique r)
    then have "\<not> holds_unique (fpcs s u)" if "u \<noteq> t" for u
      using that D(2) [of t] D(2) [of u] by auto
    with F_unlock_unique step D(1-4) D(5) [of t] D(5) show ?thesis
      by (intro factory_invI) (auto simp: set_fpc_def split: if_splits)
  next
    case (F_return asserted a)
    with step D show ?thesis
      by (intro factory_invI) (auto simp: set_fpc_def split: if_splits)
  qed
qed

interpretation fact: transition_system factory_init "factory_next thash" "factory_inv thash" for thash
proof
  show "factory_inv thash s" if "factory_init s" for s
    using that by (simp add: factory_inv_def factory_init_def factory_ok_def)
  show "factory_inv thash t" if "factory_inv thash s" "factory_next thash s t" for s t
    using that by (auto elim!: factory_nextE intro: factory_step_inv)
qed

end
