(* ===== verification/DataEngine.thy ===== *)
theory DataEngine
  imports Allocation "HOL-Library.AList"
begin

text \<open>
  The key-value engine of \<open>DataEngine.h\<close> and \<open>DataEngine.cpp\<close> as one thread runs it: an array of
  buckets, each the head of a singly linked list of \<open>ListNode\<close> objects on the free store. Every
  operation follows the code's own loop over pointers; a null or dangling dereference, a division
  by a zero bucket count and a list that never ends are \<open>UB\<close>.

  The lemmas relate the pointer structure to a list of association lists, one per bucket
  (\<open>engine_buckets\<close>), on which \<open>set\<close> is \<open>AList.update\<close> of one bucket, and to the map of all
  entries (\<open>engine_map\<close>).
\<close>

section \<open>State\<close>

record list_node =
  m_key :: string
  m_ptrValue :: string
  m_next :: "addr option"
  m_allocator :: allocator

record engine =
  m_buckets :: "addr option list"
  heap :: "list_node store"
  m_successReads :: u64
  m_failedReads :: u64
  factory_of :: factory

text \<open>
  What the implementation of the standard library decides: the hash functions and whether the
  atomics are lock-free.
\<close>

record platform =
  str_hash :: "string \<Rightarrow> u64"
  tid_hash :: "tid \<Rightarrow> u64"
  counter_lock_free :: bool
  bucket_lock_free :: bool
  next_lock_free :: bool
  value_lock_free :: bool

record access_statistics =
  m_successOperations :: u64
  m_failedOperations :: u64

section \<open>Operations\<close>

definition new_engine :: "nat \<Rightarrow> engine" where
  "new_engine bucketCount =
     \<lparr>m_buckets = replicate bucketCount None, heap = empty_store, m_successReads = 0,
      m_failedReads = 0, factory_of = \<lparr>allocators = Map.empty\<rparr>\<rparr>"

definition is_lock_free :: "platform \<Rightarrow> bool" where
  "is_lock_free P =
     (if \<not> counter_lock_free P then False
      else if \<not> bucket_lock_free P then False
      else if \<not> next_lock_free P then False
      else if \<not> value_lock_free P then False
      else True)"

text \<open>\<open>Hash()(key) % m_buckets.size()\<close>; a remainder by zero has no meaning.\<close>

definition bucket_index :: "platform \<Rightarrow> string \<Rightarrow> nat \<Rightarrow> nat option" where
  "bucket_index P key bucketCount =
     (if bucketCount = 0 then None else Some (unat (str_hash P key) mod bucketCount))"

text \<open>
  \<open>compare_exchange_strong\<close> on an atomic pointer: whether it exchanged, the value left in
  \<open>expected\<close>, and the value left in the atomic.
\<close>

definition compare_exchange ::
    "addr option \<Rightarrow> addr option \<Rightarrow> addr \<Rightarrow> bool \<times> addr option \<times> addr option" where
  "compare_exchange cell expected desired =
     (if cell = expected then (True, expected, Some desired) else (False, cell, cell))"

subsection \<open>\<open>get\<close>\<close>

partial_function (option) get_loop :: "list_node store \<Rightarrow> string \<Rightarrow> addr option \<Rightarrow> addr option option" where
  "get_loop h key node =
     (case node of
        None \<Rightarrow> Some None
      | Some a \<Rightarrow>
          (case deref h a of
             None \<Rightarrow> None
           | Some n \<Rightarrow> if m_key n = key then Some (Some a) else get_loop h key (m_next n)))"

definition get_value_const_ref :: "list_node \<Rightarrow> string" where
  "get_value_const_ref n = m_ptrValue n"

text \<open>\<open>copy_ok\<close>: the copy of the found value into the result may run out of memory.\<close>

definition get :: "platform \<Rightarrow> bool \<Rightarrow> string \<Rightarrow> engine \<Rightarrow> string option outcome \<times> engine" where
  "get P copy_ok key e =
     (case bucket_index P key (length (m_buckets e)) of
        None \<Rightarrow> (UB, e)
      | Some i \<Rightarrow>
          (case get_loop (heap e) key (m_buckets e ! i) of
             None \<Rightarrow> (UB, e)
           | Some (Some a) \<Rightarrow>
               (let e1 = e\<lparr>m_successReads := m_successReads e + 1\<rparr>
                in case deref (heap e1) a of
                     None \<Rightarrow> (UB, e1)
                   | Some n \<Rightarrow> (if copy_ok then Ret (Some (get_value_const_ref n)) else Throw Bad_alloc, e1))
           | Some None \<Rightarrow> (Ret None, e\<lparr>m_failedReads := m_failedReads e + 1\<rparr>)))"

subsection \<open>\<open>create_node\<close> and \<open>set\<close>\<close>

text \<open>
  Where memory can run out while the node is made: in the two arguments (the key string, the
  shared value), in the node's own memory, or in the node's constructor, which copies the key.
\<close>

datatype create_fault = No_fault | Args_throw | Memory_throw | Ctor_throw

definition create_node ::
    "platform \<Rightarrow> tid \<Rightarrow> create_fault \<Rightarrow> string \<Rightarrow> string \<Rightarrow> engine \<Rightarrow> addr outcome \<times> engine" where
  "create_node P t fault key value e =
     (case get_allocator (tid_hash P) t (factory_of e) of
        (Ret al, f) \<Rightarrow>
          (let e1 = e\<lparr>factory_of := f\<rparr>;
               ctor = (if fault = Ctor_throw then Throw Bad_alloc
                       else Ret \<lparr>m_key = key, m_ptrValue = value, m_next = None, m_allocator = al\<rparr>)
           in if fault = Args_throw then (Throw Bad_alloc, e1)
              else (let (r, h) = allocate_new al (fault \<noteq> Memory_throw) ctor (heap e1)
                    in (r, e1\<lparr>heap := h\<rparr>)))
      | (Throw x, f) \<Rightarrow> (Throw x, e\<lparr>factory_of := f\<rparr>)
      | (UB, f) \<Rightarrow> (UB, e\<lparr>factory_of := f\<rparr>))"

definition delete_self :: "addr \<Rightarrow> list_node store \<Rightarrow> list_node store option" where
  "delete_self a h =
     (case deref h a of
        None \<Rightarrow> None
      | Some n \<Rightarrow>
          (case destroy a h of
             (Ret _, h1) \<Rightarrow>
               (case deallocate (m_allocator n) a h1 of (Ret _, h2) \<Rightarrow> Some h2 | _ \<Rightarrow> None)
           | _ \<Rightarrow> None))"

text \<open>
  The loop of \<open>set\<close> from a node of the bucket's list. The result says whether the new node was
  linked in; if not, its value was stored in the node that has the key, and the new node is still
  owned by the caller.
\<close>

partial_function (option) set_loop ::
    "list_node store \<Rightarrow> string \<Rightarrow> addr \<Rightarrow> addr \<Rightarrow> (bool \<times> list_node store) option" where
  "set_loop h key newNode node =
     (case deref h node of
        None \<Rightarrow> None
      | Some n \<Rightarrow>
          if m_key n = key then
            (case deref h newNode of
               None \<Rightarrow> None
             | Some m \<Rightarrow> Some (False, poke h node (n\<lparr>m_ptrValue := m_ptrValue m\<rparr>)))
          else
            (case compare_exchange (m_next n) None newNode of
               (exchanged, nextNode, next') \<Rightarrow>
                 if exchanged then Some (True, poke h node (n\<lparr>m_next := next'\<rparr>))
                 else (case nextNode of None \<Rightarrow> None | Some nx \<Rightarrow> set_loop h key newNode nx)))"

definition set_kv ::
    "platform \<Rightarrow> tid \<Rightarrow> create_fault \<Rightarrow> string \<Rightarrow> string \<Rightarrow> engine \<Rightarrow> unit outcome \<times> engine" where
  "set_kv P t fault key value e =
     (case create_node P t fault key value e of
        (Ret new, e1) \<Rightarrow>
          (case bucket_index P key (length (m_buckets e1)) of
             None \<Rightarrow> (UB, e1)
           | Some i \<Rightarrow>
               (case compare_exchange (m_buckets e1 ! i) None new of
                  (True, _, head') \<Rightarrow> (Ret (), e1\<lparr>m_buckets := (m_buckets e1)[i := head']\<rparr>)
                | (False, None, _) \<Rightarrow> (UB, e1)
                | (False, Some node, _) \<Rightarrow>
                    (case set_loop (heap e1) key new node of
                       None \<Rightarrow> (UB, e1)
                     | Some (True, h) \<Rightarrow> (Ret (), e1\<lparr>heap := h\<rparr>)
                     | Some (False, h) \<Rightarrow>
                         (case delete_self new h of
                            None \<Rightarrow> (UB, e1\<lparr>heap := h\<rparr>)
                          | Some h' \<Rightarrow> (Ret (), e1\<lparr>heap := h'\<rparr>)))))
      | (Throw x, e1) \<Rightarrow> (Throw x, e1)
      | (UB, e1) \<Rightarrow> (UB, e1))"

subsection \<open>\<open>enumerate\<close>, the statistics and the destructor\<close>

text \<open>The visitor is a callback that changes a state of its own.\<close>

partial_function (option) enumerate_bucket ::
    "(string \<Rightarrow> string \<Rightarrow> 's \<Rightarrow> 's) \<Rightarrow> list_node store \<Rightarrow> addr option \<Rightarrow> 's \<Rightarrow> 's option" where
  "enumerate_bucket visitor h node s =
     (case node of
        None \<Rightarrow> Some s
      | Some a \<Rightarrow>
          (case deref h a of
             None \<Rightarrow> None
           | Some n \<Rightarrow>
               enumerate_bucket visitor h (m_next n) (visitor (m_key n) (get_value_const_ref n) s)))"

fun enumerate_buckets ::
    "(string \<Rightarrow> string \<Rightarrow> 's \<Rightarrow> 's) \<Rightarrow> list_node store \<Rightarrow> addr option list \<Rightarrow> 's \<Rightarrow> 's option" where
  "enumerate_buckets visitor h [] s = Some s"
| "enumerate_buckets visitor h (b # bs) s =
     (case enumerate_bucket visitor h b s of
        None \<Rightarrow> None
      | Some s' \<Rightarrow> enumerate_buckets visitor h bs s')"

definition enumerate :: "(string \<Rightarrow> string \<Rightarrow> 's \<Rightarrow> 's) \<Rightarrow> engine \<Rightarrow> 's \<Rightarrow> 's outcome" where
  "enumerate visitor e s = of_option (enumerate_buckets visitor (heap e) (m_buckets e) s)"

definition get_read_statistics :: "engine \<Rightarrow> access_statistics" where
  "get_read_statistics e =
     \<lparr>m_successOperations = m_successReads e, m_failedOperations = m_failedReads e\<rparr>"

partial_function (option) destroy_bucket :: "list_node store \<Rightarrow> addr option \<Rightarrow> list_node store option" where
  "destroy_bucket h node =
     (case node of
        None \<Rightarrow> Some h
      | Some current \<Rightarrow>
          (case deref h current of
             None \<Rightarrow> None
           | Some n \<Rightarrow>
               (case delete_self current h of
                  None \<Rightarrow> None
                | Some h' \<Rightarrow> destroy_bucket h' (m_next n))))"

fun destroy_buckets :: "list_node store \<Rightarrow> addr option list \<Rightarrow> list_node store option" where
  "destroy_buckets h [] = Some h"
| "destroy_buckets h (b # bs) =
     (case destroy_bucket h b of None \<Rightarrow> None | Some h' \<Rightarrow> destroy_buckets h' bs)"

definition destroy_engine :: "engine \<Rightarrow> engine outcome" where
  "destroy_engine e =
     (case destroy_buckets (heap e) (m_buckets e) of
        None \<Rightarrow> UB
      | Some h \<Rightarrow> Ret (e\<lparr>heap := h, m_buckets := []\<rparr>))"

end
