(* ===== verification/Engine_Lists.thy ===== *)
theory Engine_Lists
  imports DataEngine
begin

text \<open>
  Linked lists on the free store. \<open>chain h p ns\<close> says that following \<open>m_next\<close> from \<open>p\<close> visits
  the addresses \<open>ns\<close> and ends in a null pointer; the loops of the engine are computed on a chain.
  The two writes that the engine ever makes to a linked node, storing a value and appending a
  fresh node, are shown to keep every chain, for one thread and for many.
\<close>

section \<open>Chains\<close>

primrec chain :: "list_node store \<Rightarrow> addr option \<Rightarrow> addr list \<Rightarrow> bool" where
  "chain h p [] \<longleftrightarrow> p = None"
| "chain h p (a # as) \<longleftrightarrow> p = Some a \<and> (\<exists>n. deref h a = Some n \<and> chain h (m_next n) as)"

partial_function (option) path :: "list_node store \<Rightarrow> addr option \<Rightarrow> addr list option" where
  "path h p =
     (case p of
        None \<Rightarrow> Some []
      | Some a \<Rightarrow>
          (case deref h a of
             None \<Rightarrow> None
           | Some n \<Rightarrow> Option.bind (path h (m_next n)) (\<lambda>as. Some (a # as))))"

lemma chain_path: "chain h p ns \<Longrightarrow> path h p = Some ns"
proof (induction ns arbitrary: p)
  case Nil
  then show ?case by (simp add: path.simps)
next
  case (Cons a ns)
  then show ?case by (subst path.simps) auto
qed

lemma path_chain: "path h p = Some ns \<Longrightarrow> chain h p ns"
proof (induction ns arbitrary: p)
  case Nil
  then show ?case
    by (subst (asm) path.simps) (auto split: option.splits Option.bind_splits)
next
  case (Cons a ns)
  then show ?case
    by (subst (asm) path.simps) (auto split: option.splits Option.bind_splits)
qed

lemma path_iff_chain: "path h p = Some ns \<longleftrightarrow> chain h p ns"
  by (blast intro: chain_path path_chain)

lemma chain_unique: "chain h p ns \<Longrightarrow> chain h p ms \<Longrightarrow> ns = ms"
  by (simp add: path_iff_chain [symmetric])

definition node_at :: "list_node store \<Rightarrow> addr \<Rightarrow> list_node" where
  "node_at h a = the (deref h a)"

definition entry_at :: "list_node store \<Rightarrow> addr \<Rightarrow> string \<times> string" where
  "entry_at h a = (m_key (node_at h a), m_ptrValue (node_at h a))"

abbreviation key_at :: "list_node store \<Rightarrow> addr \<Rightarrow> string" where
  "key_at h a \<equiv> m_key (node_at h a)"

lemma fst_entry_at [simp]: "fst (entry_at h a) = key_at h a"
  by (simp add: entry_at_def)

lemma fst_comp_entry_at [simp]: "fst \<circ> entry_at h = key_at h"
  by (simp add: fun_eq_iff)

lemma node_at_poke: "node_at (poke h a x) b = (if b = a then x else node_at h b)"
  by (simp add: node_at_def)

lemma chain_live: "chain h p ns \<Longrightarrow> a \<in> set ns \<Longrightarrow> \<exists>n. deref h a = Some n"
  by (induction ns arbitrary: p) auto

lemma chain_deref: "chain h p ns \<Longrightarrow> a \<in> set ns \<Longrightarrow> deref h a = Some (node_at h a)"
  using chain_live [of h p ns a] by (auto simp: node_at_def)

lemma chain_suffix:
  "chain h p (ms @ a # ns) \<Longrightarrow> chain h (Some a) (a # ns) \<and> chain h (m_next (node_at h a)) ns"
  by (induction ms arbitrary: p) (auto simp: node_at_def)

lemma chain_last_next: "chain h p ns \<Longrightarrow> ns \<noteq> [] \<Longrightarrow> m_next (node_at h (last ns)) = None"
proof (induction ns arbitrary: p)
  case (Cons a ns)
  then show ?case by (cases ns) (auto simp: node_at_def)
qed simp

lemma chain_next_last:
  assumes "chain h p (ms @ a # ns)" "m_next (node_at h a) = None"
  shows "ns = []"
  using chain_suffix [OF assms(1)] assms(2) by (cases ns) auto

subsection \<open>Writes\<close>

lemma chain_frame:
  assumes "chain h p ns" "\<And>a. a \<in> set ns \<Longrightarrow> deref h' a = deref h a"
  shows "chain h' p ns"
  using assms by (induction ns arbitrary: p) auto

lemma chain_poke_other: "chain h p ns \<Longrightarrow> a \<notin> set ns \<Longrightarrow> chain (poke h a x) p ns"
  by (rule chain_frame) auto

lemma entries_poke_other: "a \<notin> set ns \<Longrightarrow> map (entry_at (poke h a x)) ns = map (entry_at h) ns"
  by (auto simp: entry_at_def node_at_poke)

text \<open>Storing a value changes no pointer.\<close>

lemma chain_store_value:
  assumes "chain h p ns" "deref h a = Some n"
  shows "chain (poke h a (n\<lparr>m_ptrValue := v\<rparr>)) p ns"
  using assms by (induction ns arbitrary: p) auto

lemma entries_store_value:
  assumes "chain h p ns" "distinct (map (key_at h) ns)" "a \<in> set ns" "deref h a = Some n"
  shows "map (entry_at (poke h a (n\<lparr>m_ptrValue := v\<rparr>))) ns
       = AList.update (m_key n) v (map (entry_at h) ns)"
  using assms
proof (induction ns arbitrary: p)
  case (Cons b ns)
  from Cons.prems have key: "key_at h a = m_key n" by (simp add: node_at_def)
  show ?case
  proof (cases "a = b")
    case True
    with Cons.prems have "a \<notin> set ns" using key by (force simp: image_iff)
    with True key show ?thesis
      by (simp add: entries_poke_other) (simp add: entry_at_def node_at_poke)
  next
    case False
    with Cons.prems have "a \<in> set ns" "key_at h b \<noteq> key_at h a" by (auto simp: image_iff)
    with Cons False key show ?thesis by (auto simp: entry_at_def node_at_poke)
  qed
qed simp

text \<open>Appending a fresh node behind the last one.\<close>

lemma chain_append:
  assumes "chain h p ns" "ns \<noteq> []" "distinct ns" "deref h (last ns) = Some n"
    and "deref h new = Some m" "m_next m = None" "new \<notin> set ns"
  shows "chain (poke h (last ns) (n\<lparr>m_next := Some new\<rparr>)) p (ns @ [new])"
  using assms
proof (induction ns arbitrary: p)
  case (Cons a ns)
  show ?case
  proof (cases "ns = []")
    case True
    with Cons.prems show ?thesis by auto
  next
    case False
    with Cons.prems obtain k where "deref h a = Some k" "chain h (m_next k) ns" by auto
    with Cons False show ?thesis by auto
  qed
qed simp

lemma entries_set_next:
  "deref h a = Some n \<Longrightarrow> entry_at (poke h a (n\<lparr>m_next := q\<rparr>)) b = entry_at h b"
  by (simp add: entry_at_def node_at_def)

lemma keys_set_next:
  "deref h a = Some n \<Longrightarrow> key_at (poke h a (n\<lparr>m_next := q\<rparr>)) b = key_at h b"
  by (simp add: node_at_def)

lemma keys_store_value:
  "deref h a = Some n \<Longrightarrow> key_at (poke h a (n\<lparr>m_ptrValue := v\<rparr>)) b = key_at h b"
  by (simp add: node_at_def)

section \<open>The loops on a chain\<close>

lemma get_loop_chain:
  "chain h p ns \<Longrightarrow> get_loop h key p = Some (List.find (\<lambda>a. key_at h a = key) ns)"
proof (induction ns arbitrary: p)
  case Nil
  then show ?case by (simp add: get_loop.simps)
next
  case (Cons a ns)
  then show ?case by (subst get_loop.simps) (auto simp: node_at_def)
qed

lemma enumerate_bucket_chain:
  "chain h p ns \<Longrightarrow>
     enumerate_bucket visitor h p s = Some (fold (\<lambda>(k, v). visitor k v) (map (entry_at h) ns) s)"
proof (induction ns arbitrary: p s)
  case Nil
  then show ?case by (simp add: enumerate_bucket.simps)
next
  case (Cons a ns)
  then show ?case
    by (subst enumerate_bucket.simps)
      (auto simp: entry_at_def [of _ a] node_at_def [of _ a] get_value_const_ref_def)
qed

lemma find_key_map_of:
  "map_of (map (entry_at h) ns) key =
     map_option (\<lambda>a. m_ptrValue (node_at h a)) (List.find (\<lambda>a. key_at h a = key) ns)"
  by (induction ns) (auto simp: entry_at_def)

text \<open>
  The loop of \<open>set\<close>, from a non-empty chain none of whose earlier nodes has the key: it stores in
  the first node with the key, or appends.
\<close>

lemma set_loop_hit:
  assumes "chain h (Some p) ns" "List.find (\<lambda>a. key_at h a = key) ns = Some a" "deref h new = Some m"
  shows "set_loop h key new p =
    Some (False, poke h a ((node_at h a)\<lparr>m_ptrValue := m_ptrValue m\<rparr>))"
  using assms
proof (induction ns arbitrary: p)
  case (Cons b ns)
  from Cons.prems obtain n where n: "p = b" "deref h b = Some n" "chain h (m_next n) ns" by auto
  show ?case
  proof (cases "m_key n = key")
    case True
    with Cons.prems n show ?thesis by (subst set_loop.simps) (auto simp: node_at_def)
  next
    case False
    with Cons.prems n have f: "List.find (\<lambda>a. key_at h a = key) ns = Some a"
      by (auto simp: node_at_def split: if_splits)
    then obtain q qs where "ns = q # qs" by (cases ns) auto
    with n(3) have q: "m_next n = Some q" by simp
    with n Cons.IH [of q] Cons.prems(3) f False show ?thesis
      by (subst set_loop.simps) (simp add: compare_exchange_def)
  qed
qed simp

lemma set_loop_miss:
  assumes "chain h (Some p) ns" "List.find (\<lambda>a. key_at h a = key) ns = None"
  shows "set_loop h key new p =
    Some (True, poke h (last ns) ((node_at h (last ns))\<lparr>m_next := Some new\<rparr>))"
  using assms
proof (induction ns arbitrary: p)
  case (Cons b ns)
  from Cons.prems obtain n where n: "p = b" "deref h b = Some n" "chain h (m_next n) ns" by auto
  from Cons.prems(2) n have ne: "m_key n \<noteq> key" and f: "List.find (\<lambda>a. key_at h a = key) ns = None"
    by (auto simp: node_at_def split: if_splits)
  show ?case
  proof (cases ns)
    case Nil
    with n ne show ?thesis
      by (subst set_loop.simps) (simp add: compare_exchange_def node_at_def)
  next
    case (Cons q qs)
    with n(3) have q: "m_next n = Some q" by simp
    with n ne Cons Cons.IH [of q] f show ?thesis
      by (subst set_loop.simps) (simp add: compare_exchange_def)
  qed
qed simp

section \<open>The shape of the whole engine\<close>

text \<open>
  Every bucket is a finite list of live nodes with distinct keys, each of which hashes to that
  bucket, and every cell of the store belongs to a bucket: nothing has leaked.
\<close>

definition bucket_ok :: "platform \<Rightarrow> nat \<Rightarrow> list_node store \<Rightarrow> nat \<Rightarrow> addr option \<Rightarrow> bool" where
  "bucket_ok P bucketCount h i p \<longleftrightarrow>
     (case path h p of
        None \<Rightarrow> False
      | Some ns \<Rightarrow> distinct (map (key_at h) ns) \<and>
          (\<forall>a\<in>set ns. bucket_index P (key_at h a) bucketCount = Some i))"

definition path_of :: "list_node store \<Rightarrow> addr option \<Rightarrow> addr list" where
  "path_of h p = (case path h p of None \<Rightarrow> [] | Some ns \<Rightarrow> ns)"

definition linked_in :: "addr option list \<Rightarrow> list_node store \<Rightarrow> addr set" where
  "linked_in bs h = (\<Union>p\<in>set bs. set (path_of h p))"

abbreviation linked :: "engine \<Rightarrow> addr set" where
  "linked e \<equiv> linked_in (m_buckets e) (heap e)"

definition buckets_ok :: "platform \<Rightarrow> addr option list \<Rightarrow> list_node store \<Rightarrow> bool" where
  "buckets_ok P bs h \<longleftrightarrow> bs \<noteq> [] \<and> (\<forall>i<length bs. bucket_ok P (length bs) h i (bs ! i))"

definition engine_ok :: "platform \<Rightarrow> engine \<Rightarrow> bool" where
  "engine_ok P e \<longleftrightarrow>
     buckets_ok P (m_buckets e) (heap e) \<and> store_wf (heap e) \<and>
     (\<forall>a c. cells (heap e) a = Some c \<longrightarrow> a \<in> linked e) \<and>
     factory_ok (tid_hash P) (allocators (factory_of e))"

text \<open>The entries of the engine, bucket by bucket, and as one map.\<close>

definition bucket_entries :: "list_node store \<Rightarrow> addr option \<Rightarrow> (string \<times> string) list" where
  "bucket_entries h p = map (entry_at h) (path_of h p)"

definition engine_buckets :: "engine \<Rightarrow> (string \<times> string) list list" where
  "engine_buckets e = map (bucket_entries (heap e)) (m_buckets e)"

definition engine_items :: "engine \<Rightarrow> (string \<times> string) list" where
  "engine_items e = concat (engine_buckets e)"

definition engine_map :: "engine \<Rightarrow> string \<rightharpoonup> string" where
  "engine_map e = map_of (engine_items e)"

lemma path_of_chain: "chain h p ns \<Longrightarrow> path_of h p = ns"
  by (simp add: path_of_def chain_path)

lemma bucket_entries_chain: "chain h p ns \<Longrightarrow> bucket_entries h p = map (entry_at h) ns"
  by (simp add: bucket_entries_def path_of_chain)

lemma bucket_okE [consumes 1, case_names chain]:
  assumes "bucket_ok P N h i p"
  obtains ns where "chain h p ns" "path_of h p = ns" "distinct (map (key_at h) ns)" "distinct ns"
    "\<And>a. a \<in> set ns \<Longrightarrow> bucket_index P (key_at h a) N = Some i"
proof -
  from assms obtain ns where ns: "path h p = Some ns" "distinct (map (key_at h) ns)"
    "\<forall>a\<in>set ns. bucket_index P (key_at h a) N = Some i"
    by (auto simp: bucket_ok_def split: option.splits)
  show thesis
    by (rule that [of ns]) (use ns in \<open>auto simp: path_iff_chain path_of_def chain_path distinct_map\<close>)
qed

lemma bucket_okI:
  assumes "chain h p ns" "distinct (map (key_at h) ns)"
    and "\<And>a. a \<in> set ns \<Longrightarrow> bucket_index P (key_at h a) N = Some i"
  shows "bucket_ok P N h i p"
  using assms by (simp add: bucket_ok_def chain_path)

lemma bucket_index_less: "bucket_index P key N = Some i \<Longrightarrow> i < N"
  by (auto simp: bucket_index_def split: if_splits)

text \<open>Nodes of different buckets are different: their keys hash differently.\<close>

lemma path_disjoint:
  assumes "bucket_ok P N h i p" "bucket_ok P N h j q" "i \<noteq> j"
  shows "set (path_of h p) \<inter> set (path_of h q) = {}"
proof -
  obtain ns where "path_of h p = ns" "\<And>a. a \<in> set ns \<Longrightarrow> bucket_index P (key_at h a) N = Some i"
    using assms(1) by (rule bucket_okE) blast
  moreover obtain ms where "path_of h q = ms" "\<And>a. a \<in> set ms \<Longrightarrow> bucket_index P (key_at h a) N = Some j"
    using assms(2) by (rule bucket_okE) blast
  ultimately show ?thesis using assms(3) by fastforce
qed


section \<open>The writes on the whole engine\<close>

text \<open>
  One bucket changes: its list gets a new head or new contents, the other lists are left alone.
\<close>

lemma bucket_frame:
  assumes "bucket_ok P N h j q" "\<And>a. a \<in> set (path_of h q) \<Longrightarrow> deref h' a = deref h a"
  shows "bucket_ok P N h' j q" "path_of h' q = path_of h q" "bucket_entries h' q = bucket_entries h q"
proof -
  obtain ns where chain: "chain h q ns" "path_of h q = ns" "distinct (map (key_at h) ns)" "distinct ns"
    "\<And>a. a \<in> set ns \<Longrightarrow> bucket_index P (key_at h a) N = Some j"
    using assms(1) by (rule bucket_okE) blast
  have "chain h' q ns" using chain(1) by (rule chain_frame) (simp add: assms(2) chain(2))
  moreover have "node_at h' a = node_at h a" if "a \<in> set ns" for a
    using that assms(2) chain(2) by (simp add: node_at_def)
  ultimately show "bucket_ok P N h' j q" "path_of h' q = path_of h q"
    "bucket_entries h' q = bucket_entries h q"
    using chain by (auto simp: path_of_chain bucket_entries_chain entry_at_def
        intro!: bucket_okI cong: map_cong)
qed

lemma buckets_update:
  assumes ok: "buckets_ok P bs h" and i: "i < length bs"
    and frame: "\<forall>j<length bs. j \<noteq> i \<longrightarrow> (\<forall>a\<in>set (path_of h (bs ! j)). deref h' a = deref h a)"
    and new: "bucket_ok P (length bs) h' i q"
  shows "buckets_ok P (bs[i := q]) h'"
    and "map (bucket_entries h') (bs[i := q]) = (map (bucket_entries h) bs)[i := bucket_entries h' q]"
    and "map (path_of h') (bs[i := q]) = (map (path_of h) bs)[i := path_of h' q]"
proof -
  have j: "bucket_ok P (length bs) h' j (bs ! j)" "path_of h' (bs ! j) = path_of h (bs ! j)"
    "bucket_entries h' (bs ! j) = bucket_entries h (bs ! j)" if "j < length bs" "j \<noteq> i" for j
    using bucket_frame [of P "length bs" h j "bs ! j" h'] ok that frame by (auto simp: buckets_ok_def)
  show "buckets_ok P (bs[i := q]) h'"
    using ok i new j(1) by (auto simp: buckets_ok_def nth_list_update)
  show "map (bucket_entries h') (bs[i := q]) = (map (bucket_entries h) bs)[i := bucket_entries h' q]"
    "map (path_of h') (bs[i := q]) = (map (path_of h) bs)[i := path_of h' q]"
    using i j(2,3) by (auto simp: list_eq_iff_nth_eq nth_list_update)
qed

lemma buckets_frame:
  assumes ok: "buckets_ok P bs h"
    and frame: "\<forall>j<length bs. \<forall>a\<in>set (path_of h (bs ! j)). deref h' a = deref h a"
  shows "buckets_ok P bs h'" "map (bucket_entries h') bs = map (bucket_entries h) bs"
    "map (path_of h') bs = map (path_of h) bs"
proof -
  have j: "bucket_ok P (length bs) h' j (bs ! j) \<and> path_of h' (bs ! j) = path_of h (bs ! j) \<and>
    bucket_entries h' (bs ! j) = bucket_entries h (bs ! j)" if "j < length bs" for j
    using that ok frame bucket_frame [of P "length bs" h j "bs ! j" h'] by (auto simp: buckets_ok_def)
  then show "buckets_ok P bs h'" using ok by (simp add: buckets_ok_def)
  show "map (bucket_entries h') bs = map (bucket_entries h) bs"
    "map (path_of h') bs = map (path_of h) bs"
    by (rule nth_equalityI; simp add: j)+
qed

lemma buckets_okE:
  assumes "buckets_ok P bs h" "i < length bs"
  obtains ns where "chain h (bs ! i) ns" "path_of h (bs ! i) = ns" "distinct (map (key_at h) ns)"
    "distinct ns" "\<And>a. a \<in> set ns \<Longrightarrow> bucket_index P (key_at h a) (length bs) = Some i"
    "bucket_entries h (bs ! i) = map (entry_at h) ns"
proof -
  from assms have "bucket_ok P (length bs) h i (bs ! i)" by (simp add: buckets_ok_def)
  then show thesis
    by (cases rule: bucket_okE) (auto intro: that simp: bucket_entries_chain)
qed

lemma path_linked: "i < length bs \<Longrightarrow> a \<in> set (path_of h (bs ! i)) \<Longrightarrow> a \<in> linked_in bs h"
  by (auto simp: linked_in_def)

lemma linked_in_map: "linked_in bs h = \<Union> (set ` set (map (path_of h) bs))"
  by (simp add: linked_in_def)

lemma linked_update:
  assumes "map (path_of h') bs' = (map (path_of h) bs)[i := ns']" "i < length bs"
    "set (path_of h (bs ! i)) \<subseteq> set ns'"
  shows "linked_in bs' h' = linked_in bs h \<union> set ns'"
proof -
  have "linked_in bs' h' = (\<Union>j\<in>{..<length bs}. set ((map (path_of h) bs)[i := ns'] ! j))"
    unfolding linked_in_map assms(1) by (auto simp: set_conv_nth)
  also have "\<dots> = (\<Union>j\<in>{..<length bs}. set (path_of h (bs ! j))) \<union> set ns'"
  proof (rule equalityI)
    show "(\<Union>j\<in>{..<length bs}. set ((map (path_of h) bs)[i := ns'] ! j))
      \<subseteq> (\<Union>j\<in>{..<length bs}. set (path_of h (bs ! j))) \<union> set ns'"
    proof -
      have "set ((map (path_of h) bs)[i := ns'] ! j) \<subseteq> set (path_of h (bs ! j)) \<union> set ns'"
        if "j < length bs" for j
        using that by (cases "j = i") auto
      then show ?thesis by blast
    qed
    have "set (path_of h (bs ! j)) \<subseteq> set ((map (path_of h) bs)[i := ns'] ! j)" if "j < length bs" for j
      using that assms(3) by (cases "j = i") auto
    moreover have "set ns' = set ((map (path_of h) bs)[i := ns'] ! i)" using assms(2) by simp
    ultimately show "(\<Union>j\<in>{..<length bs}. set (path_of h (bs ! j))) \<union> set ns'
      \<subseteq> (\<Union>j\<in>{..<length bs}. set ((map (path_of h) bs)[i := ns'] ! j))"
      using assms(2) by (fastforce simp del: nth_list_update_eq)
  qed
  also have "(\<Union>j\<in>{..<length bs}. set (path_of h (bs ! j))) = linked_in bs h"
    by (auto simp: linked_in_def set_conv_nth)
  finally show ?thesis .
qed

lemma linked_live: "buckets_ok P bs h \<Longrightarrow> a \<in> linked_in bs h \<Longrightarrow> \<exists>n. deref h a = Some n"
proof -
  assume ok: "buckets_ok P bs h" and "a \<in> linked_in bs h"
  then obtain i where i: "i < length bs" "a \<in> set (path_of h (bs ! i))"
    by (auto simp: linked_in_def in_set_conv_nth [of _ bs])
  from ok i(1) obtain ns where "chain h (bs ! i) ns" "path_of h (bs ! i) = ns"
    by (rule buckets_okE) blast
  with i(2) show ?thesis by (simp add: chain_live)
qed

lemma buckets_disjoint:
  assumes "buckets_ok P bs h" "i < length bs" "j < length bs" "i \<noteq> j" "a \<in> set (path_of h (bs ! i))"
  shows "a \<notin> set (path_of h (bs ! j))"
  using assms path_disjoint [of P "length bs" h i "bs ! i" j "bs ! j"] by (auto simp: buckets_ok_def)

text \<open>A fresh node becomes the first of an empty bucket.\<close>

lemma link_head:
  assumes ok: "buckets_ok P bs h" and i: "bucket_index P (m_key m) (length bs) = Some i"
    and empty: "bs ! i = None" and new: "deref h new = Some m" "m_next m = None"
  shows "buckets_ok P (bs[i := Some new]) h"
    and "map (bucket_entries h) (bs[i := Some new]) = (map (bucket_entries h) bs)
           [i := AList.update (m_key m) (m_ptrValue m) (bucket_entries h (bs ! i))]"
    and "map (path_of h) (bs[i := Some new]) = (map (path_of h) bs)[i := [new]]"
proof -
  have less: "i < length bs" using i by (rule bucket_index_less)
  have c: "chain h (Some new) [new]" using new by simp
  then have b: "bucket_ok P (length bs) h i (Some new)"
    using i new by (intro bucket_okI [OF c]) (auto simp: node_at_def)
  note U = buckets_update [OF ok less _ b, simplified]
  show "buckets_ok P (bs[i := Some new]) h" by (rule U)
  show "map (path_of h) (bs[i := Some new]) = (map (path_of h) bs)[i := [new]]"
    using U(3) c by (simp add: path_of_chain)
  have "bucket_entries h (Some new) = [entry_at h new]"
    using c by (simp add: bucket_entries_chain del: chain.simps)
  then have "bucket_entries h (Some new) = [(m_key m, m_ptrValue m)]"
    using new by (simp add: entry_at_def node_at_def)
  then show "map (bucket_entries h) (bs[i := Some new]) = (map (bucket_entries h) bs)
      [i := AList.update (m_key m) (m_ptrValue m) (bucket_entries h (bs ! i))]"
    using U(2) empty by (simp add: bucket_entries_def path_of_def path.simps)
qed

text \<open>A fresh node is appended behind the last node of a bucket that has no node with its key.\<close>

lemma update_notin: "k \<notin> fst ` set xs \<Longrightarrow> AList.update k v xs = xs @ [(k, v)]"
  by (induction xs) auto

lemma link_next:
  assumes ok: "buckets_ok P bs h" and i: "bucket_index P (m_key m) (length bs) = Some i"
    and ns: "path_of h (bs ! i) = ns" "ns \<noteq> []" "last ns = a" "deref h a = Some n"
    and new: "deref h new = Some m" "m_next m = None" "new \<notin> set ns" "m_key m \<notin> key_at h ` set ns"
    and other: "\<And>j. j < length bs \<Longrightarrow> new \<notin> set (path_of h (bs ! j))"
  defines "h' \<equiv> poke h a (n\<lparr>m_next := Some new\<rparr>)"
  shows "buckets_ok P bs h'"
    and "map (bucket_entries h') bs = (map (bucket_entries h) bs)
           [i := AList.update (m_key m) (m_ptrValue m) (bucket_entries h (bs ! i))]"
    and "map (path_of h') bs = (map (path_of h) bs)[i := ns @ [new]]"
proof -
  have less: "i < length bs" using i by (rule bucket_index_less)
  obtain ms where ms: "chain h (bs ! i) ms" "path_of h (bs ! i) = ms" "distinct (map (key_at h) ms)"
    "distinct ms" "\<And>a. a \<in> set ms \<Longrightarrow> bucket_index P (key_at h a) (length bs) = Some i"
    "bucket_entries h (bs ! i) = map (entry_at h) ms"
    using ok less by (rule buckets_okE) blast
  have [simp]: "ms = ns" using ms(2) ns(1) by simp
  have a: "a \<in> set ns" "new \<noteq> a" using ns new by auto
  have c: "chain h' (bs ! i) (ns @ [new])"
    unfolding h'_def ns(3) [symmetric] using ms ns new by (intro chain_append) auto
  have keys: "key_at h' b = key_at h b" "entry_at h' b = entry_at h b" for b
    using ns(4) by (simp_all add: h'_def keys_set_next entries_set_next)
  have b: "bucket_ok P (length bs) h' i (bs ! i)"
    using ms i new by (intro bucket_okI [OF c]) (auto simp: keys cong: map_cong, auto simp: node_at_def)
  have fr: "\<forall>j<length bs. j \<noteq> i \<longrightarrow> (\<forall>b\<in>set (path_of h (bs ! j)). deref h' b = deref h b)"
    using a ns(1) buckets_disjoint [OF ok less, of _ a] by (auto simp: h'_def)
  note U = buckets_update [OF ok less fr b]
  show "buckets_ok P bs h'" using U(1) by simp
  show "map (path_of h') bs = (map (path_of h) bs)[i := ns @ [new]]"
    using U(3) c by (simp add: path_of_chain)
  have "bucket_entries h' (bs ! i) = map (entry_at h) ns @ [(m_key m, m_ptrValue m)]"
    using c new by (simp add: bucket_entries_chain keys) (simp add: entry_at_def node_at_def)
  moreover have "\<dots> = AList.update (m_key m) (m_ptrValue m) (bucket_entries h (bs ! i))"
    using ms(6) new(4) by (simp add: update_notin image_image)
  ultimately show "map (bucket_entries h') bs = (map (bucket_entries h) bs)
      [i := AList.update (m_key m) (m_ptrValue m) (bucket_entries h (bs ! i))]"
    using U(2) by simp
qed

text \<open>A value is stored in a linked node.\<close>

lemma store_value:
  fixes v :: string
  assumes ok: "buckets_ok P bs h" and i: "i < length bs" "a \<in> set (path_of h (bs ! i))"
    and n: "deref h a = Some n"
  defines "h' \<equiv> poke h a (n\<lparr>m_ptrValue := v\<rparr>)"
  shows "buckets_ok P bs h'"
    and "map (bucket_entries h') bs = (map (bucket_entries h) bs)
           [i := AList.update (m_key n) v (bucket_entries h (bs ! i))]"
    and "map (path_of h') bs = map (path_of h) bs"
proof -
  obtain ns where ns: "chain h (bs ! i) ns" "path_of h (bs ! i) = ns" "distinct (map (key_at h) ns)"
    "\<And>a. a \<in> set ns \<Longrightarrow> bucket_index P (key_at h a) (length bs) = Some i"
    "bucket_entries h (bs ! i) = map (entry_at h) ns"
    using ok i(1) by (rule buckets_okE) blast
  have c: "chain h' (bs ! i) ns" unfolding h'_def using ns(1) n by (rule chain_store_value)
  have keys: "key_at h' b = key_at h b" for b using n by (simp add: h'_def keys_store_value)
  have b: "bucket_ok P (length bs) h' i (bs ! i)"
    using ns by (intro bucket_okI [OF c]) (auto simp: keys)
  have fr: "\<forall>j<length bs. j \<noteq> i \<longrightarrow> (\<forall>b\<in>set (path_of h (bs ! j)). deref h' b = deref h b)"
    using i buckets_disjoint [OF ok i(1), of _ a] by (auto simp: h'_def)
  note U = buckets_update [OF ok i(1) fr b]
  show "buckets_ok P bs h'" using U(1) by simp
  show "map (path_of h') bs = map (path_of h) bs"
    using U(3) c ns(2) i(1) by (simp add: path_of_chain list_update_same_conv)
  have "bucket_entries h' (bs ! i) = AList.update (m_key n) v (bucket_entries h (bs ! i))"
    using c ns i n by (simp add: bucket_entries_chain h'_def entries_store_value)
  then show "map (bucket_entries h') bs = (map (bucket_entries h) bs)
      [i := AList.update (m_key n) v (bucket_entries h (bs ! i))]"
    using U(2) by simp
qed

end
