(* ===== verification/Engine_Correct.thy ===== *)
theory Engine_Correct
  imports Engine_Lists
begin

text \<open>
  The engine as one thread sees it. Every operation keeps \<open>engine_ok\<close> (the lists are acyclic, keys
  are unique and in the bucket they hash to, no cell has leaked) and never runs into \<open>UB\<close>; \<open>get\<close>
  is the lookup of the map of entries and counts itself, \<open>set\<close> is \<open>AList.update\<close> of one bucket
  and the update of the map, a \<open>set\<close> that throws changes no entry, \<open>enumerate\<close> visits every entry
  once, and the destructor frees every node exactly once.

  The locale \<open>kv_store\<close> is what the other components rely on; the engine is its interpretation.
\<close>

section \<open>Construction and lookup\<close>

lemma path_None [simp]: "path h None = Some []"
  by (simp add: path.simps)

lemma path_of_None [simp]: "path_of h None = []"
  by (simp add: path_of_def)

lemma new_engine_ok: "0 < n \<Longrightarrow> engine_ok P (new_engine n)"
  by (auto simp: engine_ok_def buckets_ok_def new_engine_def bucket_ok_def store_wf_def
      empty_store_def factory_ok_def)

lemma new_engine_map [simp]: "engine_map (new_engine n) = Map.empty"
  by (simp add: engine_map_def engine_items_def engine_buckets_def new_engine_def
      bucket_entries_def concat_replicate_trivial)

lemma engine_okD:
  assumes "engine_ok P e"
  shows "m_buckets e \<noteq> []"
    and "i < length (m_buckets e) \<Longrightarrow> bucket_ok P (length (m_buckets e)) (heap e) i (m_buckets e ! i)"
    and "store_wf (heap e)"
    and "cells (heap e) a = Some c \<Longrightarrow> a \<in> linked e"
    and "factory_ok (tid_hash P) (allocators (factory_of e))"
  using assms by (auto simp: engine_ok_def buckets_ok_def)

lemma bucket_index_ok:
  assumes "m_buckets e \<noteq> []"
  obtains i where "bucket_index P key (length (m_buckets e)) = Some i" "i < length (m_buckets e)"
  using assms by (auto simp: bucket_index_def)

text \<open>The entries of a key are in the bucket it hashes to.\<close>

lemma bucket_keys:
  assumes "bucket_ok P N h i p" "(k, v) \<in> set (bucket_entries h p)"
  shows "bucket_index P k N = Some i"
  using assms by (auto simp: bucket_entries_def entry_at_def elim!: bucket_okE)

lemma map_of_concat_buckets:
  assumes "i < length xss" "\<And>j. j < length xss \<Longrightarrow> j \<noteq> i \<Longrightarrow> map_of (xss ! j) k = None"
  shows "map_of (concat xss) k = map_of (xss ! i) k"
  using assms
proof (induction xss arbitrary: i)
  case (Cons xs xss)
  show ?case
  proof (cases i)
    case 0
    have "map_of (concat xss) k = None"
    proof -
      have "map_of xs' k = None" if "xs' \<in> set xss" for xs'
        using that Cons.prems(2) [of "Suc _"] 0 by (auto simp: in_set_conv_nth)
      then show ?thesis by (auto simp: map_of_eq_None_iff)
    qed
    with 0 show ?thesis by (simp add: map_add_def split: option.split)
  next
    case (Suc j)
    with Cons.prems(2) [of 0] have "map_of xs k = None" by simp
    moreover have "map_of (concat xss) k = map_of (xss ! j) k"
      using Suc Cons.prems(1) Cons.prems(2) [of "Suc _"] by (intro Cons.IH) auto
    ultimately show ?thesis using Suc by (simp add: map_add_def split: option.split)
  qed
qed simp

lemma engine_map_bucket:
  assumes ok: "buckets_ok P (m_buckets e) (heap e)"
    and i: "bucket_index P k (length (m_buckets e)) = Some i"
  shows "engine_map e k = map_of (bucket_entries (heap e) (m_buckets e ! i)) k"
proof -
  let ?n = "length (m_buckets e)"
  have less: "i < ?n" using i by (rule bucket_index_less)
  have "map_of (bucket_entries (heap e) (m_buckets e ! j)) k = None" if "j < ?n" "j \<noteq> i" for j
    using that ok i bucket_keys [of P ?n "heap e" j "m_buckets e ! j" k]
    by (force simp: buckets_ok_def map_of_eq_None_iff)
  then have "map_of (concat (map (bucket_entries (heap e)) (m_buckets e))) k
      = map_of (map (bucket_entries (heap e)) (m_buckets e) ! i) k"
    using less by (intro map_of_concat_buckets) auto
  with less show ?thesis by (simp add: engine_map_def engine_items_def engine_buckets_def)
qed

lemma get_cases:
  assumes "engine_ok P e"
  obtains (hit) v where "engine_map e key = Some v"
      "get P copy_ok key e =
         (if copy_ok then Ret (Some v) else Throw Bad_alloc, e\<lparr>m_successReads := m_successReads e + 1\<rparr>)"
    | (miss) "engine_map e key = None"
      "get P copy_ok key e = (Ret None, e\<lparr>m_failedReads := m_failedReads e + 1\<rparr>)"
proof -
  note D = engine_okD [OF assms]
  obtain i where i: "bucket_index P key (length (m_buckets e)) = Some i" "i < length (m_buckets e)"
    using D(1) by (rule bucket_index_ok)
  obtain ns where ns: "chain (heap e) (m_buckets e ! i) ns"
    using D(2) [OF i(2)] by (rule bucket_okE) blast
  have map: "engine_map e key
      = map_option (\<lambda>a. m_ptrValue (node_at (heap e) a)) (List.find (\<lambda>a. key_at (heap e) a = key) ns)"
    using assms i ns engine_map_bucket [of P e key i]
    by (simp add: engine_ok_def bucket_entries_chain find_key_map_of)
  show thesis
  proof (cases "List.find (\<lambda>a. key_at (heap e) a = key) ns")
    case None
    with ns i map show thesis by (intro miss) (simp_all add: get_def get_loop_chain)
  next
    case (Some a)
    then have "a \<in> set ns" by (auto simp: find_Some_iff)
    then have "deref (heap e) a = Some (node_at (heap e) a)" using ns by (rule chain_deref [rotated])
    with ns i map Some show thesis
      by (intro hit) (simp_all add: get_def get_loop_chain get_value_const_ref_def)
  qed
qed

lemma engine_view_counters [simp]:
  "engine_ok P (e\<lparr>m_successReads := x\<rparr>) = engine_ok P e"
  "engine_ok P (e\<lparr>m_failedReads := x\<rparr>) = engine_ok P e"
  "engine_items (e\<lparr>m_successReads := x\<rparr>) = engine_items e"
  "engine_items (e\<lparr>m_failedReads := x\<rparr>) = engine_items e"
  "engine_buckets (e\<lparr>m_successReads := x\<rparr>) = engine_buckets e"
  "engine_buckets (e\<lparr>m_failedReads := x\<rparr>) = engine_buckets e"
  by (simp_all add: engine_ok_def engine_items_def engine_buckets_def)

lemma engine_map_counters [simp]:
  "engine_map (e\<lparr>m_successReads := x\<rparr>) = engine_map e"
  "engine_map (e\<lparr>m_failedReads := x\<rparr>) = engine_map e"
  by (simp_all add: engine_map_def)

lemma get_keeps:
  assumes "engine_ok P e"
  shows "engine_ok P (snd (get P c key e))" "engine_map (snd (get P c key e)) = engine_map e"
    "engine_items (snd (get P c key e)) = engine_items e"
  using assms by (cases rule: get_cases [of P e key c]; simp)+

section \<open>\<open>create_node\<close>\<close>

lemma create_node_cases:
  assumes wf: "store_wf (heap e)" and fact: "factory_ok (tid_hash P) (allocators (factory_of e))"
  obtains (ok) e1 where "create_node P t fault key value e = (Ret (top (heap e)), e1)" "fault = No_fault"
      "heap e1 = (poke (heap e) (top (heap e))
         \<lparr>m_key = key, m_ptrValue = value, m_next = None, m_allocator = \<lparr>m_heap = tid_hash P t\<rparr>\<rparr>)
         \<lparr>top := Suc (top (heap e))\<rparr>"
      "m_buckets e1 = m_buckets e" "factory_ok (tid_hash P) (allocators (factory_of e1))"
      "m_successReads e1 = m_successReads e" "m_failedReads e1 = m_failedReads e"
    | (fails) e1 where "create_node P t fault key value e = (Throw Bad_alloc, e1)" "fault \<noteq> No_fault"
      "cells (heap e1) = cells (heap e)" "top (heap e) \<le> top (heap e1)"
      "m_buckets e1 = m_buckets e" "factory_ok (tid_hash P) (allocators (factory_of e1))"
      "m_successReads e1 = m_successReads e" "m_failedReads e1 = m_failedReads e"
proof -
  obtain f where f: "get_allocator (tid_hash P) t (factory_of e) = (Ret \<lparr>m_heap = tid_hash P t\<rparr>, f)"
    "factory_ok (tid_hash P) (allocators f)"
    using fact by (rule get_allocator_ok)
  show thesis
  proof (cases fault)
    case No_fault
    with f wf show thesis
      by (intro ok [of "e\<lparr>factory_of := f, heap := (poke (heap e) (top (heap e))
         \<lparr>m_key = key, m_ptrValue = value, m_next = None, m_allocator = \<lparr>m_heap = tid_hash P t\<rparr>\<rparr>)
         \<lparr>top := Suc (top (heap e))\<rparr>\<rparr>"])
        (simp_all add: create_node_def allocate_new_Ret)
  next
    case Args_throw
    with f show thesis
      by (intro fails [of "e\<lparr>factory_of := f\<rparr>"]) (simp_all add: create_node_def)
  next
    case Memory_throw
    with f show thesis
      by (intro fails [of "e\<lparr>factory_of := f\<rparr>"])
        (simp_all add: create_node_def allocate_new_def allocate_def)
  next
    case Ctor_throw
    obtain h where h: "allocate_new \<lparr>m_heap = tid_hash P t\<rparr> True (Throw Bad_alloc) (heap e)
        = (Throw Bad_alloc, h)"
      by (auto simp: allocate_new_def allocate_def construct_def deallocate_def)
    with wf have "cells h = cells (heap e)" "top (heap e) \<le> top h"
      by (auto dest: allocate_new_fails)
    with f h Ctor_throw show thesis
      by (intro fails [of "e\<lparr>factory_of := f, heap := h\<rparr>"]) (simp_all add: create_node_def)
  qed
qed


section \<open>\<open>set\<close>\<close>

text \<open>The state after \<open>create_node\<close>: one more live cell, that no bucket reaches yet.\<close>

lemma created:
  assumes bs: "buckets_ok P (m_buckets e) (heap e)" and wf: "store_wf (heap e)"
    and h: "h = (poke (heap e) (top (heap e)) m)\<lparr>top := Suc (top (heap e))\<rparr>"
  shows "buckets_ok P (m_buckets e) h"
    and "map (bucket_entries h) (m_buckets e) = engine_buckets e"
    and "map (path_of h) (m_buckets e) = map (path_of (heap e)) (m_buckets e)"
    and "top (heap e) \<notin> linked_in (m_buckets e) h"
    and "linked_in (m_buckets e) h = linked e"
    and "deref h (top (heap e)) = Some m"
    and "cells h = (cells (heap e))(top (heap e) \<mapsto> Live m)"
    and "store_wf h"
proof -
  have new: "top (heap e) \<notin> linked e"
    using linked_live [OF bs, of "top (heap e)"] deref_below_top [OF wf, of "top (heap e)"] by auto
  have d: "deref h a = (if a = top (heap e) then Some m else deref (heap e) a)" for a
    by (simp add: h deref_def poke_def)
  have fr: "\<forall>j<length (m_buckets e). \<forall>a\<in>set (path_of (heap e) (m_buckets e ! j)). deref h a = deref (heap e) a"
    using new path_linked by (fastforce simp: d)
  note F = buckets_frame [OF bs fr]
  show "buckets_ok P (m_buckets e) h" "map (bucket_entries h) (m_buckets e) = engine_buckets e"
    "map (path_of h) (m_buckets e) = map (path_of (heap e)) (m_buckets e)"
    using F by (simp_all add: engine_buckets_def)
  show "linked_in (m_buckets e) h = linked e"
    unfolding linked_in_map F(3) ..
  with new show "top (heap e) \<notin> linked_in (m_buckets e) h" by simp
  show "deref h (top (heap e)) = Some m" by (simp add: d)
  show "cells h = (cells (heap e))(top (heap e) \<mapsto> Live m)" by (simp add: h poke_def)
  then show "store_wf h" using wf by (auto simp: store_wf_def h)
qed

text \<open>\<open>delete_self\<close> of a live node takes its cell away.\<close>

lemma delete_self_live:
  assumes "deref h a = Some n"
  shows "delete_self a h = Some (h\<lparr>cells := (cells h)(a := None)\<rparr>)"
  using assms by (auto simp: delete_self_def destroy_def deallocate_def deref_def split: option.splits cell.splits)

lemma deref_delete: "deref (h\<lparr>cells := (cells h)(a := None)\<rparr>) b = (if b = a then None else deref h b)"
  by (simp add: deref_def)

lemma cells_poke: "cells (poke h a x) b = (if b = a then Some (Live x) else cells h b)"
  by (simp add: poke_def)

text \<open>The three ways a \<open>set\<close> without an exception can end, each an update of one bucket.\<close>

lemma set_kv_Ret:
  assumes ok: "engine_ok P e" and i: "bucket_index P key (length (m_buckets e)) = Some i"
  obtains e' where "set_kv P t No_fault key value e = (Ret (), e')" "engine_ok P e'"
    "engine_buckets e' = (engine_buckets e)[i := AList.update key value (engine_buckets e ! i)]"
    "length (m_buckets e') = length (m_buckets e)"
    "m_successReads e' = m_successReads e" "m_failedReads e' = m_failedReads e"
proof -
  note finish = that
  define new where "new = top (heap e)"
  define m where "m = \<lparr>m_key = key, m_ptrValue = value, m_next = None,
    m_allocator = \<lparr>m_heap = tid_hash P t\<rparr>\<rparr>"
  have less: "i < length (m_buckets e)" using i by (rule bucket_index_less)
  have bs: "buckets_ok P (m_buckets e) (heap e)" and wf: "store_wf (heap e)"
    and fact: "factory_ok (tid_hash P) (allocators (factory_of e))"
    using ok by (simp_all add: engine_ok_def)
  from wf fact obtain e1 where e1: "create_node P t No_fault key value e = (Ret new, e1)"
    "heap e1 = (poke (heap e) new m)\<lparr>top := Suc new\<rparr>" "m_buckets e1 = m_buckets e"
    "factory_ok (tid_hash P) (allocators (factory_of e1))"
    "m_successReads e1 = m_successReads e" "m_failedReads e1 = m_failedReads e"
    unfolding new_def m_def by (rule create_node_cases [of e P t No_fault key "value"]) auto
  define h where "h = heap e1"
  have h_eq: "h = (poke (heap e) new m)\<lparr>top := Suc new\<rparr>" using e1(2) by (simp add: h_def)
  note C = created [OF bs wf h_eq [unfolded new_def], folded new_def]
  have i': "bucket_index P (m_key m) (length (m_buckets e)) = Some i" using i by (simp add: m_def)
  have m: "m_key m = key" "m_ptrValue m = value" "m_next m = None" by (simp_all add: m_def)
  have E: "engine_buckets e ! i = bucket_entries h (m_buckets e ! i)"
    using C(2) less by (metis nth_map)
  obtain ns where ns: "chain h (m_buckets e ! i) ns" "path_of h (m_buckets e ! i) = ns"
    "distinct (map (key_at h) ns)" "distinct ns"
    using C(1) less by (rule buckets_okE) blast
  have new_ns: "new \<notin> set ns" using C(4) path_linked [OF less] ns(2) by blast
  have fin: thesis
    if run: "set_kv P t No_fault key value e = (Ret (), e1\<lparr>m_buckets := bs, heap := h'\<rparr>)"
      and sh: "buckets_ok P bs h'" "length bs = length (m_buckets e)"
        "map (bucket_entries h') bs = (map (bucket_entries h) (m_buckets e))
           [i := AList.update (m_key m) (m_ptrValue m) (bucket_entries h (m_buckets e ! i))]"
      and wf: "store_wf h'" and leak: "\<And>a c. cells h' a = Some c \<Longrightarrow> a \<in> linked_in bs h'"
    for bs h'
    using run e1 sh wf leak C(2) E
    by (intro finish [of "e1\<lparr>m_buckets := bs, heap := h'\<rparr>"]) (auto simp: engine_ok_def engine_buckets_def m)
  have cells_h: "a = new \<or> a \<in> linked_in (m_buckets e) h" if "cells h a = Some c" for a c
    using that C(5,7) engine_okD(4) [OF ok] by (auto split: if_splits)
  show thesis
  proof (cases "m_buckets e ! i")
    case None
    note L = link_head [OF C(1) i' None C(6) m(3)]
    show thesis
    proof (rule fin [where bs = "(m_buckets e)[i := Some new]" and h' = "h"])
      show "set_kv P t No_fault key value e = (Ret (), e1\<lparr>m_buckets := (m_buckets e)[i := Some new], heap := h\<rparr>)"
        using e1 i None by (simp add: set_kv_def compare_exchange_def h_def)
      show "a \<in> linked_in ((m_buckets e)[i := Some new]) h" if "cells h a = Some c" for a c
        using cells_h [OF that] linked_update [OF L(3) less] None by auto
    qed (use L C(8) in auto)
  next
    case (Some p)
    then have ns_ne: "ns \<noteq> []" using ns(1) by auto
    show thesis
    proof (cases "List.find (\<lambda>a. key_at h a = key) ns")
      case None
      define n where "n = node_at h (last ns)"
      define h' where "h' = poke h (last ns) (n\<lparr>m_next := Some new\<rparr>)"
      have n: "deref h (last ns) = Some n" using ns ns_ne by (simp add: n_def chain_deref)
      have nokey: "m_key m \<notin> key_at h ` set ns" using None by (auto simp: find_None_iff m)
      have notin: "new \<notin> set (path_of h (m_buckets e ! j))" if "j < length (m_buckets e)" for j
        using C(4) path_linked that by blast
      note L = link_next [OF C(1) i' ns(2) ns_ne refl n C(6) m(3) new_ns nokey notin, folded h'_def]
      have lk: "linked_in (m_buckets e) h' = linked_in (m_buckets e) h \<union> set (ns @ [new])"
        using ns(2) by (intro linked_update [OF L(3) less]) auto
      show thesis
      proof (rule fin [where bs = "m_buckets e" and h' = "h'"])
        show "set_kv P t No_fault key value e = (Ret (), e1\<lparr>m_buckets := m_buckets e, heap := h'\<rparr>)"
          using e1 i Some set_loop_miss [of h p ns key new] ns(1) None
          by (simp add: set_kv_def compare_exchange_def h'_def h_def n_def)
        show "a \<in> linked_in (m_buckets e) h'" if "cells h' a = Some c" for a c
          using that cells_h [of a] ns_ne unfolding lk
          by (auto simp: h'_def cells_poke split: if_splits)
        have "last ns < top h" using C(8) n by (rule deref_below_top)
        then show "store_wf h'" unfolding h'_def by (intro store_wf_poke C(8))
      qed (use L in auto)
    next
      case hit: (Some a)
      then have a: "a \<in> set ns" "key_at h a = key" by (auto simp: find_Some_iff)
      define n where "n = node_at h a"
      define h1 where "h1 = poke h a (n\<lparr>m_ptrValue := m_ptrValue m\<rparr>)"
      define h' where "h' = h1\<lparr>cells := (cells h1)(new := None)\<rparr>"
      have n: "deref h a = Some n" using ns(1) a(1) by (simp add: n_def chain_deref)
      have an: "a \<noteq> new" using a new_ns by auto
      have ai: "a \<in> set (path_of h (m_buckets e ! i))" using a ns by simp
      note L = store_value [OF C(1) less ai n, where v = "m_ptrValue m", folded h1_def]
      have lk: "linked_in (m_buckets e) h1 = linked_in (m_buckets e) h"
        unfolding linked_in_map L(3) ..
      have fr: "\<forall>j<length (m_buckets e). \<forall>b\<in>set (path_of h1 (m_buckets e ! j)). deref h' b = deref h1 b"
        using C(4) lk path_linked by (fastforce simp: h'_def deref_delete)
      note F = buckets_frame [OF L(1) fr]
      have lk': "linked_in (m_buckets e) h' = linked_in (m_buckets e) h"
        unfolding linked_in_map F(3) L(3) ..
      have mn: "m_key n = m_key m" using a by (simp add: n_def m)
      show thesis
      proof (rule fin [where bs = "m_buckets e" and h' = "h'"])
        have "deref h1 new = Some m" using an C(6) by (simp add: h1_def)
        then show "set_kv P t No_fault key value e = (Ret (), e1\<lparr>m_buckets := m_buckets e, heap := h'\<rparr>)"
          using e1 i Some set_loop_hit [of h p ns key a new m] ns(1) hit C(6)
          by (simp add: set_kv_def compare_exchange_def delete_self_live h'_def h1_def h_def n_def)
        show "b \<in> linked_in (m_buckets e) h'" if "cells h' b = Some c" for b c
          using that cells_h [of b] lk' ai path_linked [OF less]
          by (auto simp: h'_def h1_def cells_poke split: if_splits)
        have "a < top h" using C(8) n by (rule deref_below_top)
        then have "store_wf h1" unfolding h1_def by (intro store_wf_poke C(8))
        then show "store_wf h'" by (simp add: store_wf_def h'_def)
      qed (use L(2) F mn in auto)
    qed
  qed
qed


text \<open>A \<open>set\<close> that runs out of memory leaves the lists and every cell as they were.\<close>

lemma same_cells:
  assumes "cells h' = cells h"
  shows "deref h' = deref h" "chain h' p ns = chain h p ns" "path_of h' p = path_of h p"
    "bucket_entries h' p = bucket_entries h p" "buckets_ok P bs h' = buckets_ok P bs h"
    "linked_in bs h' = linked_in bs h"
proof -
  show d: "deref h' = deref h" using assms by (simp add: deref_def fun_eq_iff)
  have c: "chain h' p ns = chain h p ns" for p ns by (induction ns arbitrary: p) (simp_all add: d)
  then show "chain h' p ns = chain h p ns" .
  have "path h' p = Some ns \<longleftrightarrow> path h p = Some ns" for p ns by (simp add: path_iff_chain c)
  then have p: "path h' p = path h p" for p by (metis not_None_eq)
  then show "path_of h' p = path_of h p" "linked_in bs h' = linked_in bs h"
    by (simp_all add: path_of_def linked_in_def)
  have n: "node_at h' = node_at h" by (simp add: node_at_def fun_eq_iff d)
  show "bucket_entries h' p = bucket_entries h p" "buckets_ok P bs h' = buckets_ok P bs h"
    unfolding bucket_entries_def path_of_def entry_at_def buckets_ok_def bucket_ok_def p n by simp_all
qed

lemma set_kv_Throw:
  assumes ok: "engine_ok P e" and fault: "fault \<noteq> No_fault"
  obtains e' where "set_kv P t fault key value e = (Throw Bad_alloc, e')" "engine_ok P e'"
    "engine_buckets e' = engine_buckets e" "cells (heap e') = cells (heap e)"
    "m_successReads e' = m_successReads e" "m_failedReads e' = m_failedReads e"
  using engine_okD(3,5) [OF ok]
proof (cases rule: create_node_cases [of e P t fault key "value"])
  case (fails e1)
  note S = same_cells [OF fails(3)]
  have "store_wf (heap e1)"
    using fails(3,4) engine_okD(3) [OF ok] by (auto simp: store_wf_def)
  with fails ok show thesis
    by (intro that [of e1]) (auto simp: set_kv_def engine_ok_def engine_buckets_def S)
qed (use fault in simp)

text \<open>The update of a bucket is the update of the map.\<close>

lemma engine_map_update:
  assumes ok: "buckets_ok P (m_buckets e) (heap e)" "buckets_ok P (m_buckets e') (heap e')" and i: "bucket_index P key (length (m_buckets e)) = Some i"
    and b: "engine_buckets e' = (engine_buckets e)[i := AList.update key value (engine_buckets e ! i)]"
  shows "engine_map e' = (engine_map e)(key \<mapsto> value)"
proof
  fix k
  have len: "length (m_buckets e') = length (m_buckets e)"
    using arg_cong [OF b, of length] by (simp add: engine_buckets_def)
  have ne: "m_buckets e \<noteq> []" using ok(1) by (simp add: buckets_ok_def)
  obtain j where j: "bucket_index P k (length (m_buckets e)) = Some j" "j < length (m_buckets e)"
    using ne by (rule bucket_index_ok)
  have less: "i < length (m_buckets e)" using i by (rule bucket_index_less)
  have m: "engine_map e k = map_of (engine_buckets e ! j) k"
    "engine_map e' k = map_of (engine_buckets e' ! j) k"
    using ok j len engine_map_bucket [of P e k j] engine_map_bucket [of P e' k j]
    by (simp_all add: engine_buckets_def)
  show "engine_map e' k = ((engine_map e)(key \<mapsto> value)) k"
  proof (cases "j = i")
    case True
    with m b less show ?thesis by (simp add: update_conv engine_buckets_def)
  next
    case False
    then have "k \<noteq> key" using i j(1) by auto
    with False m b show ?thesis by simp
  qed
qed

lemma set_kv_ok:
  assumes "engine_ok P e"
  obtains e' where "set_kv P t No_fault key value e = (Ret (), e')" "engine_ok P e'"
    "engine_map e' = (engine_map e)(key \<mapsto> value)" "length (m_buckets e') = length (m_buckets e)"
    "m_successReads e' = m_successReads e" "m_failedReads e' = m_failedReads e"
proof -
  obtain i where i: "bucket_index P key (length (m_buckets e)) = Some i"
    using engine_okD(1) [OF assms] by (rule bucket_index_ok)
  obtain e' where e': "set_kv P t No_fault key value e = (Ret (), e')" "engine_ok P e'"
    "engine_buckets e' = (engine_buckets e)[i := AList.update key value (engine_buckets e ! i)]"
    "length (m_buckets e') = length (m_buckets e)"
    "m_successReads e' = m_successReads e" "m_failedReads e' = m_failedReads e"
    using assms i by (rule set_kv_Ret)
  moreover have "engine_map e' = (engine_map e)(key \<mapsto> value)"
    using assms e'(2) by (intro engine_map_update [OF _ _ i e'(3)]) (auto simp: engine_ok_def)
  ultimately show thesis by (intro that)
qed

section \<open>\<open>enumerate\<close>\<close>

lemma enumerate_buckets_items:
  assumes "\<forall>p\<in>set bs. \<exists>ns. chain h p ns"
  shows "enumerate_buckets visitor h bs s =
    Some (fold (\<lambda>(k, v). visitor k v) (concat (map (bucket_entries h) bs)) s)"
  using assms
proof (induction bs arbitrary: s)
  case (Cons p bs)
  then obtain ns where ns: "chain h p ns" by auto
  with Cons show ?case by (simp add: bucket_entries_chain enumerate_bucket_chain [OF ns])
qed simp

lemma buckets_chains:
  assumes "buckets_ok P bs h"
  shows "\<forall>p\<in>set bs. \<exists>ns. chain h p ns"
proof
  fix p assume "p \<in> set bs"
  then obtain i where "i < length bs" "p = bs ! i" by (auto simp: in_set_conv_nth)
  with assms show "\<exists>ns. chain h p ns" by (auto elim: buckets_okE)
qed

lemma enumerate_items:
  assumes "engine_ok P e"
  shows "enumerate visitor e s = Ret (fold (\<lambda>(k, v). visitor k v) (engine_items e) s)"
  using assms buckets_chains [of P "m_buckets e" "heap e"]
  by (simp add: enumerate_def enumerate_buckets_items engine_ok_def engine_items_def engine_buckets_def)

lemma engine_items_distinct:
  assumes "engine_ok P e"
  shows "distinct (map fst (engine_items e))"
proof -
  let ?h = "heap e" and ?bs = "m_buckets e"
  have ok: "buckets_ok P ?bs ?h" using assms by (simp add: engine_ok_def)
  have "distinct (concat (map (\<lambda>p. map fst (bucket_entries ?h p)) ?bs))"
  proof (rule distinct_concat_nth, unfold length_map)
    fix i assume i: "i < length ?bs"
    with ok show "distinct (map (\<lambda>p. map fst (bucket_entries ?h p)) ?bs ! i)"
      by (auto elim!: buckets_okE [of P ?bs ?h i])
    fix j assume j: "j < length ?bs" "i \<noteq> j"
    have "bucket_ok P (length ?bs) ?h i (?bs ! i)" "bucket_ok P (length ?bs) ?h j (?bs ! j)"
      using ok i j by (simp_all add: buckets_ok_def)
    then show "set (map (\<lambda>p. map fst (bucket_entries ?h p)) ?bs ! i) \<inter>
        set (map (\<lambda>p. map fst (bucket_entries ?h p)) ?bs ! j) = {}"
      using i j by (fastforce dest: bucket_keys)
  qed
  then show ?thesis by (simp add: engine_items_def engine_buckets_def map_concat comp_def)
qed

section \<open>The destructor\<close>

lemma destroy_bucket_chain:
  assumes "chain h p ns" "distinct ns"
  shows "destroy_bucket h p = Some (h\<lparr>cells := cells h |` (- set ns)\<rparr>)"
  using assms
proof (induction ns arbitrary: h p)
  case Nil
  then show ?case by (simp add: destroy_bucket.simps)
next
  case (Cons a ns)
  then obtain n where n: "p = Some a" "deref h a = Some n" "chain h (m_next n) ns" by auto
  let ?h = "h\<lparr>cells := (cells h)(a := None)\<rparr>"
  have "chain ?h (m_next n) ns"
    using n(3) by (rule chain_frame) (use Cons.prems in \<open>auto simp: deref_delete\<close>)
  then have "destroy_bucket ?h (m_next n) = Some (?h\<lparr>cells := cells ?h |` (- set ns)\<rparr>)"
    using Cons by simp
  moreover have "(cells h)(a := None) |` (- set ns) = cells h |` (- set (a # ns))"
    by (auto simp: restrict_map_def fun_eq_iff)
  ultimately show ?case using n by (subst destroy_bucket.simps) (simp add: delete_self_live)
qed

lemma destroy_buckets_chains:
  assumes "list_all2 (chain h) bs nss" "distinct (concat nss)"
  shows "destroy_buckets h bs = Some (h\<lparr>cells := cells h |` (- set (concat nss))\<rparr>)"
  using assms
proof (induction bs arbitrary: h nss)
  case (Cons p bs)
  then obtain ns nss' where nss: "nss = ns # nss'" "chain h p ns" "list_all2 (chain h) bs nss'"
    by (auto simp: list_all2_Cons1)
  let ?h = "h\<lparr>cells := cells h |` (- set ns)\<rparr>"
  have "deref ?h a = deref h a" if "a \<notin> set ns" for a using that by (simp add: deref_def)
  with nss(1) Cons.prems(2) have "chain ?h q ms" if "chain h q ms" "ms \<in> set nss'" for q ms
    using that by (intro chain_frame [OF that(1)]) auto
  with nss(3) have "list_all2 (chain ?h) bs nss'"
    by (auto simp: list_all2_conv_all_nth)
  with Cons nss(1) have "destroy_buckets ?h bs = Some (?h\<lparr>cells := cells ?h |` (- set (concat nss'))\<rparr>)"
    by simp
  with nss Cons.prems show ?case
    by (simp add: destroy_bucket_chain Int_commute Compl_Un)
qed (simp add: restrict_map_def)

lemma destroy_engine_ok:
  assumes ok: "engine_ok P e"
  obtains e' where "destroy_engine e = Ret e'" "cells (heap e') = Map.empty" "m_buckets e' = []"
proof -
  let ?h = "heap e" and ?bs = "m_buckets e"
  let ?nss = "map (path_of ?h) ?bs"
  have b: "buckets_ok P ?bs ?h" using ok by (simp add: engine_ok_def)
  have "list_all2 (chain ?h) ?bs ?nss"
    by (auto simp: list_all2_conv_all_nth elim!: buckets_okE [OF b])
  moreover have "distinct (concat ?nss)"
  proof (rule distinct_concat_nth, unfold length_map)
    fix i assume i: "i < length ?bs"
    with b show "distinct (?nss ! i)" by (auto elim!: buckets_okE [of P ?bs ?h i])
    fix j assume "j < length ?bs" "i \<noteq> j"
    with i buckets_disjoint [OF b] show "set (?nss ! i) \<inter> set (?nss ! j) = {}" by auto
  qed
  ultimately have "destroy_buckets ?h ?bs = Some (?h\<lparr>cells := cells ?h |` (- set (concat ?nss))\<rparr>)"
    by (rule destroy_buckets_chains)
  moreover have "cells ?h |` (- set (concat ?nss)) = Map.empty"
  proof
    fix a
    show "(cells ?h |` (- set (concat ?nss))) a = None"
      using engine_okD(4) [OF ok, of a]
      by (cases "cells ?h a") (auto simp: restrict_map_def linked_in_def)
  qed
  ultimately show thesis
    by (intro that [of "e\<lparr>heap := ?h\<lparr>cells := Map.empty\<rparr>, m_buckets := []\<rparr>"])
      (simp_all add: destroy_engine_def)
qed

section \<open>The engine is a key-value store\<close>

definition engine_put :: "platform \<Rightarrow> tid \<Rightarrow> string \<Rightarrow> string \<Rightarrow> engine \<Rightarrow> engine option" where
  "engine_put P t k v e = (case set_kv P t No_fault k v e of (Ret _, e') \<Rightarrow> Some e' | _ \<Rightarrow> None)"

interpretation eng: kv_store "engine_ok P" engine_map engine_items "engine_put P t" for P t
proof
  fix s :: engine and k v :: string assume ok: "engine_ok P s"
  then show "\<exists>s'. engine_put P t k v s = Some s' \<and> engine_ok P s' \<and> engine_map s' = (engine_map s)(k \<mapsto> v)"
    by (rule set_kv_ok [of P s t k v]) (simp add: engine_put_def)
  show "map_of (engine_items s) = engine_map s" by (simp add: engine_map_def)
  show "distinct (map fst (engine_items s))" using ok by (rule engine_items_distinct)
qed

end
