(* ===== verification/Engine_Threads.thy ===== *)
theory Engine_Threads
  imports Engine_Correct
begin

text \<open>
  The engine as many threads run it. A thread is a program counter in \<open>get\<close> or \<open>set\<close>, and a step
  of a thread is one access to shared memory (an atomic load, store, compare-exchange or
  fetch-add, or the read of a key, which never changes after construction) with the local
  computation behind it; any thread may take the next step. The atomics are taken to be
  sequentially consistent here: the code asks for less (\<open>memory_order_relaxed\<close>), see the header of
  the root theory.

  The invariant says that the buckets keep their shape, that every node a thread has made and not
  yet linked is private to it, that a traversing thread stands on a node of its bucket with no
  node of its key behind it, and that nothing leaks.
\<close>

section \<open>Threads\<close>

datatype pc =
    Idle
  | G_bucket string                  \<comment> \<open>load the head of the bucket\<close>
  | G_key string addr                \<comment> \<open>compare the key of the node\<close>
  | G_hit string addr                \<comment> \<open>count the successful read\<close>
  | G_value string addr              \<comment> \<open>load the value of the node\<close>
  | G_next string addr               \<comment> \<open>load the next pointer\<close>
  | G_failed string                  \<comment> \<open>count the failed read\<close>
  | G_return string "string option"
  | S_create string string           \<comment> \<open>make the private node\<close>
  | S_head string string addr        \<comment> \<open>compare-exchange on the bucket\<close>
  | S_key string string addr addr    \<comment> \<open>compare the key of the node\<close>
  | S_store string string addr addr  \<comment> \<open>store the value in the node\<close>
  | S_next string string addr addr   \<comment> \<open>compare-exchange on the next pointer\<close>
  | S_free string string addr        \<comment> \<open>free the private node\<close>
  | S_return string string
  | S_thrown string string

text \<open>One step of thread \<open>t\<close>; \<open>None\<close> is \<open>UB\<close>.\<close>

fun thread_step :: "platform \<Rightarrow> create_fault \<Rightarrow> tid \<Rightarrow> pc \<Rightarrow> engine \<Rightarrow> (pc \<times> engine) option" where
  "thread_step P f t Idle e = None"
| "thread_step P f t (G_bucket k) e =
     (case bucket_index P k (length (m_buckets e)) of
        None \<Rightarrow> None
      | Some i \<Rightarrow> Some (case m_buckets e ! i of None \<Rightarrow> G_failed k | Some a \<Rightarrow> G_key k a, e))"
| "thread_step P f t (G_key k a) e =
     (case deref (heap e) a of
        None \<Rightarrow> None
      | Some n \<Rightarrow> Some (if m_key n = k then G_hit k a else G_next k a, e))"
| "thread_step P f t (G_hit k a) e = Some (G_value k a, e\<lparr>m_successReads := m_successReads e + 1\<rparr>)"
| "thread_step P f t (G_value k a) e =
     (case deref (heap e) a of
        None \<Rightarrow> None
      | Some n \<Rightarrow> Some (G_return k (Some (get_value_const_ref n)), e))"
| "thread_step P f t (G_next k a) e =
     (case deref (heap e) a of
        None \<Rightarrow> None
      | Some n \<Rightarrow> Some (case m_next n of None \<Rightarrow> G_failed k | Some b \<Rightarrow> G_key k b, e))"
| "thread_step P f t (G_failed k) e = Some (G_return k None, e\<lparr>m_failedReads := m_failedReads e + 1\<rparr>)"
| "thread_step P f t (G_return k r) e = Some (Idle, e)"
| "thread_step P f t (S_create k v) e =
     (case create_node P t f k v e of
        (Ret new, e1) \<Rightarrow> Some (S_head k v new, e1)
      | (Throw x, e1) \<Rightarrow> Some (S_thrown k v, e1)
      | (UB, e1) \<Rightarrow> None)"
| "thread_step P f t (S_head k v new) e =
     (case bucket_index P k (length (m_buckets e)) of
        None \<Rightarrow> None
      | Some i \<Rightarrow>
          (case compare_exchange (m_buckets e ! i) None new of
             (True, _, head') \<Rightarrow> Some (S_return k v, e\<lparr>m_buckets := (m_buckets e)[i := head']\<rparr>)
           | (False, None, _) \<Rightarrow> None
           | (False, Some a, _) \<Rightarrow> Some (S_key k v new a, e)))"
| "thread_step P f t (S_key k v new a) e =
     (case deref (heap e) a of
        None \<Rightarrow> None
      | Some n \<Rightarrow> Some (if m_key n = k then S_store k v new a else S_next k v new a, e))"
| "thread_step P f t (S_store k v new a) e =
     (case (deref (heap e) a, deref (heap e) new) of
        (Some n, Some m) \<Rightarrow>
          Some (S_free k v new, e\<lparr>heap := poke (heap e) a (n\<lparr>m_ptrValue := m_ptrValue m\<rparr>)\<rparr>)
      | _ \<Rightarrow> None)"
| "thread_step P f t (S_next k v new a) e =
     (case deref (heap e) a of
        None \<Rightarrow> None
      | Some n \<Rightarrow>
          (case compare_exchange (m_next n) None new of
             (True, _, next') \<Rightarrow> Some (S_return k v, e\<lparr>heap := poke (heap e) a (n\<lparr>m_next := next'\<rparr>)\<rparr>)
           | (False, None, _) \<Rightarrow> None
           | (False, Some b, _) \<Rightarrow> Some (S_key k v new b, e)))"
| "thread_step P f t (S_free k v new) e =
     (case delete_self new (heap e) of
        None \<Rightarrow> None
      | Some h \<Rightarrow> Some (S_return k v, e\<lparr>heap := h\<rparr>))"
| "thread_step P f t (S_return k v) e = Some (Idle, e)"
| "thread_step P f t (S_thrown k v) e = Some (Idle, e)"

record conc =
  shared :: engine
  pcs :: "tid \<Rightarrow> pc"

definition conc_start :: "nat \<Rightarrow> conc" where
  "conc_start n = \<lparr>shared = new_engine n, pcs = (\<lambda>_. Idle)\<rparr>"

inductive conc_next :: "platform \<Rightarrow> conc \<Rightarrow> conc \<Rightarrow> bool" for P where
  call_get: "pcs s t = Idle \<Longrightarrow> conc_next P s (s\<lparr>pcs := (pcs s)(t := G_bucket k)\<rparr>)"
| call_set: "pcs s t = Idle \<Longrightarrow> conc_next P s (s\<lparr>pcs := (pcs s)(t := S_create k v)\<rparr>)"
| run: "thread_step P f t (pcs s t) (shared s) = Some (p', e') \<Longrightarrow>
     conc_next P s \<lparr>shared = e', pcs = (pcs s)(t := p')\<rparr>"

inductive_cases conc_nextE: "conc_next P s s'"

section \<open>The invariant\<close>

text \<open>The node a thread has made and that is not linked yet.\<close>

fun owned :: "pc \<Rightarrow> addr option" where
  "owned (S_head k v new) = Some new"
| "owned (S_key k v new a) = Some new"
| "owned (S_store k v new a) = Some new"
| "owned (S_next k v new a) = Some new"
| "owned (S_free k v new) = Some new"
| "owned _ = None"

text \<open>
  A thread that looks for key \<open>k\<close> stands on node \<open>a\<close>: the node is in the bucket of \<open>k\<close>, and no
  node before it has the key.
\<close>

definition standing :: "platform \<Rightarrow> engine \<Rightarrow> string \<Rightarrow> addr \<Rightarrow> bool" where
  "standing P e k a \<longleftrightarrow>
     (\<exists>i xs ys. bucket_index P k (length (m_buckets e)) = Some i \<and>
        path_of (heap e) (m_buckets e ! i) = xs @ a # ys \<and> (\<forall>b\<in>set xs. key_at (heap e) b \<noteq> k))"

definition unlinked :: "engine \<Rightarrow> string \<Rightarrow> string \<Rightarrow> addr \<Rightarrow> bool" where
  "unlinked e k v new \<longleftrightarrow> new \<notin> linked e \<and>
     (\<exists>m. deref (heap e) new = Some m \<and> m_key m = k \<and> m_ptrValue m = v \<and> m_next m = None)"

fun pc_ok :: "platform \<Rightarrow> engine \<Rightarrow> pc \<Rightarrow> bool" where
  "pc_ok P e (G_key k a) = standing P e k a"
| "pc_ok P e (G_hit k a) = (standing P e k a \<and> key_at (heap e) a = k)"
| "pc_ok P e (G_value k a) = (standing P e k a \<and> key_at (heap e) a = k)"
| "pc_ok P e (G_next k a) = (standing P e k a \<and> key_at (heap e) a \<noteq> k)"
| "pc_ok P e (S_head k v new) = unlinked e k v new"
| "pc_ok P e (S_key k v new a) = (unlinked e k v new \<and> standing P e k a)"
| "pc_ok P e (S_store k v new a) = (unlinked e k v new \<and> standing P e k a \<and> key_at (heap e) a = k)"
| "pc_ok P e (S_next k v new a) = (unlinked e k v new \<and> standing P e k a \<and> key_at (heap e) a \<noteq> k)"
| "pc_ok P e (S_free k v new) = unlinked e k v new"
| "pc_ok P e _ = True"

definition conc_inv :: "platform \<Rightarrow> conc \<Rightarrow> bool" where
  "conc_inv P s \<longleftrightarrow>
     buckets_ok P (m_buckets (shared s)) (heap (shared s)) \<and>
     store_wf (heap (shared s)) \<and>
     factory_ok (tid_hash P) (allocators (factory_of (shared s))) \<and>
     (\<forall>t. pc_ok P (shared s) (pcs s t)) \<and>
     (\<forall>t u a. owned (pcs s t) = Some a \<longrightarrow> owned (pcs s u) = Some a \<longrightarrow> t = u) \<and>
     (\<forall>a c. cells (heap (shared s)) a = Some c \<longrightarrow>
        a \<in> linked (shared s) \<or> (\<exists>t. owned (pcs s t) = Some a))"

section \<open>Growth\<close>

text \<open>
  The only thing that ever happens to a list is that nodes are appended, and the key of a linked
  node never changes.
\<close>

definition grows :: "engine \<Rightarrow> engine \<Rightarrow> bool" where
  "grows e e' \<longleftrightarrow>
     length (m_buckets e') = length (m_buckets e) \<and>
     (\<forall>i<length (m_buckets e). \<exists>zs.
        path_of (heap e') (m_buckets e' ! i) = path_of (heap e) (m_buckets e ! i) @ zs) \<and>
     (\<forall>b\<in>linked e. key_at (heap e') b = key_at (heap e) b)"

lemma grows_refl: "grows e e"
  by (simp add: grows_def)

lemma growsI_paths:
  assumes "length (m_buckets e') = length (m_buckets e)"
    and "map (path_of (heap e')) (m_buckets e') = (map (path_of (heap e)) (m_buckets e))[i := path_of (heap e) (m_buckets e ! i) @ zs]"
    and "\<And>b. b \<in> linked e \<Longrightarrow> key_at (heap e') b = key_at (heap e) b"
  shows "grows e e'"
proof -
  have "\<exists>zs. path_of (heap e') (m_buckets e' ! j) = path_of (heap e) (m_buckets e ! j) @ zs"
    if "j < length (m_buckets e)" for j
  proof -
    from assms(1,2) that have "path_of (heap e') (m_buckets e' ! j)
      = (map (path_of (heap e)) (m_buckets e))[i := path_of (heap e) (m_buckets e ! i) @ zs] ! j"
      by (metis length_map nth_map)
    with that show ?thesis by (cases "j = i") auto
  qed
  with assms show ?thesis by (simp add: grows_def)
qed

lemma growsI_same:
  assumes "length (m_buckets e') = length (m_buckets e)"
    and "map (path_of (heap e')) (m_buckets e') = map (path_of (heap e)) (m_buckets e)"
    and "\<And>b. b \<in> linked e \<Longrightarrow> key_at (heap e') b = key_at (heap e) b"
  shows "grows e e'"
proof -
  have "path_of (heap e') (m_buckets e' ! j) = path_of (heap e) (m_buckets e ! j)"
    if "j < length (m_buckets e)" for j
    using assms(1,2) that by (metis length_map nth_map)
  with assms show ?thesis by (simp add: grows_def)
qed

lemma standing_linked: "standing P e k a \<Longrightarrow> a \<in> linked e"
  by (auto simp: standing_def intro!: path_linked dest: bucket_index_less)

lemma standing_grows:
  assumes "grows e e'" "standing P e k a"
  shows "standing P e' k a"
proof -
  from assms(2) obtain i xs ys where i: "bucket_index P k (length (m_buckets e)) = Some i"
    and p: "path_of (heap e) (m_buckets e ! i) = xs @ a # ys" "\<forall>b\<in>set xs. key_at (heap e) b \<noteq> k"
    unfolding standing_def by blast
  have less: "i < length (m_buckets e)" using i by (rule bucket_index_less)
  from assms(1) less obtain zs where "path_of (heap e') (m_buckets e' ! i) = xs @ a # ys @ zs"
    unfolding grows_def by (metis append.assoc append_Cons p(1))
  moreover have "key_at (heap e') b = key_at (heap e) b" if "b \<in> set xs" for b
  proof -
    have "b \<in> linked e" using less that p(1) by (intro path_linked [of i]) auto
    with assms(1) show ?thesis by (simp add: grows_def)
  qed
  moreover have "length (m_buckets e') = length (m_buckets e)" using assms(1) by (simp add: grows_def)
  ultimately show ?thesis using i p(2) unfolding standing_def
    by (intro exI [of _ i] exI [of _ xs] exI [of _ "ys @ zs"]) simp
qed

lemma key_grows: "grows e e' \<Longrightarrow> standing P e k a \<Longrightarrow> key_at (heap e') a = key_at (heap e) a"
  by (auto simp: grows_def dest: standing_linked)

lemma pc_ok_grows:
  assumes "pc_ok P e p" "grows e e'"
    and "\<And>a. owned p = Some a \<Longrightarrow> deref (heap e') a = deref (heap e) a \<and> a \<notin> linked e'"
  shows "pc_ok P e' p"
  using assms by (cases p) (auto simp: unlinked_def key_grows intro: standing_grows)

text \<open>What one thread's step has to show for the invariant to survive.\<close>

lemma conc_invI:
  assumes inv: "conc_inv P s"
    and shape: "buckets_ok P (m_buckets e') (heap e')" "store_wf (heap e')"
      "factory_ok (tid_hash P) (allocators (factory_of e'))"
    and grow: "grows (shared s) e'"
    and me: "pc_ok P e' p'"
    and others: "\<And>u a. u \<noteq> t \<Longrightarrow> owned (pcs s u) = Some a \<Longrightarrow>
      deref (heap e') a = deref (heap (shared s)) a \<and> a \<notin> linked e' \<and> owned p' \<noteq> Some a"
    and leak: "\<And>a c. cells (heap e') a = Some c \<Longrightarrow>
      a \<in> linked e' \<or> owned p' = Some a \<or> (\<exists>u. u \<noteq> t \<and> owned (pcs s u) = Some a)"
  shows "conc_inv P \<lparr>shared = e', pcs = (pcs s)(t := p')\<rparr>"
proof -
  have pc: "pc_ok P e' (pcs s u)" if "u \<noteq> t" for u
  proof (rule pc_ok_grows [OF _ grow])
    show "pc_ok P (shared s) (pcs s u)" using inv by (simp add: conc_inv_def)
    show "deref (heap e') a = deref (heap (shared s)) a \<and> a \<notin> linked e'"
      if "owned (pcs s u) = Some a" for a
      using others [OF \<open>u \<noteq> t\<close> that] by blast
  qed
  have uniq: "u = w" if o: "owned (((pcs s)(t := p')) u) = Some a" "owned (((pcs s)(t := p')) w) = Some a" for u w a
  proof (rule ccontr)
    assume "u \<noteq> w"
    have old: "owned (pcs s x) = Some a" if "owned (((pcs s)(t := p')) x) = Some a" "x \<noteq> t" for x
      using that by simp
    have "u \<noteq> t" using o others [OF _ old [OF o(2)]] \<open>u \<noteq> w\<close> by auto
    moreover have "w \<noteq> t" using o others [OF _ old [OF o(1)]] \<open>u \<noteq> w\<close> by auto
    ultimately have "owned (pcs s u) = Some a" "owned (pcs s w) = Some a"
      using o by (simp_all add: old)
    with inv have "u = w" unfolding conc_inv_def by blast
    with \<open>u \<noteq> w\<close> show False by simp
  qed
  have lk: "a \<in> linked e' \<or> (\<exists>u. owned (((pcs s)(t := p')) u) = Some a)"
    if "cells (heap e') a = Some c" for a c
    using leak [OF that] by (metis fun_upd_apply)
  show ?thesis
    unfolding conc_inv_def conc.simps
  proof (intro conjI allI impI)
    show "pc_ok P e' (((pcs s)(t := p')) u)" for u
      using pc [of u] me by (cases "u = t") simp_all
  qed (fact shape uniq lk)+
qed

end
