(* ===== verification/Engine_Invariant.thy ===== *)
theory Engine_Invariant
  imports Engine_Threads
begin

text \<open>
  Every step of every thread keeps \<open>conc_inv\<close>, and no thread ever runs into \<open>UB\<close>. The steps that
  only read, or only count, are one lemma; the five steps that write (make a node, link it as the
  head, link it behind a node, store a value, free a node) are one lemma each.
\<close>

lemma conc_invD:
  assumes "conc_inv P s"
  shows "buckets_ok P (m_buckets (shared s)) (heap (shared s))"
    and "store_wf (heap (shared s))"
    and "factory_ok (tid_hash P) (allocators (factory_of (shared s)))"
    and "pc_ok P (shared s) (pcs s t)"
    and "owned (pcs s t) = Some a \<Longrightarrow> owned (pcs s u) = Some a \<Longrightarrow> t = u"
    and "cells (heap (shared s)) a = Some c \<Longrightarrow> a \<in> linked (shared s) \<or> (\<exists>t. owned (pcs s t) = Some a)"
  using assms unfolding conc_inv_def by blast+

lemma owned_facts:
  assumes "conc_inv P s" "owned (pcs s t) = Some a"
  shows "\<exists>k v. unlinked (shared s) k v a" "a \<notin> linked (shared s)"
proof -
  have "pc_ok P (shared s) (pcs s t)" using assms(1) by (rule conc_invD)
  with assms(2) show "\<exists>k v. unlinked (shared s) k v a" by (cases "pcs s t") auto
  then show "a \<notin> linked (shared s)" by (auto simp: unlinked_def)
qed

lemma owned_live:
  "conc_inv P s \<Longrightarrow> owned (pcs s t) = Some a \<Longrightarrow> \<exists>m. deref (heap (shared s)) a = Some m"
  by (drule (1) owned_facts) (auto simp: unlinked_def)

section \<open>Steps that write nothing but counters\<close>

lemma view_same:
  assumes "m_buckets e' = m_buckets e" "heap e' = heap e"
  shows "grows e e'" "pc_ok P e' p = pc_ok P e p" "linked e' = linked e" "standing P e' k a = standing P e k a"
    "engine_map e' = engine_map e"
  using assms
  by (auto intro: growsI_same simp: engine_map_def engine_items_def engine_buckets_def standing_def)
    (cases p; simp add: standing_def unlinked_def assms)+

lemma conc_inv_local:
  assumes inv: "conc_inv P s"
    and same: "m_buckets e' = m_buckets (shared s)" "heap e' = heap (shared s)"
      "factory_of e' = factory_of (shared s)"
    and me: "pc_ok P (shared s) p'" "owned p' = owned (pcs s t)"
  shows "conc_inv P \<lparr>shared = e', pcs = (pcs s)(t := p')\<rparr>"
proof (rule conc_invI [OF inv])
  note V = view_same [OF same(1,2)]
  note D = conc_invD [OF inv]
  show "buckets_ok P (m_buckets e') (heap e')" "store_wf (heap e')"
    "factory_ok (tid_hash P) (allocators (factory_of e'))" "grows (shared s) e'" "pc_ok P e' p'"
    using D same V me by simp_all
  show "deref (heap e') a = deref (heap (shared s)) a \<and> a \<notin> linked e' \<and> owned p' \<noteq> Some a"
    if "u \<noteq> t" "owned (pcs s u) = Some a" for u a
    using owned_facts(2) [OF inv that(2)] D(5) [OF that(2), of t] that(1) same me by auto
  show "a \<in> linked e' \<or> owned p' = Some a \<or> (\<exists>u. u \<noteq> t \<and> owned (pcs s u) = Some a)"
    if "cells (heap e') a = Some c" for a c
    using D(6) [of a c] that same me by auto
qed

section \<open>Where a thread stands\<close>

lemma standingE:
  assumes "buckets_ok P (m_buckets e) (heap e)" "standing P e k a"
  obtains i xs ys n where "bucket_index P k (length (m_buckets e)) = Some i" "i < length (m_buckets e)"
    "path_of (heap e) (m_buckets e ! i) = xs @ a # ys" "chain (heap e) (m_buckets e ! i) (xs @ a # ys)"
    "\<forall>b\<in>set xs. key_at (heap e) b \<noteq> k" "distinct (xs @ a # ys)"
    "distinct (map (key_at (heap e)) (xs @ a # ys))"
    "deref (heap e) a = Some n" "node_at (heap e) a = n" "chain (heap e) (m_next n) ys"
proof -
  from assms(2) obtain i xs ys where i: "bucket_index P k (length (m_buckets e)) = Some i"
    and p: "path_of (heap e) (m_buckets e ! i) = xs @ a # ys" "\<forall>b\<in>set xs. key_at (heap e) b \<noteq> k"
    unfolding standing_def by blast
  have less: "i < length (m_buckets e)" using i by (rule bucket_index_less)
  with assms(1) obtain ns where ns: "chain (heap e) (m_buckets e ! i) ns"
    "path_of (heap e) (m_buckets e ! i) = ns" "distinct (map (key_at (heap e)) ns)" "distinct ns"
    by (rule buckets_okE) blast
  then have [simp]: "ns = xs @ a # ys" using p(1) by simp
  have "deref (heap e) a = Some (node_at (heap e) a)" using ns(1) by (rule chain_deref) simp
  moreover have "chain (heap e) (m_next (node_at (heap e) a)) ys"
    using chain_suffix [of "heap e" _ xs a ys] ns(1) by simp
  ultimately show thesis using i less p ns by (intro that) auto
qed

lemma standing_head:
  assumes "buckets_ok P (m_buckets e) (heap e)" "bucket_index P k (length (m_buckets e)) = Some i"
    and "m_buckets e ! i = Some a"
  shows "standing P e k a"
proof -
  have "i < length (m_buckets e)" using assms(2) by (rule bucket_index_less)
  with assms(1) obtain ns where "chain (heap e) (m_buckets e ! i) ns"
    "path_of (heap e) (m_buckets e ! i) = ns"
    by (rule buckets_okE) blast
  moreover from this(1) assms(3) obtain zs where "ns = a # zs" by (cases ns) auto
  ultimately show ?thesis using assms(2) unfolding standing_def
    by (intro exI [of _ i] exI [of _ "[]"] exI [of _ zs]) simp
qed

lemma standing_next:
  assumes "buckets_ok P (m_buckets e) (heap e)" "standing P e k a" "key_at (heap e) a \<noteq> k"
    and "deref (heap e) a = Some n" "m_next n = Some b"
  shows "standing P e k b"
proof -
  obtain i xs ys n' where i: "bucket_index P k (length (m_buckets e)) = Some i"
    "path_of (heap e) (m_buckets e ! i) = xs @ a # ys" "\<forall>b\<in>set xs. key_at (heap e) b \<noteq> k"
    "deref (heap e) a = Some n'" "chain (heap e) (m_next n') ys"
    using assms(1,2) by (rule standingE) blast
  with assms(4,5) obtain zs where "ys = b # zs" by (cases ys) auto
  with i assms(3) show ?thesis unfolding standing_def
    by (intro exI [of _ i] exI [of _ "xs @ [a]"] exI [of _ zs]) auto
qed

text \<open>At the end of the bucket, the key is not in the map.\<close>

lemma engine_map_bucket_None:
  assumes "buckets_ok P (m_buckets e) (heap e)" "bucket_index P k (length (m_buckets e)) = Some i"
    and "m_buckets e ! i = None"
  shows "engine_map e k = None"
  using assms by (simp add: engine_map_bucket bucket_entries_def)

lemma engine_map_standing:
  assumes ok: "buckets_ok P (m_buckets e) (heap e)" and st: "standing P e k a"
    and n: "deref (heap e) a = Some n"
  shows "key_at (heap e) a = k \<Longrightarrow> engine_map e k = Some (m_ptrValue n)"
    and "key_at (heap e) a \<noteq> k \<Longrightarrow> m_next n = None \<Longrightarrow> engine_map e k = None"
proof -
  obtain i xs ys n' where i: "bucket_index P k (length (m_buckets e)) = Some i"
    "path_of (heap e) (m_buckets e ! i) = xs @ a # ys" "\<forall>b\<in>set xs. key_at (heap e) b \<noteq> k"
    "deref (heap e) a = Some n'" "node_at (heap e) a = n'" "chain (heap e) (m_next n') ys"
    using ok st by (rule standingE) blast
  have m: "engine_map e k = map_of (map (entry_at (heap e)) (xs @ a # ys)) k"
    using ok i(1,2) by (simp add: engine_map_bucket bucket_entries_def)
  have "map_of (map (entry_at (heap e)) xs) k = None"
    using i(3) by (force simp: map_of_eq_None_iff entry_at_def)
  with m have m': "engine_map e k = map_of (map (entry_at (heap e)) (a # ys)) k"
    by (simp add: map_add_def)
  show "key_at (heap e) a = k \<Longrightarrow> engine_map e k = Some (m_ptrValue n)"
    using m' n by (simp add: entry_at_def node_at_def)
  show "key_at (heap e) a \<noteq> k \<Longrightarrow> m_next n = None \<Longrightarrow> engine_map e k = None"
    using m' n i by (cases ys) (auto simp: entry_at_def node_at_def)
qed

section \<open>Steps that write\<close>

text \<open>All the addresses a state uses are below the next fresh one.\<close>

lemma below_top:
  assumes inv: "conc_inv P s" and a: "a \<in> linked (shared s) \<or> (\<exists>u. owned (pcs s u) = Some a)"
  shows "a < top (heap (shared s))"
proof -
  have "\<exists>m. deref (heap (shared s)) a = Some m"
    using a linked_live [OF conc_invD(1) [OF inv]] owned_live [OF inv] by blast
  then show ?thesis using conc_invD(2) [OF inv] by (auto dest: deref_below_top)
qed

lemma step_create:
  assumes inv: "conc_inv P s" and pc: "pcs s t = S_create k v"
    and step: "thread_step P f t (S_create k v) (shared s) = Some (p', e')"
  shows "conc_inv P \<lparr>shared = e', pcs = (pcs s)(t := p')\<rparr>"
    and "engine_map e' = engine_map (shared s)" "grows (shared s) e'"
    and "(\<exists>new. p' = S_head k v new) \<or> p' = S_thrown k v"
proof -
  let ?e = "shared s"
  note D = conc_invD [OF inv]
  have none: "owned (pcs s t) = None" using pc by simp
  have "conc_inv P \<lparr>shared = e', pcs = (pcs s)(t := p')\<rparr> \<and> engine_map e' = engine_map ?e \<and>
    grows ?e e' \<and> ((\<exists>new. p' = S_head k v new) \<or> p' = S_thrown k v)"
    using D(2,3)
  proof (cases rule: create_node_cases [of ?e P t f k v])
    case (ok e1)
    let ?new = "top (heap ?e)"
    from ok(1) step have p': "p' = S_head k v ?new" "e' = e1" by simp_all
    note C = created [OF D(1,2) ok(3)]
    have fresh: "a \<noteq> ?new" if "a \<in> linked ?e \<or> (\<exists>u. owned (pcs s u) = Some a)" for a
      using below_top [OF inv that] by auto
    have keys: "deref (heap e1) a = deref (heap ?e) a" if "a \<noteq> ?new" for a
      using that C(7) by (simp add: deref_def)
    have grow: "grows ?e e1"
      by (rule growsI_same) (use ok C fresh keys in \<open>auto simp: node_at_def\<close>)
    have "conc_inv P \<lparr>shared = e1, pcs = (pcs s)(t := S_head k v ?new)\<rparr>"
    proof (rule conc_invI [OF inv])
      show "pc_ok P e1 (S_head k v ?new)" using ok C(4,6) by (simp add: unlinked_def)
      show "deref (heap e1) a = deref (heap ?e) a \<and> a \<notin> linked e1 \<and> owned (S_head k v ?new) \<noteq> Some a"
        if "u \<noteq> t" "owned (pcs s u) = Some a" for u a
        using that fresh keys owned_facts(2) [OF inv that(2)] C(5) ok(4) by auto
      show "a \<in> linked e1 \<or> owned (S_head k v ?new) = Some a \<or> (\<exists>u. u \<noteq> t \<and> owned (pcs s u) = Some a)"
        if "cells (heap e1) a = Some c" for a c
      proof (cases "a = ?new")
        case False
        with that C(7) have "cells (heap ?e) a = Some c" by simp
        with D(6) have "a \<in> linked ?e \<or> (\<exists>u. owned (pcs s u) = Some a)" by blast
        then show ?thesis using C(5) ok(4) none by (metis option.distinct(1))
      qed simp
    qed (use ok C grow in simp_all)
    moreover have "engine_buckets e1 = engine_buckets ?e"
      using C(2) ok(4) unfolding engine_buckets_def by simp
    then have "engine_map e1 = engine_map ?e" by (simp add: engine_map_def engine_items_def)
    ultimately show ?thesis using p' grow by simp
  next
    case (fails e1)
    from fails(1) step have p': "p' = S_thrown k v" "e' = e1" by simp_all
    note S = same_cells [OF fails(3)]
    have grow: "grows ?e e1"
      by (rule growsI_same) (use fails S in \<open>auto simp: node_at_def\<close>)
    have "conc_inv P \<lparr>shared = e1, pcs = (pcs s)(t := S_thrown k v)\<rparr>"
    proof (rule conc_invI [OF inv])
      show "store_wf (heap e1)" using fails(3,4) D(2) by (auto simp: store_wf_def)
      show "deref (heap e1) a = deref (heap ?e) a \<and> a \<notin> linked e1 \<and> owned (S_thrown k v) \<noteq> Some a"
        if "u \<noteq> t" "owned (pcs s u) = Some a" for u a
        using owned_facts(2) [OF inv that(2)] fails(5) S by simp
      show "a \<in> linked e1 \<or> owned (S_thrown k v) = Some a \<or> (\<exists>u. u \<noteq> t \<and> owned (pcs s u) = Some a)"
        if "cells (heap e1) a = Some c" for a c
      proof -
        from that have "cells (heap ?e) a = Some c" by (simp add: fails(3))
        with D(6) have "a \<in> linked ?e \<or> (\<exists>u. owned (pcs s u) = Some a)" by blast
        then show ?thesis using fails(5) S(6) none by (metis option.distinct(1))
      qed
    qed (use fails S D grow in simp_all)
    moreover have "engine_map e1 = engine_map ?e"
      using fails(5) S(4) by (simp add: engine_map_def engine_items_def engine_buckets_def cong: map_cong)
    ultimately show ?thesis using p' grow by simp
  qed
  then show "conc_inv P \<lparr>shared = e', pcs = (pcs s)(t := p')\<rparr>" "engine_map e' = engine_map ?e"
    "grows ?e e'" "(\<exists>new. p' = S_head k v new) \<or> p' = S_thrown k v" by auto
qed

text \<open>A write that links the thread's own node: it leaves the thread's hands and joins a list.\<close>

lemma conc_inv_link:
  assumes inv: "conc_inv P s" and mine: "owned (pcs s t) = Some new"
    and shape: "buckets_ok P (m_buckets e') (heap e')" "store_wf (heap e')"
    and fact: "factory_of e' = factory_of (shared s)"
    and cell: "\<And>a c. cells (heap e') a = Some c \<Longrightarrow> \<exists>c. cells (heap (shared s)) a = Some c"
    and grow: "grows (shared s) e'" and lk: "linked e' = insert new (linked (shared s))"
    and p': "owned p' = None" "pc_ok P e' p'"
    and keep: "\<And>a. a \<notin> linked (shared s) \<Longrightarrow> deref (heap e') a = deref (heap (shared s)) a"
  shows "conc_inv P \<lparr>shared = e', pcs = (pcs s)(t := p')\<rparr>"
proof (rule conc_invI [OF inv])
  note D = conc_invD [OF inv]
  show "deref (heap e') a = deref (heap (shared s)) a \<and> a \<notin> linked e' \<and> owned p' \<noteq> Some a"
    if "u \<noteq> t" "owned (pcs s u) = Some a" for u a
    using that owned_facts(2) [OF inv that(2)] D(5) [OF that(2), of t] mine lk p' keep by auto
  show "a \<in> linked e' \<or> owned p' = Some a \<or> (\<exists>u. u \<noteq> t \<and> owned (pcs s u) = Some a)"
    if "cells (heap e') a = Some c" for a c
  proof -
    from cell [OF that] D(6) have "a \<in> linked (shared s) \<or> (\<exists>u. owned (pcs s u) = Some a)" by blast
    then show ?thesis using lk mine by (metis insertCI option.inject)
  qed
qed (use shape fact grow p' conc_invD(3) [OF inv] in simp_all)

text \<open>The compare-exchange on the head of the bucket.\<close>

lemma step_head:
  assumes inv: "conc_inv P s" and pc: "pcs s t = S_head k v new"
    and step: "thread_step P f t (S_head k v new) (shared s) = Some (p', e')"
  shows "conc_inv P \<lparr>shared = e', pcs = (pcs s)(t := p')\<rparr>" "grows (shared s) e'"
    and "p' = S_return k v \<and> engine_map e' = (engine_map (shared s))(k \<mapsto> v) \<or>
         (\<exists>a. p' = S_key k v new a) \<and> e' = shared s"
proof -
  let ?e = "shared s"
  note D = conc_invD [OF inv]
  have un: "unlinked ?e k v new" using D(4) [of t] pc by simp
  then obtain m where m: "deref (heap ?e) new = Some m" "m_key m = k" "m_ptrValue m = v"
    "m_next m = None" and out: "new \<notin> linked ?e" by (auto simp: unlinked_def)
  obtain i where i: "bucket_index P k (length (m_buckets ?e)) = Some i"
    using step by (auto split: option.splits)
  have less: "i < length (m_buckets ?e)" using i by (rule bucket_index_less)
  have "conc_inv P \<lparr>shared = e', pcs = (pcs s)(t := p')\<rparr> \<and> grows ?e e' \<and>
    (p' = S_return k v \<and> engine_map e' = (engine_map ?e)(k \<mapsto> v) \<or>
     (\<exists>a. p' = S_key k v new a) \<and> e' = ?e)"
  proof (cases "m_buckets ?e ! i")
    case None
    let ?e' = "?e\<lparr>m_buckets := (m_buckets ?e)[i := Some new]\<rparr>"
    from None i step have p': "p' = S_return k v" "e' = ?e'" by (simp_all add: compare_exchange_def)
    note L = link_head [OF D(1), of m i new, unfolded m(2,3), OF i None m(1,4)]
    have grow: "grows ?e ?e'"
      by (rule growsI_paths [of _ _ i "[new]"]) (use L(3) None in simp_all)
    have lk: "linked ?e' = insert new (linked ?e)"
      using linked_update [OF L(3) less] None by simp
    have "conc_inv P \<lparr>shared = ?e', pcs = (pcs s)(t := S_return k v)\<rparr>"
      by (rule conc_inv_link [OF inv, of t new]) (use pc L(1) D(2) lk grow in simp_all)
    moreover have "engine_map ?e' = (engine_map ?e)(k \<mapsto> v)"
      by (rule engine_map_update [of P ?e ?e' k i v])
        (use D(1) L(1,2) i less in \<open>simp_all add: engine_buckets_def\<close>)
    ultimately show ?thesis using p' grow by simp
  next
    case (Some a)
    with i step have p': "p' = S_key k v new a" "e' = ?e" by (simp_all add: compare_exchange_def)
    have "conc_inv P \<lparr>shared = ?e, pcs = (pcs s)(t := S_key k v new a)\<rparr>"
      by (rule conc_inv_local [OF inv]) (use un pc standing_head [OF D(1) i Some] in simp_all)
    with p' show ?thesis by (simp add: grows_refl)
  qed
  then show "conc_inv P \<lparr>shared = e', pcs = (pcs s)(t := p')\<rparr>" "grows ?e e'"
    "p' = S_return k v \<and> engine_map e' = (engine_map ?e)(k \<mapsto> v) \<or>
     (\<exists>a. p' = S_key k v new a) \<and> e' = ?e" by auto
qed

text \<open>The compare-exchange on the next pointer of the node the thread stands on.\<close>

lemma step_next:
  assumes inv: "conc_inv P s" and pc: "pcs s t = S_next k v new a"
    and step: "thread_step P f t (S_next k v new a) (shared s) = Some (p', e')"
  shows "conc_inv P \<lparr>shared = e', pcs = (pcs s)(t := p')\<rparr>" "grows (shared s) e'"
    and "p' = S_return k v \<and> engine_map e' = (engine_map (shared s))(k \<mapsto> v) \<or>
         (\<exists>b. p' = S_key k v new b) \<and> e' = shared s"
proof -
  let ?e = "shared s"
  note D = conc_invD [OF inv]
  have un: "unlinked ?e k v new" and st: "standing P ?e k a" and ne: "key_at (heap ?e) a \<noteq> k"
    using D(4) [of t] pc by simp_all
  from un obtain m where m: "deref (heap ?e) new = Some m" "m_key m = k" "m_ptrValue m = v"
    "m_next m = None" and out: "new \<notin> linked ?e" by (auto simp: unlinked_def)
  obtain i xs ys n where i: "bucket_index P k (length (m_buckets ?e)) = Some i"
    and less: "i < length (m_buckets ?e)"
    and p: "path_of (heap ?e) (m_buckets ?e ! i) = xs @ a # ys" "\<forall>b\<in>set xs. key_at (heap ?e) b \<noteq> k"
    and n: "deref (heap ?e) a = Some n" "chain (heap ?e) (m_next n) ys"
    using D(1) st by (rule standingE) blast
  have "conc_inv P \<lparr>shared = e', pcs = (pcs s)(t := p')\<rparr> \<and> grows ?e e' \<and>
    (p' = S_return k v \<and> engine_map e' = (engine_map ?e)(k \<mapsto> v) \<or>
     (\<exists>b. p' = S_key k v new b) \<and> e' = ?e)"
  proof (cases "m_next n")
    case None
    let ?h = "poke (heap ?e) a (n\<lparr>m_next := Some new\<rparr>)"
    let ?e' = "?e\<lparr>heap := ?h\<rparr>"
    from None n(1) step have p': "p' = S_return k v" "e' = ?e'" by (simp_all add: compare_exchange_def)
    from None n(2) have ys: "ys = []" by (cases ys) auto
    have a: "a \<in> linked ?e" using st by (rule standing_linked)
    have notin: "new \<notin> set (path_of (heap ?e) (m_buckets ?e ! j))" if "j < length (m_buckets ?e)" for j
      using out path_linked [OF that] by blast
    have keys: "m_key m \<notin> key_at (heap ?e) ` set (xs @ [a])" using p(2) ne m(2) by auto
    have new: "new \<notin> set xs \<and> new \<noteq> a" using notin [OF less] p(1) by auto
    have L': "buckets_ok P (m_buckets ?e) ?h"
      "map (bucket_entries ?h) (m_buckets ?e) = (map (bucket_entries (heap ?e)) (m_buckets ?e))
         [i := AList.update k v (bucket_entries (heap ?e) (m_buckets ?e ! i))]"
      "map (path_of ?h) (m_buckets ?e) = (map (path_of (heap ?e)) (m_buckets ?e))[i := (xs @ [a]) @ [new]]"
      using link_next [OF D(1), of m i "xs @ [a]" a n new] i m n(1) p(1) ys new keys notin by simp_all
    have grow: "grows ?e ?e'"
      by (rule growsI_paths [of _ _ i "[new]"]) (use L'(3) p(1) ys n(1) in \<open>simp_all add: keys_set_next\<close>)
    have lk: "linked ?e' = insert new (linked ?e)"
    proof -
      have "linked ?e' = linked ?e \<union> set ((xs @ [a]) @ [new])"
        using linked_update [OF L'(3) less] p(1) ys by auto
      moreover have "set (xs @ [a]) \<subseteq> linked ?e" using path_linked [OF less] p(1) by auto
      ultimately show ?thesis by auto
    qed
    have "conc_inv P \<lparr>shared = ?e', pcs = (pcs s)(t := S_return k v)\<rparr>"
    proof (rule conc_inv_link [OF inv, of t new])
      show "store_wf (heap ?e')"
        using D(2) n(1) by (simp add: store_wf_poke deref_below_top)
      show "\<exists>c. cells (heap ?e) b = Some c" if "cells (heap ?e') b = Some c" for b c
        using that n(1) by (auto simp: cells_poke deref_def split: if_splits option.splits)
    qed (use pc L'(1) lk grow a in auto)
    moreover have "engine_map ?e' = (engine_map ?e)(k \<mapsto> v)"
      by (rule engine_map_update [of P ?e ?e' k i v])
        (use D(1) L'(1,2) i less in \<open>simp_all add: engine_buckets_def\<close>)
    ultimately show ?thesis using p' grow by simp
  next
    case (Some b)
    with n(1) step have p': "p' = S_key k v new b" "e' = ?e" by (simp_all add: compare_exchange_def)
    have "conc_inv P \<lparr>shared = ?e, pcs = (pcs s)(t := S_key k v new b)\<rparr>"
      by (rule conc_inv_local [OF inv]) (use un pc standing_next [OF D(1) st ne n(1) Some] in simp_all)
    with p' show ?thesis by (simp add: grows_refl)
  qed
  then show "conc_inv P \<lparr>shared = e', pcs = (pcs s)(t := p')\<rparr>" "grows ?e e'"
    "p' = S_return k v \<and> engine_map e' = (engine_map ?e)(k \<mapsto> v) \<or>
     (\<exists>b. p' = S_key k v new b) \<and> e' = ?e" by auto
qed

text \<open>The store of the value in the node that has the key.\<close>

lemma step_store:
  assumes inv: "conc_inv P s" and pc: "pcs s t = S_store k v new a"
    and step: "thread_step P f t (S_store k v new a) (shared s) = Some (p', e')"
  shows "conc_inv P \<lparr>shared = e', pcs = (pcs s)(t := p')\<rparr>" "grows (shared s) e'"
    and "p' = S_free k v new" "engine_map e' = (engine_map (shared s))(k \<mapsto> v)"
proof -
  let ?e = "shared s"
  note D = conc_invD [OF inv]
  have un: "unlinked ?e k v new" and st: "standing P ?e k a" and key: "key_at (heap ?e) a = k"
    using D(4) [of t] pc by simp_all
  from un obtain m where m: "deref (heap ?e) new = Some m" "m_key m = k" "m_ptrValue m = v"
    "m_next m = None" and out: "new \<notin> linked ?e" by (auto simp: unlinked_def)
  obtain i xs ys n where i: "bucket_index P k (length (m_buckets ?e)) = Some i"
    and less: "i < length (m_buckets ?e)"
    and p: "path_of (heap ?e) (m_buckets ?e ! i) = xs @ a # ys"
    and n: "deref (heap ?e) a = Some n" "node_at (heap ?e) a = n"
    using D(1) st by (rule standingE) blast
  have a: "a \<in> linked ?e" using st by (rule standing_linked)
  have mk: "m_key n = k" using key n(2) by simp
  let ?h = "poke (heap ?e) a (n\<lparr>m_ptrValue := v\<rparr>)"
  let ?e' = "?e\<lparr>heap := ?h\<rparr>"
  from step n m have p': "p' = S_free k v new" "e' = ?e'" by simp_all
  note L = store_value [OF D(1) less _ n(1), of v, unfolded p mk, simplified]
  have grow: "grows ?e ?e'"
    by (rule growsI_same) (use L(3) n(1) in \<open>simp_all add: keys_store_value\<close>)
  have lk: "linked ?e' = linked ?e" using L(3) by (simp add: linked_in_def)
  have inv': "conc_inv P \<lparr>shared = ?e', pcs = (pcs s)(t := S_free k v new)\<rparr>"
  proof (rule conc_invI [OF inv])
    show "store_wf (heap ?e')" using D(2) n(1) by (simp add: store_wf_poke deref_below_top)
    show "pc_ok P ?e' (S_free k v new)" using un a lk by (auto simp: unlinked_def)
    show "deref (heap ?e') b = deref (heap ?e) b \<and> b \<notin> linked ?e' \<and> owned (S_free k v new) \<noteq> Some b"
      if "u \<noteq> t" "owned (pcs s u) = Some b" for u b
      using that owned_facts(2) [OF inv that(2)] a lk D(5) [OF that(2), of t] pc by auto
    show "b \<in> linked ?e' \<or> owned (S_free k v new) = Some b \<or> (\<exists>u. u \<noteq> t \<and> owned (pcs s u) = Some b)"
      if "cells (heap ?e') b = Some c" for b c
    proof -
      from that n(1) have "\<exists>c. cells (heap ?e) b = Some c"
        by (auto simp: cells_poke deref_def split: if_splits option.splits)
      with D(6) have "b \<in> linked ?e \<or> (\<exists>u. owned (pcs s u) = Some b)" by blast
      then show ?thesis using lk pc by (metis owned.simps(3,5))
    qed
  qed (use D L grow in simp_all)
  have "engine_map ?e' = (engine_map ?e)(k \<mapsto> v)"
    by (rule engine_map_update [of P ?e ?e' k i v])
      (use D(1) L(1,2) i less in \<open>simp_all add: engine_buckets_def\<close>)
  with p' inv' grow show "conc_inv P \<lparr>shared = e', pcs = (pcs s)(t := p')\<rparr>" "grows ?e e'"
    "p' = S_free k v new" "engine_map e' = (engine_map ?e)(k \<mapsto> v)" by simp_all
qed

text \<open>The node that was not needed is freed.\<close>

lemma step_free:
  assumes inv: "conc_inv P s" and pc: "pcs s t = S_free k v new"
    and step: "thread_step P f t (S_free k v new) (shared s) = Some (p', e')"
  shows "conc_inv P \<lparr>shared = e', pcs = (pcs s)(t := p')\<rparr>" "grows (shared s) e'"
    and "p' = S_return k v" "engine_map e' = engine_map (shared s)"
proof -
  let ?e = "shared s"
  note D = conc_invD [OF inv]
  have un: "unlinked ?e k v new" using D(4) [of t] pc by simp
  then obtain m where m: "deref (heap ?e) new = Some m" and out: "new \<notin> linked ?e"
    by (auto simp: unlinked_def)
  let ?h = "(heap ?e)\<lparr>cells := (cells (heap ?e))(new := None)\<rparr>"
  let ?e' = "?e\<lparr>heap := ?h\<rparr>"
  from step m have p': "p' = S_return k v" "e' = ?e'" by (simp_all add: delete_self_live)
  have same: "deref ?h b = deref (heap ?e) b" if "b \<in> linked ?e" for b
    using that out by (auto simp: deref_delete)
  note F = buckets_frame [OF D(1), of ?h]
  have fr: "\<forall>j<length (m_buckets ?e). \<forall>a\<in>set (path_of (heap ?e) (m_buckets ?e ! j)). deref ?h a = deref (heap ?e) a"
    by (auto intro!: same path_linked)
  note F = F [OF fr]
  have grow: "grows ?e ?e'"
    by (rule growsI_same) (use F(3) same in \<open>simp_all add: node_at_def\<close>)
  have lk: "linked ?e' = linked ?e" using F(3) by (simp add: linked_in_def)
  have inv': "conc_inv P \<lparr>shared = ?e', pcs = (pcs s)(t := S_return k v)\<rparr>"
  proof (rule conc_invI [OF inv])
    show "store_wf (heap ?e')" using D(2) by (simp add: store_wf_def)
    show "deref (heap ?e') b = deref (heap ?e) b \<and> b \<notin> linked ?e' \<and> owned (S_return k v) \<noteq> Some b"
      if "u \<noteq> t" "owned (pcs s u) = Some b" for u b
      using that owned_facts(2) [OF inv that(2)] lk D(5) [OF that(2), of t] pc by (auto simp: deref_delete)
    show "b \<in> linked ?e' \<or> owned (S_return k v) = Some b \<or> (\<exists>u. u \<noteq> t \<and> owned (pcs s u) = Some b)"
      if "cells (heap ?e') b = Some c" for b c
    proof -
      from that have "cells (heap ?e) b = Some c" "b \<noteq> new" by (auto split: if_splits)
      with D(6) have "b \<in> linked ?e \<or> (\<exists>u. owned (pcs s u) = Some b)" by blast
      then show ?thesis using lk pc \<open>b \<noteq> new\<close> by (metis option.inject owned.simps(5))
    qed
  qed (use D F grow in simp_all)
  have "engine_map ?e' = engine_map ?e"
    using F(2) by (simp add: engine_map_def engine_items_def engine_buckets_def cong: map_cong)
  with p' inv' grow show "conc_inv P \<lparr>shared = e', pcs = (pcs s)(t := p')\<rparr>" "grows ?e e'"
    "p' = S_return k v" "engine_map e' = engine_map ?e" by simp_all
qed

end
