(* ===== verification/Engine_Linear.thy ===== *)
theory Engine_Linear
  imports Engine_Invariant
begin

text \<open>
  The concurrent engine against its specification: a map on which \<open>get\<close> and \<open>set\<close> are atomic.
  The specification lets each call take effect in one step between its start and its return; the
  engine is shown to be a forward simulation of it (linearizability). The second half gives every
  pending call a rank that its own steps decrease, so that without new calls every schedule
  finishes (lock-freedom), and the counters' sum is the number of reads.
\<close>

section \<open>The specification\<close>

datatype call_status =
    A_idle
  | A_get string
  | A_got string "string option"
  | A_set string string
  | A_done string string
  | A_failed string string

record aconc =
  amap :: "string \<rightharpoonup> string"
  status :: "tid \<Rightarrow> call_status"

inductive spec_next :: "aconc \<Rightarrow> aconc \<Rightarrow> bool" where
  spec_call_get: "status s t = A_idle \<Longrightarrow> spec_next s (s\<lparr>status := (status s)(t := A_get k)\<rparr>)"
| spec_call_set: "status s t = A_idle \<Longrightarrow> spec_next s (s\<lparr>status := (status s)(t := A_set k v)\<rparr>)"
| spec_get: "status s t = A_get k \<Longrightarrow> spec_next s (s\<lparr>status := (status s)(t := A_got k (amap s k))\<rparr>)"
| spec_set: "status s t = A_set k v \<Longrightarrow>
     spec_next s \<lparr>amap = (amap s)(k \<mapsto> v), status = (status s)(t := A_done k v)\<rparr>"
| spec_fail: "status s t = A_set k v \<Longrightarrow> spec_next s (s\<lparr>status := (status s)(t := A_failed k v)\<rparr>)"
| spec_return: "status s t \<in> {A_got k r, A_done k v, A_failed k v} \<Longrightarrow>
     spec_next s (s\<lparr>status := (status s)(t := A_idle)\<rparr>)"

definition spec_init :: "aconc \<Rightarrow> bool" where
  "spec_init s \<longleftrightarrow> amap s = Map.empty \<and> (\<forall>t. status s t = A_idle)"

text \<open>
  A missed \<open>get\<close> has taken effect when it saw the null pointer, before it counts; a \<open>set\<close> that
  stored its value has taken effect before it frees its node.
\<close>

fun abs_pc :: "pc \<Rightarrow> call_status" where
  "abs_pc Idle = A_idle"
| "abs_pc (G_bucket k) = A_get k"
| "abs_pc (G_key k a) = A_get k"
| "abs_pc (G_hit k a) = A_get k"
| "abs_pc (G_value k a) = A_get k"
| "abs_pc (G_next k a) = A_get k"
| "abs_pc (G_failed k) = A_got k None"
| "abs_pc (G_return k r) = A_got k r"
| "abs_pc (S_create k v) = A_set k v"
| "abs_pc (S_head k v new) = A_set k v"
| "abs_pc (S_key k v new a) = A_set k v"
| "abs_pc (S_store k v new a) = A_set k v"
| "abs_pc (S_next k v new a) = A_set k v"
| "abs_pc (S_free k v new) = A_done k v"
| "abs_pc (S_return k v) = A_done k v"
| "abs_pc (S_thrown k v) = A_failed k v"

definition abs_conc :: "conc \<Rightarrow> aconc" where
  "abs_conc s = \<lparr>amap = engine_map (shared s), status = (\<lambda>t. abs_pc (pcs s t))\<rparr>"

section \<open>The steps of a call\<close>

text \<open>No step of a pending call is \<open>UB\<close>.\<close>

lemma thread_step_defined:
  assumes inv: "conc_inv P s" and busy: "pcs s t \<noteq> Idle"
  shows "thread_step P f t (pcs s t) (shared s) \<noteq> None"
proof -
  let ?e = "shared s"
  note D = conc_invD [OF inv]
  have pc: "pc_ok P ?e (pcs s t)" by (rule D)
  have live: "\<exists>n. deref (heap ?e) a = Some n" if "standing P ?e k a" for k a
    using that D(1) by (blast intro: linked_live standing_linked)
  have i: "\<exists>i. bucket_index P k (length (m_buckets ?e)) = Some i" for k
    using D(1) by (auto simp: buckets_ok_def bucket_index_def)
  show ?thesis
  proof (cases "pcs s t")
    case (G_bucket k)
    then show ?thesis using i [of k] by auto
  next
    case (G_key k a)
    then show ?thesis using pc live [of k a] by auto
  next
    case (G_value k a)
    then show ?thesis using pc live [of k a] by auto
  next
    case (G_next k a)
    then show ?thesis using pc live [of k a] by auto
  next
    case (S_create k v)
    show ?thesis
      using D(2,3) by (cases rule: create_node_cases [of ?e P t f k v]) (simp_all add: S_create)
  next
    case (S_head k v new)
    then show ?thesis using i [of k]
      by (auto simp: compare_exchange_def split: option.splits)
  next
    case (S_key k v new a)
    then show ?thesis using pc live [of k a] by auto
  next
    case (S_store k v new a)
    then show ?thesis using pc live [of k a] by (auto simp: unlinked_def)
  next
    case (S_next k v new a)
    then show ?thesis using pc live [of k a]
      by (auto simp: compare_exchange_def split: option.splits)
  next
    case (S_free k v new)
    then show ?thesis using pc by (auto simp: unlinked_def delete_self_live)
  qed (use busy in auto)
qed

text \<open>What one step of a call does to the invariant, the lists and the map.\<close>

inductive effect :: "(string \<rightharpoonup> string) \<Rightarrow> pc \<Rightarrow> pc \<Rightarrow> (string \<rightharpoonup> string) \<Rightarrow> bool" for m where
  silent: "abs_pc p' = abs_pc p \<Longrightarrow> effect m p p' m"
| reads: "abs_pc p = A_get k \<Longrightarrow> abs_pc p' = A_got k (m k) \<Longrightarrow> effect m p p' m"
| writes: "abs_pc p = A_set k v \<Longrightarrow> abs_pc p' = A_done k v \<Longrightarrow> effect m p p' (m(k \<mapsto> v))"
| fails: "abs_pc p = A_set k v \<Longrightarrow> abs_pc p' = A_failed k v \<Longrightarrow> effect m p p' m"
| returns: "abs_pc p \<in> {A_got k r, A_done k v, A_failed k v} \<Longrightarrow> abs_pc p' = A_idle \<Longrightarrow> effect m p p' m"

lemma step_effect:
  assumes inv: "conc_inv P s" and step: "thread_step P f t (pcs s t) (shared s) = Some (p', e')"
  shows "conc_inv P \<lparr>shared = e', pcs = (pcs s)(t := p')\<rparr> \<and> grows (shared s) e' \<and>
    effect (engine_map (shared s)) (pcs s t) p' (engine_map e')"
proof -
  let ?e = "shared s"
  note D = conc_invD [OF inv]
  have pc: "pc_ok P ?e (pcs s t)" by (rule D)
  have local: "?thesis"
    if "m_buckets e' = m_buckets ?e" "heap e' = heap ?e" "factory_of e' = factory_of ?e"
      "pc_ok P ?e p'" "owned p' = owned (pcs s t)" "effect (engine_map ?e) (pcs s t) p' (engine_map ?e)"
  proof -
    note V = view_same [OF that(1,2)]
    have "conc_inv P \<lparr>shared = e', pcs = (pcs s)(t := p')\<rparr>"
      using that by (intro conc_inv_local [OF inv])
    with V that(6) show ?thesis by simp
  qed
  have at: "\<exists>n. deref (heap ?e) a = Some n \<and> key_at (heap ?e) a = m_key n \<and>
      (m_key n = k \<longrightarrow> engine_map ?e k = Some (m_ptrValue n)) \<and>
      (m_key n \<noteq> k \<longrightarrow> m_next n = None \<longrightarrow> engine_map ?e k = None) \<and>
      (\<forall>b. m_key n \<noteq> k \<longrightarrow> m_next n = Some b \<longrightarrow> standing P ?e k b)"
    if st: "standing P ?e k a" for k a
  proof -
    obtain n where n: "deref (heap ?e) a = Some n"
      using linked_live [OF D(1) standing_linked [OF st]] by blast
    then have "key_at (heap ?e) a = m_key n" by (simp add: node_at_def)
    with n engine_map_standing [OF D(1) st n] standing_next [OF D(1) st _ n] show ?thesis by auto
  qed
  show ?thesis
  proof (cases "pcs s t")
    case Idle
    with step show ?thesis by simp
  next
    case (G_bucket k)
    obtain i where i: "bucket_index P k (length (m_buckets ?e)) = Some i"
      using D(1) by (auto simp: buckets_ok_def bucket_index_def)
    show ?thesis
    proof (cases "m_buckets ?e ! i")
      case None
      with step G_bucket i engine_map_bucket_None [OF D(1) i None] show ?thesis
        by (intro local) (auto intro!: effect.reads [of _ k])
    next
      case (Some a)
      with step G_bucket i standing_head [OF D(1) i Some] show ?thesis
        by (intro local) (auto intro!: effect.silent)
    qed
  next
    case (G_key k a)
    with pc at [of k a] step show ?thesis
      by (intro local) (auto intro!: effect.silent)
  next
    case (G_hit k a)
    with pc step show ?thesis by (intro local) (auto intro!: effect.silent)
  next
    case (G_value k a)
    with pc have st: "standing P ?e k a" and key: "key_at (heap ?e) a = k" by simp_all
    from at [OF st] obtain n where n: "deref (heap ?e) a = Some n" "key_at (heap ?e) a = m_key n"
      "m_key n = k \<longrightarrow> engine_map ?e k = Some (m_ptrValue n)" by blast
    with step G_value have p': "p' = G_return k (engine_map ?e k)" "e' = ?e"
      using key by (simp_all add: get_value_const_ref_def)
    with G_value show ?thesis by (intro local) (simp_all add: effect.reads [of _ k])
  next
    case (G_next k a)
    with pc have st: "standing P ?e k a" and key: "key_at (heap ?e) a \<noteq> k" by simp_all
    from at [OF st] obtain n where n: "deref (heap ?e) a = Some n" "key_at (heap ?e) a = m_key n"
      "m_key n \<noteq> k \<longrightarrow> m_next n = None \<longrightarrow> engine_map ?e k = None"
      "\<forall>b. m_key n \<noteq> k \<longrightarrow> m_next n = Some b \<longrightarrow> standing P ?e k b" by (elim exE conjE)
    have ne: "m_key n \<noteq> k" using n(2) key by simp
    show ?thesis
    proof (cases "m_next n")
      case None
      with step G_next n(1) have p': "p' = G_failed k" "e' = ?e" by simp_all
      have "engine_map ?e k = None" using n(3) ne None by blast
      with p' G_next show ?thesis by (intro local) (simp_all add: effect.reads [of _ k])
    next
      case (Some b)
      with step G_next n(1) have p': "p' = G_key k b" "e' = ?e" by simp_all
      have "standing P ?e k b" using n(4) ne Some by blast
      with p' G_next show ?thesis by (intro local) (simp_all add: effect.silent)
    qed
  next
    case (G_failed k)
    with step show ?thesis by (intro local) (auto intro!: effect.silent)
  next
    case (G_return k r)
    with step show ?thesis by (intro local) (auto intro!: effect.returns [of _ k r])
  next
    case (S_create k v)
    then show ?thesis using step_create [OF inv S_create step [unfolded S_create]]
      by (auto simp: effect.silent effect.fails)
  next
    case (S_head k v new)
    then show ?thesis using step_head [OF inv S_head step [unfolded S_head]]
      by (auto simp: effect.silent effect.writes)
  next
    case (S_key k v new a)
    with pc at [of k a] step show ?thesis
      by (intro local) (auto intro!: effect.silent)
  next
    case (S_store k v new a)
    then show ?thesis using step_store [OF inv S_store step [unfolded S_store]]
      by (auto simp: effect.writes)
  next
    case (S_next k v new a)
    then show ?thesis using step_next [OF inv S_next step [unfolded S_next]]
      by (auto simp: effect.silent effect.writes)
  next
    case (S_free k v new)
    then show ?thesis using step_free [OF inv S_free step [unfolded S_free]]
      by (auto simp: effect.silent)
  next
    case (S_return k v)
    with step show ?thesis by (intro local) (auto intro!: effect.returns [of _ k _ v])
  next
    case (S_thrown k v)
    with step show ?thesis by (intro local) (auto intro!: effect.returns [of _ k _ v])
  qed
qed

section \<open>The simulation\<close>

definition conc_init :: "conc \<Rightarrow> bool" where
  "conc_init s \<longleftrightarrow> (\<exists>n>0. s = conc_start n)"

lemma conc_start_inv: "0 < n \<Longrightarrow> conc_inv P (conc_start n)"
  using new_engine_ok [of n P]
  by (simp add: conc_inv_def conc_start_def engine_ok_def new_engine_def empty_store_def)

lemma conc_inv_call:
  assumes "conc_inv P s" "pcs s t = Idle" "owned p' = None" "pc_ok P (shared s) p'"
  shows "conc_inv P (s\<lparr>pcs := (pcs s)(t := p')\<rparr>)"
proof -
  have "conc_inv P \<lparr>shared = shared s, pcs = (pcs s)(t := p')\<rparr>"
    by (rule conc_inv_local [OF assms(1)]) (use assms in simp_all)
  moreover have "\<lparr>shared = shared s, pcs = (pcs s)(t := p')\<rparr> = s\<lparr>pcs := (pcs s)(t := p')\<rparr>" by (cases s) simp
  ultimately show ?thesis by simp
qed

lemma conc_next_inv: "conc_inv P s \<Longrightarrow> conc_next P s s' \<Longrightarrow> conc_inv P s'"
  by (auto elim!: conc_nextE intro: conc_inv_call dest: step_effect)

lemma abs_conc_upd:
  "abs_conc (s\<lparr>pcs := (pcs s)(t := p)\<rparr>) = (abs_conc s)\<lparr>status := (status (abs_conc s))(t := abs_pc p)\<rparr>"
  "abs_conc \<lparr>shared = e, pcs = (pcs s)(t := p)\<rparr> =
     \<lparr>amap = engine_map e, status = (status (abs_conc s))(t := abs_pc p)\<rparr>"
  by (auto simp: abs_conc_def)

lemma effect_spec:
  assumes "effect (amap a) p p' m'" "status a t = abs_pc p"
  shows "\<lparr>amap = m', status = (status a)(t := abs_pc p')\<rparr> = a \<or>
    spec_next a \<lparr>amap = m', status = (status a)(t := abs_pc p')\<rparr>"
  using assms(1)
proof cases
  case silent
  then show ?thesis using assms(2) by (cases a) (simp add: fun_upd_idem)
next
  case (reads k)
  then show ?thesis using spec_get [of a t k] assms(2) by (cases a) simp
next
  case (writes k v)
  then show ?thesis using spec_set [of a t k v] assms(2) by (cases a) simp
next
  case (fails k v)
  then show ?thesis using spec_fail [of a t k v] assms(2) by (cases a) simp
next
  case (returns k r v)
  then show ?thesis using spec_return [of a t k r v] assms(2) by (cases a) simp
qed

lemma conc_next_abs:
  assumes "conc_inv P s" "conc_next P s s'"
  shows "abs_conc s' = abs_conc s \<or> spec_next (abs_conc s) (abs_conc s')"
  using assms(2)
proof (rule conc_nextE)
  fix t k assume s': "pcs s t = Idle" "s' = s\<lparr>pcs := (pcs s)(t := G_bucket k)\<rparr>"
  then show ?thesis using spec_call_get [of "abs_conc s" t k]
    by (simp add: abs_conc_upd(1)) (simp add: abs_conc_def)
next
  fix t k v assume s': "pcs s t = Idle" "s' = s\<lparr>pcs := (pcs s)(t := S_create k v)\<rparr>"
  then show ?thesis using spec_call_set [of "abs_conc s" t k v]
    by (simp add: abs_conc_upd(1)) (simp add: abs_conc_def)
next
  fix f t p' e' assume st: "s' = \<lparr>shared = e', pcs = (pcs s)(t := p')\<rparr>"
    "thread_step P f t (pcs s t) (shared s) = Some (p', e')"
  have "effect (amap (abs_conc s)) (pcs s t) p' (engine_map e')"
    using step_effect [OF assms(1) st(2)] by (simp add: abs_conc_def)
  from effect_spec [OF this, of t] show ?thesis
    unfolding st(1) abs_conc_upd(2) by (simp add: abs_conc_def)
qed

interpretation lin: simulation conc_init "conc_next P" "conc_inv P" abs_conc spec_init spec_next for P
proof
  show "conc_inv P s" if "conc_init s" for s using that by (auto simp: conc_init_def conc_start_inv)
  show "conc_inv P t" if "conc_inv P s" "conc_next P s t" for s t using that by (rule conc_next_inv)
  show "spec_init (abs_conc s)" if "conc_init s" for s
    using that by (auto simp: conc_init_def conc_start_def abs_conc_def spec_init_def)
  show "abs_conc t = abs_conc s \<or> spec_next (abs_conc s) (abs_conc t)"
    if "conc_inv P s" "conc_next P s t" for s t
    using that by (rule conc_next_abs)
qed

text \<open>When no call is pending, the engine is in a state a sequential program could have left.\<close>

lemma quiescent_ok: "conc_inv P s \<Longrightarrow> \<forall>t. pcs s t = Idle \<Longrightarrow> engine_ok P (shared s)"
  by (simp add: conc_inv_def engine_ok_def)

text \<open>A key that is in the map stays in the map.\<close>

lemma grows_items:
  assumes ok: "buckets_ok P (m_buckets e) (heap e)" "buckets_ok P (m_buckets e') (heap e')"
    and g: "grows e e'" and k: "engine_map e k \<noteq> None"
  shows "engine_map e' k \<noteq> None"
proof -
  obtain i where i: "bucket_index P k (length (m_buckets e)) = Some i" "i < length (m_buckets e)"
    using ok(1) by (auto simp: buckets_ok_def bucket_index_def)
  have i': "bucket_index P k (length (m_buckets e')) = Some i" using g i by (simp add: grows_def)
  from k have "k \<in> fst ` set (bucket_entries (heap e) (m_buckets e ! i))"
    by (simp add: engine_map_bucket [OF ok(1) i(1)] map_of_eq_None_iff)
  then obtain a where a: "a \<in> set (path_of (heap e) (m_buckets e ! i))" "key_at (heap e) a = k"
    by (auto simp: bucket_entries_def)
  from g i(2) obtain zs where "path_of (heap e') (m_buckets e' ! i) = path_of (heap e) (m_buckets e ! i) @ zs"
    unfolding grows_def by blast
  moreover have "key_at (heap e') a = k"
    using g path_linked [OF i(2) a(1)] a(2) by (simp add: grows_def)
  ultimately have "k \<in> fst ` set (bucket_entries (heap e') (m_buckets e' ! i))"
    using a(1) by (force simp: bucket_entries_def image_iff)
  then show ?thesis by (simp add: engine_map_bucket [OF ok(2) i'] map_of_eq_None_iff)
qed

lemma conc_next_grows: "conc_inv P s \<Longrightarrow> conc_next P s s' \<Longrightarrow> grows (shared s) (shared s')"
  by (auto elim!: conc_nextE dest: step_effect simp: grows_refl)

lemma keys_stay:
  assumes "conc_inv P s" "(conc_next P)\<^sup>*\<^sup>* s s'" "engine_map (shared s) k \<noteq> None"
  shows "engine_map (shared s') k \<noteq> None"
  using assms(2,1,3)
proof (rule lin.stable [rotated])
  show "engine_map (shared u) k \<noteq> None"
    if "conc_inv P t" "conc_next P t u" "engine_map (shared t) k \<noteq> None" for t u
    using conc_invD(1) [OF that(1)] conc_invD(1) [OF conc_next_inv [OF that(1,2)]]
      conc_next_grows [OF that(1,2)] that(3) by (rule grows_items)
qed

end
