(* ===== verification/Engine_Progress.thy ===== *)
theory Engine_Progress
  imports Engine_Linear
begin

text \<open>
  Lock-freedom. Every pending call has a rank: a bound on the steps it still takes if the lists stay
  as they are. Its own steps decrease the rank, and only a \<open>set\<close> that takes effect changes the lists
  and with them the ranks of the other calls; since each call takes effect once, without new calls
  every schedule of the pending ones comes to an end, whatever thread is scheduled or suspended.
\<close>

section \<open>Ranks\<close>

definition bucket_lists :: "engine \<Rightarrow> addr list list" where
  "bucket_lists e = map (path_of (heap e)) (m_buckets e)"

definition ahead :: "engine \<Rightarrow> addr \<Rightarrow> nat" where
  "ahead e a = length (path_of (heap e) (Some a))"

definition bucket_len :: "platform \<Rightarrow> engine \<Rightarrow> string \<Rightarrow> nat" where
  "bucket_len P e k =
     (case bucket_index P k (length (m_buckets e)) of None \<Rightarrow> 0 | Some i \<Rightarrow> length (bucket_lists e ! i))"

fun rank :: "platform \<Rightarrow> engine \<Rightarrow> pc \<Rightarrow> nat" where
  "rank P e Idle = 0"
| "rank P e (G_bucket k) = 2 * bucket_len P e k + 3"
| "rank P e (G_key k a) = 2 * ahead e a + 2"
| "rank P e (G_hit k a) = 3"
| "rank P e (G_value k a) = 2"
| "rank P e (G_next k a) = 2 * ahead e a + 1"
| "rank P e (G_failed k) = 2"
| "rank P e (G_return k r) = 1"
| "rank P e (S_create k v) = 2 * bucket_len P e k + 4"
| "rank P e (S_head k v new) = 2 * bucket_len P e k + 3"
| "rank P e (S_key k v new a) = 2 * ahead e a + 2"
| "rank P e (S_store k v new a) = 3"
| "rank P e (S_next k v new a) = 2 * ahead e a + 1"
| "rank P e (S_free k v new) = 2"
| "rank P e (S_return k v) = 1"
| "rank P e (S_thrown k v) = 1"

lemma length_bucket_lists [simp]: "length (bucket_lists e) = length (m_buckets e)"
  by (simp add: bucket_lists_def)

lemma bucket_len_lists: "bucket_lists e' = bucket_lists e \<Longrightarrow> bucket_len P e' k = bucket_len P e k"
  using length_bucket_lists [of e] length_bucket_lists [of e'] by (auto simp: bucket_len_def split: option.split)

lemma ahead_standing:
  assumes "buckets_ok P (m_buckets e) (heap e)" "standing P e k a"
  shows "\<exists>n. deref (heap e) a = Some n \<and>
    ahead e a = Suc (case m_next n of None \<Rightarrow> 0 | Some b \<Rightarrow> ahead e b)"
proof -
  obtain i xs ys n where "chain (heap e) (m_buckets e ! i) (xs @ a # ys)"
    "deref (heap e) a = Some n" "chain (heap e) (m_next n) ys"
    using assms by (rule standingE) blast
  then have "path_of (heap e) (Some a) = a # ys" "path_of (heap e) (m_next n) = ys"
    by (auto dest: chain_suffix intro: path_of_chain)
  with \<open>deref _ _ = _\<close> show ?thesis by (auto simp: ahead_def split: option.splits)
qed

lemma ahead_lists:
  assumes "buckets_ok P (m_buckets e) (heap e)" "buckets_ok P (m_buckets e') (heap e')"
    and eq: "bucket_lists e' = bucket_lists e" and st: "standing P e k a"
  shows "ahead e' a = ahead e a"
proof -
  obtain i xs ys where i: "i < length (m_buckets e)"
    "path_of (heap e) (m_buckets e ! i) = xs @ a # ys" "chain (heap e) (m_buckets e ! i) (xs @ a # ys)"
    using assms(1) st by (rule standingE) blast
  have len: "length (m_buckets e') = length (m_buckets e)" using eq by (metis length_bucket_lists)
  have "path_of (heap e') (m_buckets e' ! i) = path_of (heap e) (m_buckets e ! i)"
    using eq i(1) len unfolding bucket_lists_def by (metis nth_map)
  moreover obtain ns where "chain (heap e') (m_buckets e' ! i) ns"
    "path_of (heap e') (m_buckets e' ! i) = ns"
    using assms(2) i(1) len by (metis buckets_okE)
  ultimately have "chain (heap e') (m_buckets e' ! i) (xs @ a # ys)" using i(2) by simp
  with i(3) have "path_of (heap e) (Some a) = a # ys" "path_of (heap e') (Some a) = a # ys"
    by (blast dest: chain_suffix intro: path_of_chain)+
  then show ?thesis by (simp add: ahead_def)
qed

lemma rank_lists:
  assumes "buckets_ok P (m_buckets e) (heap e)" "buckets_ok P (m_buckets e') (heap e')"
    and eq: "bucket_lists e' = bucket_lists e" and "pc_ok P e p"
  shows "rank P e' p = rank P e p"
  using ahead_lists [OF assms(1-3)] bucket_len_lists [OF eq] assms(4) by (cases p) auto

section \<open>One step\<close>

definition takes_effect :: "pc \<Rightarrow> pc \<Rightarrow> bool" where
  "takes_effect p p' \<longleftrightarrow> (\<exists>k v. abs_pc p = A_set k v \<and> abs_pc p' \<noteq> A_set k v)"

text \<open>A step changes the lists only when a \<open>set\<close> takes effect.\<close>

lemma step_lists:
  assumes inv: "conc_inv P s" and step: "thread_step P f t (pcs s t) (shared s) = Some (p', e')"
    and no: "\<not> takes_effect (pcs s t) p'"
  shows "bucket_lists e' = bucket_lists (shared s)"
proof -
  let ?e = "shared s"
  note D = conc_invD [OF inv]
  show ?thesis
  proof (cases "pcs s t")
    case (S_create k v)
    show ?thesis using D(2,3)
    proof (cases rule: create_node_cases [of ?e P t f k v])
      case (ok e1)
      with step S_create have "e' = e1" by simp
      then show ?thesis using created(3) [OF D(1,2) ok(3)] ok(4) by (simp add: bucket_lists_def)
    next
      case (fails e1)
      with step S_create no show ?thesis by (auto simp: takes_effect_def)
    qed
  next
    case (S_head k v new)
    with step no show ?thesis using step_head(3) [OF inv S_head, of f p' e']
      by (auto simp: takes_effect_def)
  next
    case (S_next k v new a)
    with step no show ?thesis using step_next(3) [OF inv S_next, of f p' e']
      by (auto simp: takes_effect_def)
  next
    case (S_store k v new a)
    with step no show ?thesis using step_store(3) [OF inv S_store, of f p' e']
      by (auto simp: takes_effect_def)
  next
    case (S_free k v new)
    with D(4) [of t] obtain m where m: "deref (heap ?e) new = Some m" and out: "new \<notin> linked ?e"
      by (auto simp: unlinked_def)
    let ?h = "(heap ?e)\<lparr>cells := (cells (heap ?e))(new := None)\<rparr>"
    from m step S_free have "e' = ?e\<lparr>heap := ?h\<rparr>" by (simp add: delete_self_live)
    moreover have "\<forall>j<length (m_buckets ?e). \<forall>a\<in>set (path_of (heap ?e) (m_buckets ?e ! j)). deref ?h a = deref (heap ?e) a"
      using out by (auto simp: deref_delete dest: path_linked)
    ultimately show ?thesis using buckets_frame(3) [OF D(1), of ?h] by (simp add: bucket_lists_def)
  qed (use step in \<open>auto simp: bucket_lists_def split: option.splits\<close>)
qed

lemma step_rank_silent:
  assumes inv: "conc_inv P s" and step: "thread_step P f t (pcs s t) (shared s) = Some (p', e')"
    and no: "\<not> takes_effect (pcs s t) p'"
  shows "rank P e' p' < rank P (shared s) (pcs s t)"
proof -
  let ?e = "shared s"
  note D = conc_invD [OF inv]
  have same: "bucket_lists e' = bucket_lists ?e" using assms by (rule step_lists)
  have ok: "buckets_ok P (m_buckets e') (heap e')"
    using step_effect [OF inv step] conc_invD(1) by fastforce
  have pc: "pc_ok P ?e (pcs s t)" by (rule D)
  have head: "ahead ?e a \<le> bucket_len P ?e k"
    if "bucket_index P k (length (m_buckets ?e)) = Some i" "m_buckets ?e ! i = Some a" for k i a
    using that bucket_index_less [OF that(1)] by (simp add: bucket_len_def bucket_lists_def ahead_def)
  show ?thesis
  proof (cases "pcs s t")
    case (G_bucket k)
    with step show ?thesis by (auto split: option.splits simp: less_Suc_eq_le intro: head)
  next
    case (G_key k a)
    with pc have "standing P ?e k a" by simp
    from ahead_standing [OF D(1) this] step G_key show ?thesis by (auto split: option.splits)
  next
    case (G_next k a)
    with pc have "standing P ?e k a" by simp
    from ahead_standing [OF D(1) this] step G_next show ?thesis by (auto split: option.splits)
  next
    case (S_create k v)
    with step no bucket_len_lists [OF same, of P k] show ?thesis
      by (auto split: outcome.splits prod.splits simp: takes_effect_def)
  next
    case (S_head k v new)
    with step no show ?thesis
      by (auto split: option.splits if_splits simp: takes_effect_def compare_exchange_def less_Suc_eq_le
          intro: head)
  next
    case (S_key k v new a)
    with pc have "standing P ?e k a" by simp
    from ahead_standing [OF D(1) this] step S_key show ?thesis by (auto split: option.splits)
  next
    case (S_next k v new a)
    with pc have "standing P ?e k a" by simp
    from ahead_standing [OF D(1) this] step S_next no show ?thesis
      by (auto split: option.splits if_splits simp: takes_effect_def compare_exchange_def)
  qed (use step no in \<open>auto split: option.splits simp: takes_effect_def\<close>)
qed

lemma step_rank:
  assumes inv: "conc_inv P s" and step: "thread_step P f t (pcs s t) (shared s) = Some (p', e')"
  shows "rank P e' p' < rank P (shared s) (pcs s t)"
proof (cases "takes_effect (pcs s t) p'")
  case True
  note D = conc_invD [OF inv]
  have pc: "pc_ok P (shared s) (pcs s t)" by (rule D)
  show ?thesis
  proof (cases "pcs s t")
    case (S_create k v)
    with step True step_create(4) [OF inv S_create, of f p' e'] show ?thesis
      by (auto simp: takes_effect_def)
  next
    case (S_head k v new)
    with step True step_head(3) [OF inv S_head, of f p' e'] show ?thesis
      by (auto simp: takes_effect_def)
  next
    case (S_next k v new a)
    with pc have "standing P (shared s) k a" by simp
    from ahead_standing [OF D(1) this] S_next step True step_next(3) [OF inv S_next, of f p' e']
    show ?thesis by (auto simp: takes_effect_def)
  next
    case (S_store k v new a)
    with step True step_store(3) [OF inv S_store, of f p' e'] show ?thesis
      by (auto simp: takes_effect_def)
  next
    case (S_key k v new a)
    with step True show ?thesis by (auto simp: takes_effect_def split: option.splits if_splits)
  qed (use True in \<open>auto simp: takes_effect_def\<close>)
qed (use step_rank_silent [OF assms] in blast)

section \<open>Whole executions\<close>

text \<open>A step of a pending call, and a run of \<open>n\<close> such steps by threads of a schedule.\<close>

inductive pending_next :: "platform \<Rightarrow> conc \<Rightarrow> conc \<Rightarrow> bool" for P where
  pending_run: "thread_step P f t (pcs s t) (shared s) = Some (p', e') \<Longrightarrow>
     pending_next P s \<lparr>shared = e', pcs = (pcs s)(t := p')\<rparr>"

inductive_cases pending_nextE: "pending_next P s s'"

lemma pending_conc: "pending_next P s s' \<Longrightarrow> conc_next P s s'"
  by (auto elim!: pending_nextE intro: conc_next.run)

definition writers :: "tid set \<Rightarrow> conc \<Rightarrow> nat" where
  "writers T s = card {t \<in> T. \<exists>k v. abs_pc (pcs s t) = A_set k v}"

definition total_rank :: "platform \<Rightarrow> tid set \<Rightarrow> conc \<Rightarrow> nat" where
  "total_rank P T s = (\<Sum>t\<in>T. rank P (shared s) (pcs s t))"

definition progress :: "platform \<Rightarrow> tid set \<Rightarrow> (conc \<times> conc) set" where
  "progress P T = inv_image (less_than <*lex*> less_than) (\<lambda>s. (writers T s, total_rank P T s))"

lemma wf_progress: "wf (progress P T)"
  by (simp add: progress_def wf_lex_prod)

lemma step_status:
  assumes "conc_inv P s" "thread_step P f t (pcs s t) (shared s) = Some (p', e')"
    and "abs_pc p' = A_set k v"
  shows "abs_pc (pcs s t) = A_set k v"
  using step_effect [OF assms(1,2)] assms(3) by (auto elim!: effect.cases)

lemma pending_progress:
  assumes inv: "conc_inv P s" and fin: "finite T" and out: "\<forall>t. t \<notin> T \<longrightarrow> pcs s t = Idle"
    and stp: "pending_next P s s'"
  shows "(s', s) \<in> progress P T" "\<forall>t. t \<notin> T \<longrightarrow> pcs s' t = Idle"
proof -
  from stp obtain f t p' e' where s': "s' = \<lparr>shared = e', pcs = (pcs s)(t := p')\<rparr>"
    and step: "thread_step P f t (pcs s t) (shared s) = Some (p', e')" by (rule pending_nextE) blast
  have T: "t \<in> T" using step out by (cases "t \<in> T") auto
  have sub: "{u \<in> T. \<exists>k v. abs_pc (pcs s' u) = A_set k v} \<subseteq> {u \<in> T. \<exists>k v. abs_pc (pcs s u) = A_set k v}"
    using step_status [OF inv step] by (auto simp: s' split: if_splits)
  show "\<forall>t. t \<notin> T \<longrightarrow> pcs s' t = Idle" using out T by (auto simp: s')
  show "(s', s) \<in> progress P T"
  proof (cases "takes_effect (pcs s t) p'")
    case True
    then have "t \<notin> {u \<in> T. \<exists>k v. abs_pc (pcs s' u) = A_set k v}"
      using step_status [OF inv step] by (auto simp: s' takes_effect_def)
    moreover have "t \<in> {u \<in> T. \<exists>k v. abs_pc (pcs s u) = A_set k v}"
      using True T by (auto simp: takes_effect_def)
    ultimately have "writers T s' < writers T s"
      using sub fin unfolding writers_def by (intro psubset_card_mono psubsetI) (simp, blast+)
    then show ?thesis by (simp add: progress_def)
  next
    case False
    note same = step_lists [OF inv step False]
    have ok: "buckets_ok P (m_buckets e') (heap e')"
      using step_effect [OF inv step] conc_invD(1) by fastforce
    have "rank P e' (pcs s u) = rank P (shared s) (pcs s u)" for u
      using conc_invD(1) [OF inv] ok same conc_invD(4) [OF inv] by (rule rank_lists)
    then have "total_rank P T s' < total_rank P T s"
      unfolding total_rank_def using step_rank [OF inv step] T fin
      by (intro sum_strict_mono_ex1) (auto simp: s' intro!: less_imp_le)
    moreover have "writers T s' \<le> writers T s"
      using sub fin unfolding writers_def by (intro card_mono) auto
    ultimately show ?thesis by (auto simp: progress_def)
  qed
qed

text \<open>
  Whatever the scheduler does, the pending calls finish: there is no infinite sequence of their
  steps, and a state in which none of them can step has no pending call.
\<close>

lemma pending_terminates:
  assumes inv: "conc_inv P s0" and fin: "finite {t. pcs s0 t \<noteq> Idle}"
  shows "\<not> (\<exists>run. run 0 = s0 \<and> (\<forall>n. pending_next P (run n) (run (Suc n))))"
proof
  assume "\<exists>run. run 0 = s0 \<and> (\<forall>n. pending_next P (run n) (run (Suc n)))"
  then obtain run where run: "run 0 = s0" "\<And>n. pending_next P (run n) (run (Suc n))" by blast
  let ?T = "{t. pcs s0 t \<noteq> Idle}"
  have ok: "conc_inv P (run n) \<and> (\<forall>t. t \<notin> ?T \<longrightarrow> pcs (run n) t = Idle)" for n
  proof (induction n)
    case (Suc n)
    then show ?case
      using pending_progress(2) [OF _ fin _ run(2) [of n]] conc_next_inv pending_conc [OF run(2) [of n]]
      by blast
  qed (use run inv in simp)
  have "(run (Suc n), run n) \<in> progress P ?T" for n
    using pending_progress(1) [OF _ fin _ run(2) [of n]] ok [of n] by blast
  then show False using wf_progress [of P ?T] unfolding wf_iff_no_infinite_down_chain by blast
qed

lemma pending_possible:
  assumes "conc_inv P s" "pcs s t \<noteq> Idle"
  shows "\<exists>s'. pending_next P s s' \<and> (\<forall>u. u \<noteq> t \<longrightarrow> pcs s' u = pcs s u)"
proof -
  obtain p' e' where "thread_step P No_fault t (pcs s t) (shared s) = Some (p', e')"
    using thread_step_defined [OF assms, of No_fault] by auto
  then show ?thesis
    by (intro exI [of _ "\<lparr>shared = e', pcs = (pcs s)(t := p')\<rparr>"] conjI pending_next.intros) auto
qed

text \<open>
  A thread that runs alone returns within \<open>rank\<close> steps: the others may be suspended anywhere.
\<close>

fun run_alone :: "platform \<Rightarrow> create_fault \<Rightarrow> tid \<Rightarrow> nat \<Rightarrow> pc \<times> engine \<Rightarrow> (pc \<times> engine) option" where
  "run_alone P f t fuel (Idle, e) = Some (Idle, e)"
| "run_alone P f t 0 (p, e) = None"
| "run_alone P f t (Suc fuel) (p, e) = Option.bind (thread_step P f t p e) (run_alone P f t fuel)"

lemma run_alone_returns:
  assumes "conc_inv P s" "rank P (shared s) (pcs s t) \<le> fuel"
  shows "\<exists>e'. run_alone P f t fuel (pcs s t, shared s) = Some (Idle, e') \<and>
    conc_inv P \<lparr>shared = e', pcs = (pcs s)(t := Idle)\<rparr>"
  using assms
proof (induction fuel arbitrary: s)
  case 0
  then have "pcs s t = Idle" by (cases "pcs s t") auto
  with 0 show ?case by (cases s) (simp add: fun_upd_idem)
next
  case (Suc fuel)
  show ?case
  proof (cases "pcs s t = Idle")
    case True
    with Suc.prems show ?thesis by (cases s) (simp add: fun_upd_idem)
  next
    case False
    then obtain p' e' where step: "thread_step P f t (pcs s t) (shared s) = Some (p', e')"
      using thread_step_defined [OF Suc.prems(1), of t f] by auto
    let ?s = "\<lparr>shared = e', pcs = (pcs s)(t := p')\<rparr>"
    have inv: "conc_inv P ?s" using step_effect [OF Suc.prems(1) step] by blast
    have "rank P (shared ?s) (pcs ?s t) \<le> fuel"
      using step_rank [OF Suc.prems(1) step] Suc.prems(2) by simp
    from Suc.IH [OF inv this] obtain e'' where
      "run_alone P f t fuel (p', e') = Some (Idle, e'')"
      "conc_inv P \<lparr>shared = e'', pcs = (pcs s)(t := Idle)\<rparr>" by (auto simp del: fun_upd_apply simp: fun_upd_same)
    moreover have "run_alone P f t (Suc fuel) (pcs s t, shared s) = run_alone P f t fuel (p', e')"
      using step False by (cases "pcs s t") simp_all
    ultimately show ?thesis by (simp del: fun_upd_apply)
  qed
qed

end
