(* ===== verification/Engine_Theorems.thy ===== *)
theory Engine_Theorems
  imports Engine_Progress
begin

text \<open>
  What the engine guarantees, for one thread and for many, with the threads of its allocator
  factory. \<open>exec\<close> runs a given schedule, so that the guarantees can be seen on concrete executions.
\<close>

section \<open>Schedules\<close>

datatype event = Start_get tid string | Start_set tid string string | Run tid create_fault

fun exec_event :: "platform \<Rightarrow> event \<Rightarrow> conc \<Rightarrow> conc option" where
  "exec_event P (Start_get t k) s = (if pcs s t = Idle then Some (s\<lparr>pcs := (pcs s)(t := G_bucket k)\<rparr>) else None)"
| "exec_event P (Start_set t k v) s = (if pcs s t = Idle then Some (s\<lparr>pcs := (pcs s)(t := S_create k v)\<rparr>) else None)"
| "exec_event P (Run t f) s =
     (case thread_step P f t (pcs s t) (shared s) of
        None \<Rightarrow> None
      | Some (p', e') \<Rightarrow> Some \<lparr>shared = e', pcs = (pcs s)(t := p')\<rparr>)"

fun exec :: "platform \<Rightarrow> event list \<Rightarrow> conc \<Rightarrow> conc option" where
  "exec P [] s = Some s"
| "exec P (ev # evs) s = Option.bind (exec_event P ev s) (exec P evs)"

lemma exec_event_next: "exec_event P ev s = Some s' \<Longrightarrow> conc_next P s s'"
  by (cases ev) (auto split: if_splits option.splits intro: conc_next.intros)

lemma exec_steps: "exec P evs s = Some s' \<Longrightarrow> (conc_next P)\<^sup>*\<^sup>* s s'"
proof (induction evs arbitrary: s)
  case (Cons ev evs)
  then obtain s1 where "exec_event P ev s = Some s1" "exec P evs s1 = Some s'"
    by (auto simp: bind_eq_Some_conv)
  with Cons.IH show ?case by (meson converse_rtranclp_into_rtranclp exec_event_next)
qed simp

lemma exec_reach:
  assumes "0 < n" "exec P evs (conc_start n) = Some s"
  shows "reach conc_init (conc_next P) s"
proof (rule lin.reach_steps)
  show "(conc_next P)\<^sup>*\<^sup>* (conc_start n) s" using assms(2) by (rule exec_steps)
  show "reach conc_init (conc_next P) (conc_start n)"
    using assms(1) by (intro reach.reach_init) (auto simp: conc_init_def)
qed

definition demo_platform :: platform where
  "demo_platform = \<lparr>str_hash = (\<lambda>s. of_nat (length s)), tid_hash = of_nat, counter_lock_free = True,
     bucket_lock_free = True, next_lock_free = True, value_lock_free = False\<rparr>"

text \<open>
  Two threads set the keys \<open>a\<close> and \<open>b\<close>, which fall into one bucket; the second makes its node while
  the first links its own, loses the compare-exchange, and is about to append.
\<close>

definition demo_events :: "event list" where
  "demo_events =
     [Start_set 1 ''a'' ''x'', Start_set 2 ''b'' ''y'', Run 1 No_fault, Run 2 No_fault,
      Run 1 No_fault, Run 2 No_fault, Run 2 No_fault, Start_get 3 ''a'', Run 3 No_fault]"

definition demo_state :: conc where
  "demo_state = the (exec demo_platform demo_events (conc_start 1))"

lemma demo_exec: "exec demo_platform demo_events (conc_start 1) \<noteq> None"
  by (simp add: demo_events_def conc_start_def new_engine_def create_node_def get_allocator_def
      get_current_thread_allocator_def allocate_new_def allocate_def construct_def emplace_def
      rebind_allocator_def Let_def demo_platform_def empty_store_def poke_def deref_def
      bucket_index_def compare_exchange_def)

lemma demo_reach: "reach conc_init (conc_next demo_platform) demo_state"
  using demo_exec by (intro exec_reach [of 1 _ demo_events]) (auto simp: demo_state_def)

lemma demo_pcs:
  "pcs demo_state 1 = S_return ''a'' ''x''" "pcs demo_state 2 = S_next ''b'' ''y'' 1 0"
  "pcs demo_state 3 = G_key ''a'' 0" "t \<notin> {1, 2, 3} \<Longrightarrow> pcs demo_state t = Idle"
  by (simp_all add: demo_state_def demo_events_def conc_start_def new_engine_def create_node_def get_allocator_def
      get_current_thread_allocator_def allocate_new_def allocate_def construct_def emplace_def
      rebind_allocator_def Let_def demo_platform_def empty_store_def poke_def deref_def
      bucket_index_def compare_exchange_def)

lemma demo_finite: "finite {t. pcs demo_state t \<noteq> Idle}"
  by (rule finite_subset [of _ "{1, 2, 3}"]) (use demo_pcs(4) in auto)

section \<open>Many threads\<close>

text \<open>C1: Linearizability. Every state that any interleaving of \<open>get\<close> and \<open>set\<close> calls can reach is, seen
  through \<open>abs_conc\<close>, a state of the specification in which each call reads or updates the map in
  one atomic step between its start and its return.\<close>

theorem engine_linearizable:
  assumes "reach conc_init (conc_next P) s"
  shows "reach spec_init spec_next (abs_conc s)"
  using assms by (rule lin.reach_abs)

theorem engine_linearizable_witness:
  "reach spec_init spec_next (abs_conc demo_state) \<and> status (abs_conc demo_state) 2 = A_set ''b'' ''y''"
  using engine_linearizable [OF demo_reach] by (simp add: abs_conc_def demo_pcs)








lemma demo_map: "engine_map (shared demo_state) ''a'' \<noteq> None"
proof -
  have ok: "buckets_ok demo_platform (m_buckets (shared demo_state)) (heap (shared demo_state))"
    using lin.reach_inv [OF demo_reach] by (rule conc_invD)
  have m: "m_buckets (shared demo_state) = [Some 0]"
    "\<exists>n. deref (heap (shared demo_state)) 0 = Some n \<and> m_key n = ''a''"
    by (simp_all add: demo_state_def demo_events_def conc_start_def new_engine_def create_node_def get_allocator_def
        get_current_thread_allocator_def allocate_new_def allocate_def construct_def emplace_def
        rebind_allocator_def Let_def demo_platform_def empty_store_def poke_def deref_def
        bucket_index_def compare_exchange_def)
  have i: "bucket_index demo_platform ''a'' (length (m_buckets (shared demo_state))) = Some 0"
    by (simp add: bucket_index_def m)
  from m obtain n where n: "deref (heap (shared demo_state)) 0 = Some n" "m_key n = ''a''" by blast
  have st: "standing demo_platform (shared demo_state) ''a'' 0"
    by (rule standing_head [OF ok i]) (simp add: m)
  show ?thesis using engine_map_standing(1) [OF ok st n(1)] n by (simp add: node_at_def)
qed


text \<open>C13: When no call is pending, the engine is in a state that a single-threaded program could have
  left: each bucket is a list with distinct keys, no node has leaked, every allocator belongs to its
  thread, and the entries that \<open>enumerate\<close> visits are exactly those of the atomic map.\<close>

theorem engine_quiescent:
  assumes "reach conc_init (conc_next P) s" "\<forall>t. pcs s t = Idle"
  shows "engine_ok P (shared s) \<and>
    enumerate (\<lambda>k v xs. xs @ [(k, v)]) (shared s) [] = Ret (engine_items (shared s)) \<and>
    distinct (map fst (engine_items (shared s))) \<and>
    map_of (engine_items (shared s)) = amap (abs_conc s)"
proof (intro conjI)
  show ok: "engine_ok P (shared s)" using lin.reach_inv [OF assms(1)] assms(2) by (rule quiescent_ok)
  have "fold (\<lambda>(k, v) xs. xs @ [(k, v)]) ys zs = zs @ ys" for ys zs :: "(string \<times> string) list"
    by (induction ys arbitrary: zs) auto
  then show "enumerate (\<lambda>k v xs. xs @ [(k, v)]) (shared s) [] = Ret (engine_items (shared s))"
    by (simp add: enumerate_items [OF ok])
  show "distinct (map fst (engine_items (shared s)))" using ok by (rule eng.items_distinct)
  show "map_of (engine_items (shared s)) = amap (abs_conc s)"
    using eng.items_view [OF ok] by (simp add: abs_conc_def)
qed

theorem engine_quiescent_witness:
  "engine_ok demo_platform (shared (conc_start 3)) \<and>
    enumerate (\<lambda>k v xs. xs @ [(k, v)]) (shared (conc_start 3)) [] = Ret (engine_items (shared (conc_start 3))) \<and>
    distinct (map fst (engine_items (shared (conc_start 3)))) \<and>
    map_of (engine_items (shared (conc_start 3))) = amap (abs_conc (conc_start 3))"
proof (rule engine_quiescent)
  show "reach conc_init (conc_next demo_platform) (conc_start 3)"
    by (rule exec_reach [of 3 _ "[]"]) simp_all
qed (simp add: conc_start_def)

text \<open>C14: The destructor frees every node exactly once: after any concurrent history that has come to
  rest, it ends with an empty free store and no undefined step.\<close>

theorem engine_destroy_all:
  assumes "reach conc_init (conc_next P) s" "\<forall>t. pcs s t = Idle"
  shows "\<exists>e'. destroy_engine (shared s) = Ret e' \<and> cells (heap e') = Map.empty \<and> m_buckets e' = []"
  using destroy_engine_ok [OF quiescent_ok [OF lin.reach_inv [OF assms(1)] assms(2)]] by metis

theorem engine_destroy_all_witness:
  "\<exists>e'. destroy_engine (shared (conc_start 3)) = Ret e' \<and> cells (heap e') = Map.empty \<and> m_buckets e' = []"
proof (rule engine_destroy_all)
  show "reach conc_init (conc_next demo_platform) (conc_start 3)"
    by (rule exec_reach [of 3 _ "[]"]) simp_all
qed (simp add: conc_start_def)

section \<open>One thread\<close>

text \<open>C9: \<open>set\<close> is the update of the map and, in detail, \<open>AList.update\<close> of the one bucket the key hashes
  to: an existing entry changes its value in place, a new one goes to the end of its list; the other
  buckets and the counters do not change.\<close>

theorem engine_set:
  assumes "engine_ok P e"
  shows "\<exists>e' i. set_kv P t No_fault key v e = (Ret (), e') \<and> engine_ok P e' \<and>
    engine_map e' = (engine_map e)(key \<mapsto> v) \<and>
    bucket_index P key (length (m_buckets e)) = Some i \<and>
    engine_buckets e' = (engine_buckets e)[i := AList.update key v (engine_buckets e ! i)] \<and>
    get_read_statistics e' = get_read_statistics e"
proof -
  obtain i where i: "bucket_index P key (length (m_buckets e)) = Some i"
    using engine_okD(1) [OF assms] by (rule bucket_index_ok)
  obtain e' where e': "set_kv P t No_fault key v e = (Ret (), e')" "engine_ok P e'"
    "engine_buckets e' = (engine_buckets e)[i := AList.update key v (engine_buckets e ! i)]"
    "m_successReads e' = m_successReads e" "m_failedReads e' = m_failedReads e"
    using assms i by (rule set_kv_Ret [of P e key i t v]) blast
  have "engine_map e' = (engine_map e)(key \<mapsto> v)"
    using set_kv_ok [OF assms, of t key v] e'(1) by auto
  with e' i show ?thesis by (auto simp: get_read_statistics_def)
qed

theorem engine_set_witness:
  "\<exists>e' i. set_kv demo_platform 1 No_fault ''k'' ''v'' (new_engine 2) = (Ret (), e') \<and> engine_ok demo_platform e' \<and>
    engine_map e' = (engine_map (new_engine 2))(''k'' \<mapsto> ''v'') \<and>
    bucket_index demo_platform ''k'' (length (m_buckets (new_engine 2))) = Some i \<and>
    engine_buckets e' = (engine_buckets (new_engine 2))[i := AList.update ''k'' ''v'' (engine_buckets (new_engine 2) ! i)] \<and>
    get_read_statistics e' = get_read_statistics (new_engine 2)"
  by (rule engine_set) (simp add: new_engine_ok)

text \<open>C10: \<open>get\<close> returns the map's value and counts itself once, as a success or as a failure; it changes
  nothing else.\<close>

theorem engine_get:
  assumes "engine_ok P e"
  shows "get P True key e =
    (Ret (engine_map e key),
     if engine_map e key = None then e\<lparr>m_failedReads := m_failedReads e + 1\<rparr>
     else e\<lparr>m_successReads := m_successReads e + 1\<rparr>)"
  using assms by (cases rule: get_cases [of P e key True]) auto

theorem engine_get_witness:
  "get demo_platform True ''k'' (new_engine 2) =
    (Ret (engine_map (new_engine 2) ''k''),
     if engine_map (new_engine 2) ''k'' = None then (new_engine 2)\<lparr>m_failedReads := m_failedReads (new_engine 2) + 1\<rparr>
     else (new_engine 2)\<lparr>m_successReads := m_successReads (new_engine 2) + 1\<rparr>)"
  by (rule engine_get) (simp add: new_engine_ok)



section \<open>The allocator factory\<close>

text \<open>C16: However the threads interleave in \<open>get_current_thread_allocator\<close>, the assertion behind
  \<open>emplace\<close> holds, each thread gets the allocator of its own id, and a writer never runs with a
  reader or another writer.\<close>

theorem factory_assertion:
  assumes "reach factory_init (factory_next thash) s"
  shows "(\<forall>asserted a. fpcs s t = F_return asserted a \<longrightarrow> asserted \<and> a = \<lparr>m_heap = thash t\<rparr>) \<and>
    (writer s = Some t \<longrightarrow> readers s = {} \<and> (\<forall>u. holds_unique (fpcs s u) \<longrightarrow> u = t))"
proof (intro conjI allI impI)
  note D = factory_invD [OF fact.reach_inv [OF assms]]
  fix asserted a assume "fpcs s t = F_return asserted a"
  then show asserted "a = \<lparr>m_heap = thash t\<rparr>"
    using D(4) D(5) [of t] by (auto simp: factory_ok_def)
next
  note D = factory_invD [OF fact.reach_inv [OF assms]]
  assume w: "writer s = Some t"
  then show "readers s = {}" by (rule D)
  fix u assume "holds_unique (fpcs s u)"
  with w show "u = t" using D(2) [of u] by simp
qed

fun factory_exec :: "(tid \<Rightarrow> u64) \<Rightarrow> tid list \<Rightarrow> factory_sys \<Rightarrow> factory_sys option" where
  "factory_exec thash [] s = Some s"
| "factory_exec thash (t # ts) s = Option.bind (factory_step thash t (fpcs s t) s) (factory_exec thash ts)"

definition factory_start :: factory_sys where
  "factory_start = \<lparr>shared_map = Map.empty, readers = {}, writer = None, fpcs = (\<lambda>_. F_lock_shared)\<rparr>"

lemma factory_exec_reach:
  assumes "factory_exec thash ts s = Some s'" "reach factory_init (factory_next thash) s"
  shows "reach factory_init (factory_next thash) s'"
  using assms
proof (induction ts arbitrary: s)
  case (Cons t ts)
  then show ?case
    by (auto simp: bind_eq_Some_conv) (metis reach.reach_step factory_next.factory_nextI)
qed simp

text \<open>Two threads look their ids up at the same time, and then take the unique lock one after the other.\<close>

definition demo_factory :: factory_sys where
  "demo_factory = the (factory_exec of_nat [1, 2, 1, 2, 1, 2, 1, 2, 1, 1, 1] factory_start)"

theorem factory_assertion_witness:
  "\<exists>b a. fpcs demo_factory 1 = F_return b a \<and> b \<and> a = \<lparr>m_heap = of_nat 1\<rparr>"
proof -
  have run: "factory_exec of_nat [1, 2, 1, 2, 1, 2, 1, 2, 1, 1, 1] factory_start \<noteq> None \<and>
    fpcs demo_factory 1 = F_return True \<lparr>m_heap = 1\<rparr>"
    by (auto simp: demo_factory_def factory_start_def set_fpc_def emplace_def)
  have "reach factory_init (factory_next of_nat) factory_start"
    by (rule reach.reach_init) (simp add: factory_start_def factory_init_def)
  then have "reach factory_init (factory_next of_nat) demo_factory"
    unfolding demo_factory_def
    by (rule factory_exec_reach [OF option.collapse [symmetric, OF conjunct1 [OF run]]])
  from factory_assertion [OF this, of 1] run show ?thesis by blast
qed

end
