(* ===== verification/Logger.thy ===== *)
theory Logger
  imports Prelude
begin

text \<open>
  Logging: \<open>Logger.h\<close>, \<open>Logger.cpp\<close>, Crow's \<open>logging.h\<close> and the \<open>LogHandler\<close> that forwards
  Crow's messages to the program's logger. The two output streams are lists of lines in the order
  in which they are written; a line is written under the logger's mutex, so one call is one step.
  The reading of the clock is an argument: the milliseconds since the epoch, and the broken-down
  time that \<open>gmtime_r\<close> gives for it.
\<close>

section \<open>Text\<close>

fun show_digits :: "nat \<Rightarrow> nat \<Rightarrow> string" where
  "show_digits 0 n = []"
| "show_digits (Suc w) n = show_digits w (n div 10) @ [char_of (48 + n mod 10)]"

fun show_nat :: "nat \<Rightarrow> string" where
  "show_nat n = (if n < 10 then [char_of (48 + n)] else show_nat (n div 10) @ [char_of (48 + n mod 10)])"

declare show_nat.simps [simp del]

text \<open>\<open>std::setw\<close> pads on the left (\<open>std::right\<close>) or on the right (\<open>std::left\<close>), and never cuts.\<close>

definition pad_right_aligned :: "nat \<Rightarrow> char \<Rightarrow> string \<Rightarrow> string" where
  "pad_right_aligned width fill s = replicate (width - length s) fill @ s"

definition pad_left_aligned :: "nat \<Rightarrow> char \<Rightarrow> string \<Rightarrow> string" where
  "pad_left_aligned width fill s = s @ replicate (width - length s) fill"

record tm =
  tm_year :: nat
  tm_mon :: nat
  tm_mday :: nat
  tm_hour :: nat
  tm_min :: nat
  tm_sec :: nat

text \<open>\<open>put_time\<close> with \<open>%Y-%m-%d %H:%M:%S\<close>; \<open>tm_year\<close> counts from 1900 and \<open>tm_mon\<close> from 0.\<close>

definition put_time :: "tm \<Rightarrow> string" where
  "put_time t = show_nat (1900 + tm_year t) @ ''-'' @ show_digits 2 (tm_mon t + 1) @ ''-'' @
     show_digits 2 (tm_mday t) @ '' '' @ show_digits 2 (tm_hour t) @ '':'' @
     show_digits 2 (tm_min t) @ '':'' @ show_digits 2 (tm_sec t)"

section \<open>Levels\<close>

datatype log_level = Debug | Info | Warning | Error | Critical

fun level_value :: "log_level \<Rightarrow> nat" where
  "level_value Debug = 0"
| "level_value Info = 1"
| "level_value Warning = 2"
| "level_value Error = 3"
| "level_value Critical = 4"

lemma level_value_inj: "level_value a = level_value b \<Longrightarrow> a = b"
  by (cases a; cases b) auto

instantiation log_level :: linorder
begin

definition less_eq_log_level :: "log_level \<Rightarrow> log_level \<Rightarrow> bool" where
  "less_eq_log_level a b \<longleftrightarrow> level_value a \<le> level_value b"

definition less_log_level :: "log_level \<Rightarrow> log_level \<Rightarrow> bool" where
  "less_log_level a b \<longleftrightarrow> level_value a < level_value b"

instance
  by standard (auto simp: less_eq_log_level_def less_log_level_def level_value_inj)

end

section \<open>\<open>Logger\<close>\<close>

record clock =
  now_ms :: nat
  now_tm :: tm

record logger =
  m_minLogLevel :: log_level
  cout :: "string list"
  cerr :: "string list"

fun level_name :: "log_level \<Rightarrow> string" where
  "level_name Debug = ''DEBUG''"
| "level_name Info = ''INFO''"
| "level_name Warning = ''WARNING''"
| "level_name Error = ''ERROR''"
| "level_name Critical = ''CRITICAL''"

definition log_line :: "clock \<Rightarrow> string \<Rightarrow> log_level \<Rightarrow> string" where
  "log_line c message logLevel =
     put_time (now_tm c) @ ''.'' @ pad_right_aligned 3 CHR ''0'' (show_nat (now_ms c mod 1000)) @
     '' '' @ pad_left_aligned 8 CHR '' '' (level_name logLevel) @ '' '' @ message"

definition Logger_log :: "clock \<Rightarrow> string \<Rightarrow> log_level \<Rightarrow> logger \<Rightarrow> logger" where
  "Logger_log c message logLevel s =
     (if logLevel < m_minLogLevel s then s
      else if Warning \<le> logLevel then s\<lparr>cerr := cerr s @ [log_line c message logLevel]\<rparr>
      else s\<lparr>cout := cout s @ [log_line c message logLevel]\<rparr>)"

definition SetLogLevel :: "log_level \<Rightarrow> logger \<Rightarrow> logger" where
  "SetLogLevel level s = s\<lparr>m_minLogLevel := level\<rparr>"

text \<open>\<open>GetLogLevel\<close> has a parameter that it does not use.\<close>

definition GetLogLevel :: "log_level \<Rightarrow> logger \<Rightarrow> log_level" where
  "GetLogLevel level s = m_minLogLevel s"

subsection \<open>\<open>LogStream\<close>\<close>

record log_stream =
  m_buffer :: string
  m_isEmptyBuffer :: bool
  m_logLevel :: log_level

definition LogStream :: "log_level \<Rightarrow> log_stream" where
  "LogStream logLevel = \<lparr>m_buffer = [], m_isEmptyBuffer = True, m_logLevel = logLevel\<rparr>"

text \<open>What is put into a stream: a value, as its characters, or \<open>std::endl\<close>.\<close>

datatype log_item = Text string | Endl

definition stream_put :: "string \<Rightarrow> log_stream \<Rightarrow> log_stream" where
  "stream_put v l = l\<lparr>m_buffer := m_buffer l @ v, m_isEmptyBuffer := False\<rparr>"

definition stream_log :: "clock \<Rightarrow> log_stream \<times> logger \<Rightarrow> log_stream \<times> logger" where
  "stream_log c = (\<lambda>(l, s).
     if m_isEmptyBuffer l then (l, s)
     else (l\<lparr>m_buffer := [], m_isEmptyBuffer := True\<rparr>, Logger_log c (m_buffer l) (m_logLevel l) s))"

fun stream_item :: "clock \<Rightarrow> log_item \<Rightarrow> log_stream \<times> logger \<Rightarrow> log_stream \<times> logger" where
  "stream_item c (Text v) (l, s) = (stream_put v l, s)"
| "stream_item c Endl (l, s) = stream_log c (l, s)"

text \<open>The whole statement \<open>LOG_x << a << b << std::endl;\<close>: the temporary's destructor flushes.\<close>

definition log_stmt :: "clock \<Rightarrow> log_level \<Rightarrow> log_item list \<Rightarrow> logger \<Rightarrow> logger" where
  "log_stmt c level items s = snd (stream_log c (fold (stream_item c) items (LogStream level, s)))"

section \<open>Crow's logger\<close>

datatype crow_level = Crow_Debug | Crow_Info | Crow_Warning | Crow_Error | Crow_Critical

fun crow_level_value :: "crow_level \<Rightarrow> nat" where
  "crow_level_value Crow_Debug = 0"
| "crow_level_value Crow_Info = 1"
| "crow_level_value Crow_Warning = 2"
| "crow_level_value Crow_Error = 3"
| "crow_level_value Crow_Critical = 4"

text \<open>\<open>HttpServerHelpers::LogHandler::log\<close>.\<close>

fun convert_level :: "crow_level \<Rightarrow> log_level" where
  "convert_level Crow_Debug = Debug"
| "convert_level Crow_Info = Info"
| "convert_level Crow_Warning = Warning"
| "convert_level Crow_Error = Error"
| "convert_level Crow_Critical = Critical"

definition LogHandler_log :: "clock \<Rightarrow> string \<Rightarrow> crow_level \<Rightarrow> logger \<Rightarrow> logger" where
  "LogHandler_log c message level s = Logger_log c message (convert_level level) s"

text \<open>\<open>CerrLogHandler\<close>, Crow's default.\<close>

fun cerr_prefix :: "crow_level \<Rightarrow> string" where
  "cerr_prefix Crow_Debug = ''DEBUG   ''"
| "cerr_prefix Crow_Info = ''INFO    ''"
| "cerr_prefix Crow_Warning = ''WARNING ''"
| "cerr_prefix Crow_Error = ''ERROR   ''"
| "cerr_prefix Crow_Critical = ''CRITICAL''"

definition CerrLogHandler_log :: "clock \<Rightarrow> string \<Rightarrow> crow_level \<Rightarrow> logger \<Rightarrow> logger" where
  "CerrLogHandler_log c message level s =
     s\<lparr>cerr := cerr s @ [''('' @ put_time (now_tm c) @ '') ['' @ cerr_prefix level @ ''] '' @ message]\<rparr>"

datatype handler = Cerr_handler | Program_handler

fun handler_log :: "handler \<Rightarrow> clock \<Rightarrow> string \<Rightarrow> crow_level \<Rightarrow> logger \<Rightarrow> logger" where
  "handler_log Cerr_handler = CerrLogHandler_log"
| "handler_log Program_handler = LogHandler_log"

record crow_log =
  current_level :: crow_level
  current_handler :: handler

definition setLogLevel :: "crow_level \<Rightarrow> crow_log \<Rightarrow> crow_log" where
  "setLogLevel level g = g\<lparr>current_level := level\<rparr>"

definition setHandler :: "handler \<Rightarrow> crow_log \<Rightarrow> crow_log" where
  "setHandler h g = g\<lparr>current_handler := h\<rparr>"

text \<open>
  A statement \<open>CROW_LOG_x << a << b;\<close>: the macro's test, then the insertions and the destructor,
  each with its own test of the level (the level is read again each time, and does not change
  within a statement here).
\<close>

definition crow_insert :: "crow_log \<Rightarrow> crow_level \<Rightarrow> string \<Rightarrow> string \<Rightarrow> string" where
  "crow_insert g level v buf =
     (if crow_level_value (current_level g) \<le> crow_level_value level then buf @ v else buf)"

definition crow_flush :: "crow_log \<Rightarrow> clock \<Rightarrow> crow_level \<Rightarrow> string \<Rightarrow> logger \<Rightarrow> logger" where
  "crow_flush g c level buf s =
     (if crow_level_value (current_level g) \<le> crow_level_value level
      then handler_log (current_handler g) c buf level s else s)"

definition crow_stmt :: "crow_log \<Rightarrow> clock \<Rightarrow> crow_level \<Rightarrow> string list \<Rightarrow> logger \<Rightarrow> logger" where
  "crow_stmt g c level parts s =
     (if crow_level_value (current_level g) \<le> crow_level_value level
      then crow_flush g c level (fold (crow_insert g level) parts []) s else s)"

section \<open>Lemmas\<close>

lemma log_level_less [simp]: "a < b \<longleftrightarrow> level_value a < level_value (b :: log_level)"
  by (simp add: less_log_level_def)

lemma log_level_le [simp]: "a \<le> b \<longleftrightarrow> level_value a \<le> level_value (b :: log_level)"
  by (simp add: less_eq_log_level_def)

lemma Logger_log_same [simp]: "m_minLogLevel (Logger_log c m l s) = m_minLogLevel s"
  by (simp add: Logger_log_def)

lemma length_show_digits [simp]: "length (show_digits w n) = w"
  by (induction w arbitrary: n) auto

lemma show_digits_2: "show_digits 2 n = [char_of (48 + n div 10 mod 10), char_of (48 + n mod 10)]"
  by (simp add: numeral_2_eq_2)

lemma length_show_nat_1000: "n < 1000 \<Longrightarrow> length (show_nat n) \<le> 3"
  by (simp add: show_nat.simps)

lemma length_pad [simp]:
  "length (pad_right_aligned w f s) = max w (length s)"
  "length (pad_left_aligned w f s) = max w (length s)"
  by (auto simp: pad_right_aligned_def pad_left_aligned_def)

lemma stream_texts:
  "fold (stream_item c) (map Text vs) (l, s) =
     (if vs = [] then l else l\<lparr>m_buffer := m_buffer l @ concat vs, m_isEmptyBuffer := False\<rparr>, s)"
  by (induction vs arbitrary: l) (auto simp: stream_put_def)

text \<open>A statement that ends in \<open>std::endl\<close> logs its parts once, as one line.\<close>

lemma log_stmt_endl:
  "log_stmt c level (map Text vs @ [Endl]) s =
     (if vs = [] then s else Logger_log c (concat vs) level s)"
  by (simp add: log_stmt_def stream_texts stream_log_def LogStream_def)

lemma log_stmt_flush:
  "log_stmt c level (map Text vs) s = (if vs = [] then s else Logger_log c (concat vs) level s)"
  by (simp add: log_stmt_def stream_texts stream_log_def LogStream_def)

lemma fold_crow_insert:
  "crow_level_value (current_level g) \<le> crow_level_value level \<Longrightarrow>
     fold (crow_insert g level) parts buf = buf @ concat parts"
  by (induction parts arbitrary: buf) (auto simp: crow_insert_def)

lemma crow_stmt_eq:
  "crow_stmt g c level parts s =
     (if crow_level_value (current_level g) \<le> crow_level_value level
      then handler_log (current_handler g) c (concat parts) level s else s)"
  by (simp add: crow_stmt_def crow_flush_def fold_crow_insert)

lemma convert_level_value [simp]: "level_value (convert_level l) = crow_level_value l"
  by (cases l) auto

end
