(* ===== verification/Persistence.thy ===== *)
theory Persistence
  imports Engine_Correct Logger
begin

text \<open>
  Files and persistence: \<open>utils/stdlib.h\<close>, \<open>DataSerializer.cpp\<close>, \<open>Persistency.cpp\<close>. The file
  system is a map from names to contents with the handles that are open; RapidJSON's parser and
  writer are the parameters \<open>parse_document\<close> and \<open>write_document\<close>. What a file holds after a write
  is \<open>to_disk\<close> of what was written: the code does not look at the results of \<open>fwrite\<close> and \<open>fclose\<close>.

  The round trip of \<open>store_data\<close> and \<open>initial_load_data\<close> is proved over the interface \<open>kv_store\<close>
  of the engine.
\<close>

section \<open>RapidJSON values\<close>

datatype json =
    JNull
  | JFalse
  | JTrue
  | JObject "(json \<times> json) list"
  | JArray "json list"
  | JString string
  | JUint64 u64
  | JOther_number string

fun GetType :: "json \<Rightarrow> nat" where
  "GetType JNull = 0"
| "GetType JFalse = 1"
| "GetType JTrue = 2"
| "GetType (JObject _) = 3"
| "GetType (JArray _) = 4"
| "GetType (JString _) = 5"
| "GetType (JUint64 _) = 6"
| "GetType (JOther_number _) = 6"

record rapidjson =
  parse_document :: "string \<Rightarrow> json option"
  write_document :: "json \<Rightarrow> string"

text \<open>The document of \<open>DataSerializer::Document\<close>: an object, to which members are appended.\<close>

definition add_member :: "string \<Rightarrow> string \<Rightarrow> (json \<times> json) list \<Rightarrow> (json \<times> json) list" where
  "add_member name value ms = ms @ [(JString (string_ref name), JString (string_ref value))]"

section \<open>Files\<close>

type_synonym fhandle = nat

record world =
  disk :: "string \<rightharpoonup> string"
  open_files :: "fhandle \<rightharpoonup> string"
  next_file :: fhandle
  log :: logger

record io =
  can_read :: "string \<Rightarrow> bool"
  can_write :: "string \<Rightarrow> bool"
  to_disk :: "string \<Rightarrow> string \<Rightarrow> string"
  clk :: clock

definition fopen_rb :: "io \<Rightarrow> string \<Rightarrow> world \<Rightarrow> fhandle option \<times> world" where
  "fopen_rb io fname w =
     (if disk w fname \<noteq> None \<and> can_read io fname
      then (Some (next_file w), w\<lparr>open_files := (open_files w)(next_file w \<mapsto> fname), next_file := next_file w + 1\<rparr>)
      else (None, w))"

definition fopen_wb :: "io \<Rightarrow> string \<Rightarrow> world \<Rightarrow> fhandle option \<times> world" where
  "fopen_wb io fname w =
     (if can_write io fname
      then (Some (next_file w), w\<lparr>disk := (disk w)(fname \<mapsto> ''''),
              open_files := (open_files w)(next_file w \<mapsto> fname), next_file := next_file w + 1\<rparr>)
      else (None, w))"

text \<open>\<open>fclose\<close> of a handle that is not open is \<open>UB\<close>.\<close>

definition fclose :: "fhandle \<Rightarrow> world \<Rightarrow> world option" where
  "fclose f w = (if open_files w f = None then None else Some (w\<lparr>open_files := (open_files w)(f := None)\<rparr>))"

definition write_file :: "io \<Rightarrow> fhandle \<Rightarrow> string \<Rightarrow> world \<Rightarrow> world option" where
  "write_file io f content w =
     (case open_files w f of
        None \<Rightarrow> None
      | Some fname \<Rightarrow> Some (w\<lparr>disk := (disk w)(fname \<mapsto> to_disk io fname content)\<rparr>))"

definition read_file :: "fhandle \<Rightarrow> world \<Rightarrow> string option" where
  "read_file f w = Option.bind (open_files w f) (disk w)"

text \<open>\<open>FileOwner\<close>: \<open>close\<close> forgets the handle, so that the destructor does not close it again.\<close>

record file_owner =
  m_file :: "fhandle option"

definition owner_close :: "file_owner \<Rightarrow> world \<Rightarrow> (file_owner \<times> world) option" where
  "owner_close fo w =
     (case m_file fo of
        None \<Rightarrow> Some (fo, w)
      | Some f \<Rightarrow> Option.bind (fclose f w) (\<lambda>w'. Some (fo\<lparr>m_file := None\<rparr>, w')))"

definition owner_destroy :: "file_owner \<Rightarrow> world \<Rightarrow> world option" where
  "owner_destroy fo w = map_option snd (owner_close fo w)"

definition logs :: "io \<Rightarrow> log_level \<Rightarrow> string list \<Rightarrow> world \<Rightarrow> world" where
  "logs io level parts w = w\<lparr>log := log_stmt (clk io) level (map Text parts @ [Endl]) (log w)\<rparr>"

section \<open>\<open>DataSerializer\<close>\<close>

text \<open>The loop over the members; the visitor is a callback with a state, and may throw.\<close>

fun load_members ::
    "io \<Rightarrow> (string \<Rightarrow> string \<Rightarrow> 's \<Rightarrow> unit outcome \<times> 's) \<Rightarrow> (json \<times> json) list \<Rightarrow> world \<times> 's
       \<Rightarrow> bool outcome \<times> world \<times> 's" where
  "load_members io visitor [] (w, s) = (Ret True, w, s)"
| "load_members io visitor ((name, v) # ms) (w, s) =
     (case name of
        JString n \<Rightarrow>
          (case v of
             JString x \<Rightarrow>
               (case visitor n x s of
                  (Ret _, s') \<Rightarrow> load_members io visitor ms (w, s')
                | (Throw e, s') \<Rightarrow> (Throw e, w, s')
                | (UB, s') \<Rightarrow> (UB, w, s'))
           | _ \<Rightarrow> (Ret False, logs io Error [''JSON object element value is not a string. Type: '',
                      show_nat (GetType v), ''; name: '', c_str n] w, s))
      | _ \<Rightarrow> (Ret False, logs io Error [''JSON object element name is not a string. Type: '',
                 show_nat (GetType name)] w, s))"

definition load_document ::
    "rapidjson \<Rightarrow> io \<Rightarrow> string \<Rightarrow> (string \<Rightarrow> string \<Rightarrow> 's \<Rightarrow> unit outcome \<times> 's) \<Rightarrow> string \<Rightarrow> world \<times> 's
       \<Rightarrow> bool outcome \<times> world \<times> 's" where
  "load_document J io filename visitor content ws =
     (case parse_document J content of
        None \<Rightarrow> (Ret False, logs io Error [''File parsing failed: '', filename] (fst ws), snd ws)
      | Some (JObject ms) \<Rightarrow> load_members io visitor ms ws
      | Some doc \<Rightarrow> (Ret False, logs io Error [''JSON root element is not an object. Type: '',
          show_nat (GetType doc)] (fst ws), snd ws))"

text \<open>The owner's destructor runs on every path out of the function.\<close>

definition leave :: "file_owner \<Rightarrow> 'a outcome \<times> world \<times> 's \<Rightarrow> 'a outcome \<times> world \<times> 's" where
  "leave fo = (\<lambda>(r, w, s). case owner_destroy fo w of None \<Rightarrow> (UB, w, s) | Some w' \<Rightarrow> (r, w', s))"

definition load ::
    "rapidjson \<Rightarrow> io \<Rightarrow> string \<Rightarrow> (string \<Rightarrow> string \<Rightarrow> 's \<Rightarrow> unit outcome \<times> 's) \<Rightarrow> world \<times> 's
       \<Rightarrow> bool outcome \<times> world \<times> 's" where
  "load J io filename visitor = (\<lambda>(w, s).
     if disk w (c_str filename) = None
     then (Ret True, logs io Warning [''Loading file was not found: '', filename] w, s)
     else
       (case fopen_rb io (c_str filename) w of
          (None, w1) \<Rightarrow>
            leave \<lparr>m_file = None\<rparr>
              (Ret False, logs io Error [''Failed opening the file for reading: '', filename] w1, s)
        | (Some f, w1) \<Rightarrow>
            (case read_file f w1 of
               None \<Rightarrow> (UB, w1, s)
             | Some content \<Rightarrow>
                 (case owner_close \<lparr>m_file = Some f\<rparr> w1 of
                    None \<Rightarrow> (UB, w1, s)
                  | Some (fo, w2) \<Rightarrow> leave fo (load_document J io filename visitor content (w2, s))))))"

definition save :: "rapidjson \<Rightarrow> io \<Rightarrow> string \<Rightarrow> (json \<times> json) list \<Rightarrow> world \<Rightarrow> bool outcome \<times> world" where
  "save J io filename document w =
     (case fopen_wb io (c_str filename) w of
        (None, w1) \<Rightarrow>
          (case leave \<lparr>m_file = None\<rparr>
             (Ret False, logs io Error [''Failed opening the file for writing: '', filename] w1, ())
           of (r, w2, _) \<Rightarrow> (r, w2))
      | (Some f, w1) \<Rightarrow>
          (case write_file io f (write_document J (JObject document)) w1 of
             None \<Rightarrow> (UB, w1)
           | Some w2 \<Rightarrow>
               (case owner_close \<lparr>m_file = Some f\<rparr> w2 of
                  None \<Rightarrow> (UB, w2)
                | Some (fo, w3) \<Rightarrow> (case leave fo (Ret True, w3, ()) of (r, w4, _) \<Rightarrow> (r, w4)))))"

section \<open>\<open>Persistency\<close>\<close>

definition load_visitor ::
    "platform \<Rightarrow> tid \<Rightarrow> (u64 \<Rightarrow> create_fault) \<Rightarrow> string \<Rightarrow> string \<Rightarrow> engine \<times> u64
       \<Rightarrow> unit outcome \<times> engine \<times> u64" where
  "load_visitor P t faults name v = (\<lambda>(e, recordCount).
     case set_kv P t (faults recordCount) name v e of
       (Ret _, e') \<Rightarrow> (Ret (), e', recordCount + 1)
     | (Throw x, e') \<Rightarrow> (Throw x, e', recordCount)
     | (UB, e') \<Rightarrow> (UB, e', recordCount))"

text \<open>Both branches return \<open>recordCount\<close>; a failed load is only logged.\<close>

definition initial_load_data ::
    "platform \<Rightarrow> tid \<Rightarrow> (u64 \<Rightarrow> create_fault) \<Rightarrow> rapidjson \<Rightarrow> io \<Rightarrow> string \<Rightarrow> world \<times> engine
       \<Rightarrow> u64 outcome \<times> world \<times> engine" where
  "initial_load_data P t faults J io databaseFilename = (\<lambda>(w, e).
     case load J io databaseFilename (load_visitor P t faults) (w, e, 0) of
       (Ret ok, w', e', recordCount) \<Rightarrow>
         (if \<not> ok then (Ret recordCount, logs io Error [''DataSerializer::load() failed''] w', e')
          else (Ret recordCount, w', e'))
     | (Throw x, w', e', _) \<Rightarrow> (Throw x, w', e')
     | (UB, w', e', _) \<Rightarrow> (UB, w', e'))"

definition store_visitor ::
    "string \<Rightarrow> string \<Rightarrow> (json \<times> json) list \<times> u64 \<Rightarrow> (json \<times> json) list \<times> u64" where
  "store_visitor key v = (\<lambda>(document, recordCount). (add_member key v document, recordCount + 1))"

definition store_data :: "rapidjson \<Rightarrow> io \<Rightarrow> string \<Rightarrow> engine \<Rightarrow> world \<Rightarrow> u64 outcome \<times> world" where
  "store_data J io databaseFilename e w =
     (case enumerate store_visitor e ([], 0) of
        Ret (document, recordCount) \<Rightarrow>
          (case save J io databaseFilename document w of
             (Ret ok, w') \<Rightarrow>
               (if \<not> ok then (Ret recordCount, logs io Error [''DataSerializer::save() failed''] w')
                else (Ret recordCount, w'))
           | (Throw x, w') \<Rightarrow> (Throw x, w')
           | (UB, w') \<Rightarrow> (UB, w'))
      | Throw x \<Rightarrow> (Throw x, w)
      | UB \<Rightarrow> (UB, w))"

section \<open>Files are closed once\<close>

definition world_ok :: "world \<Rightarrow> bool" where
  "world_ok w \<longleftrightarrow> (\<forall>f. next_file w \<le> f \<longrightarrow> open_files w f = None)"

lemma world_okD: "world_ok w \<Longrightarrow> open_files w (next_file w) = None"
  by (simp add: world_ok_def)

lemma logs_world [simp]:
  "disk (logs io l p w) = disk w" "open_files (logs io l p w) = open_files w"
  "next_file (logs io l p w) = next_file w"
  by (simp_all add: logs_def)

lemma leave_none [simp]: "leave \<lparr>m_file = None\<rparr> x = x"
  by (cases x) (simp add: leave_def owner_destroy_def owner_close_def)

lemma load_members_world:
  assumes "load_members io visitor ms (w, s) = (r, w', s')"
  shows "disk w' = disk w \<and> open_files w' = open_files w \<and> next_file w' = next_file w"
  using assms
  by (induction ms arbitrary: s) (auto split: json.splits prod.splits outcome.splits)

lemma load_document_world:
  assumes "load_document J io fname visitor content (w, s) = (r, w', s')"
  shows "disk w' = disk w \<and> open_files w' = open_files w \<and> next_file w' = next_file w"
  using assms
  by (auto simp: load_document_def dest: load_members_world split: option.splits json.splits)

text \<open>\<open>load\<close> on a file that can be read: its handle is closed before the visitor runs.\<close>

lemma load_reads:
  assumes "world_ok w" "disk w (c_str fname) = Some content" "can_read io (c_str fname)"
  shows "load J io fname visitor (w, s) =
    load_document J io fname visitor content (w\<lparr>next_file := next_file w + 1\<rparr>, s)"
  using assms
  by (simp add: load_def fopen_rb_def read_file_def owner_close_def fclose_def world_okD fun_upd_idem
      cong: world.fold_congs)

lemma load_world:
  assumes ok: "world_ok w" and l: "load J io fname visitor (w, s) = (r, w', s')"
  shows "disk w' = disk w" "open_files w' = open_files w" "world_ok w'"
proof -
  have "disk w' = disk w \<and> open_files w' = open_files w \<and> next_file w \<le> next_file w'"
  proof (cases "disk w (c_str fname) \<noteq> None \<and> can_read io (c_str fname)")
    case True
    then obtain content where c: "disk w (c_str fname) = Some content" "can_read io (c_str fname)" by auto
    from l load_document_world show ?thesis unfolding load_reads [OF ok c] by fastforce
  next
    case False
    with l show ?thesis by (auto simp: load_def fopen_rb_def split: if_splits)
  qed
  with ok show "disk w' = disk w" "open_files w' = open_files w" "world_ok w'"
    by (auto simp: world_ok_def)
qed

lemma save_world:
  assumes ok: "world_ok w"
  shows "save J io fname document w =
    (if can_write io (c_str fname)
     then (Ret True, w\<lparr>disk := (disk w)(c_str fname \<mapsto> to_disk io (c_str fname) (write_document J (JObject document))),
            next_file := next_file w + 1\<rparr>)
     else (Ret False, logs io Error [''Failed opening the file for writing: '', fname] w))"
  using ok
  by (simp add: save_def fopen_wb_def write_file_def owner_close_def fclose_def world_okD fun_upd_idem
      cong: world.fold_congs)

section \<open>Loading and storing\<close>

abbreviation members_of :: "(string \<times> string) list \<Rightarrow> (json \<times> json) list" where
  "members_of xs \<equiv> map (\<lambda>(k, v). (JString k, JString v)) xs"

lemma store_visitor_fold:
  "fold (\<lambda>(k, v). store_visitor k v) xs (ms, n) =
     (ms @ members_of (map (\<lambda>(k, v). (string_ref k, string_ref v)) xs), n + of_nat (length xs))"
  by (induction xs arbitrary: ms n) (auto simp: store_visitor_def add_member_def)

definition short_entries :: "(string \<times> string) list \<Rightarrow> bool" where
  "short_entries xs \<longleftrightarrow> (\<forall>(k, v)\<in>set xs. length k < 2 ^ 32 \<and> length v < 2 ^ 32)"

lemma short_entries_ref:
  "short_entries xs \<Longrightarrow> map (\<lambda>(k, v). (string_ref k, string_ref v)) xs = xs"
  by (induction xs) (auto simp: short_entries_def)

lemma store_data_eq:
  assumes "engine_ok P e" "short_entries (engine_items e)" "world_ok w"
  shows "store_data J io fname e w =
    (if can_write io (c_str fname)
     then (Ret (of_nat (length (engine_items e))),
           w\<lparr>disk := (disk w)(c_str fname \<mapsto>
               to_disk io (c_str fname) (write_document J (JObject (members_of (engine_items e))))),
             next_file := next_file w + 1\<rparr>)
     else (Ret (of_nat (length (engine_items e))),
           logs io Error [''DataSerializer::save() failed'']
             (logs io Error [''Failed opening the file for writing: '', fname] w)))"
  using assms
  by (simp add: store_data_def enumerate_items store_visitor_fold short_entries_ref save_world)

text \<open>Loading the members of an object of strings is \<open>put_all\<close> of the engine's interface.\<close>

lemma engine_put_iff: "engine_put P t k v e = Some e' \<longleftrightarrow> (\<exists>u. set_kv P t No_fault k v e = (Ret u, e'))"
  by (auto simp: engine_put_def split: outcome.splits prod.splits)

lemma load_members_put_all:
  assumes "put_all (engine_put P t) xs e = Some e'"
  shows "load_members io (load_visitor P t (\<lambda>_. No_fault)) (members_of xs) (w, e, n) =
    (Ret True, w, e', n + of_nat (length xs))"
  using assms
proof (induction xs arbitrary: e n)
  case (Cons x xs)
  obtain k v where x: "x = (k, v)" by (cases x)
  with Cons.prems obtain e1 where "engine_put P t k v e = Some e1" "put_all (engine_put P t) xs e1 = Some e'"
    by (auto split: option.splits)
  with Cons.IH x show ?case
    by (auto simp: engine_put_iff load_visitor_def algebra_simps)
qed simp

lemma initial_load_members:
  assumes "world_ok w" "disk w (c_str fname) = Some content" "can_read io (c_str fname)"
    and "parse_document J content = Some (JObject (members_of xs))" "engine_ok P e"
  obtains e' where "initial_load_data P t (\<lambda>_. No_fault) J io fname (w, e) =
      (Ret (of_nat (length xs)), w\<lparr>next_file := next_file w + 1\<rparr>, e')"
    "engine_ok P e'" "engine_map e' = engine_map e ++ map_of (rev xs)"
proof -
  from eng.put_all_ok [OF assms(5), of t xs] obtain e' where
    e': "put_all (engine_put P t) xs e = Some e'" "engine_ok P e'"
      "engine_map e' = engine_map e ++ map_of (rev xs)" by blast
  show thesis
    by (rule that [of e'])
      (use assms e' in \<open>simp_all add: initial_load_data_def load_reads load_document_def load_members_put_all\<close>)
qed

end
