(* ===== verification/Common.thy ===== *)
theory Common
  imports Prelude
begin

text \<open>
  Crow's \<open>common.h\<close> and the compile-time string helpers of \<open>utility.h\<close> that it uses: the HTTP
  methods and their names, the status codes, the parameter types of a route and the parameters a
  route extracts from a URL.
\<close>

section \<open>Literals\<close>

text \<open>
  A C string is read up to its NUL; \<open>at s i\<close> is the byte at \<open>s[i]\<close>, with the terminator behind the
  last one, and \<open>None\<close> outside.
\<close>

definition at :: "string \<Rightarrow> nat \<Rightarrow> char option" where
  "at s i = (if i < length s then Some (s ! i) else if i = length s then Some CHR 0x00 else None)"

text \<open>\<open>black_magic::is_equ_p\<close>, which walks both strings; \<open>None\<close> is a read behind a terminator.\<close>

fun is_equ_p :: "string \<Rightarrow> string \<Rightarrow> nat \<Rightarrow> bool" where
  "is_equ_p [] [] 0 = True"
| "is_equ_p [] b n = False"
| "is_equ_p a [] n = False"
| "is_equ_p (x # a) (y # b) 0 = True"
| "is_equ_p (x # a) (y # b) (Suc n) = (if x \<noteq> y then False else is_equ_p a b n)"

section \<open>Methods\<close>

datatype http_method =
    M_Delete | M_Get | M_Head | M_Post | M_Put | M_Connect | M_Options | M_Trace | M_Patch |
    M_Purge | M_Copy | M_Lock | M_MkCol | M_Move | M_Propfind | M_Proppatch | M_Search |
    M_Unlock | M_Bind | M_Rebind | M_Unbind | M_Acl | M_Report | M_MkActivity | M_Checkout |
    M_Merge | M_MSearch | M_Notify | M_Subscribe | M_Unsubscribe | M_MkCalendar | M_Link |
    M_Unlink | M_Source

definition all_methods :: "http_method list" where
  "all_methods =
     [M_Delete, M_Get, M_Head, M_Post, M_Put, M_Connect, M_Options, M_Trace, M_Patch, M_Purge,
      M_Copy, M_Lock, M_MkCol, M_Move, M_Propfind, M_Proppatch, M_Search, M_Unlock, M_Bind,
      M_Rebind, M_Unbind, M_Acl, M_Report, M_MkActivity, M_Checkout, M_Merge, M_MSearch,
      M_Notify, M_Subscribe, M_Unsubscribe, M_MkCalendar, M_Link, M_Unlink, M_Source]"

fun method_value :: "http_method \<Rightarrow> nat" where
  "method_value M_Delete = 0"
| "method_value M_Get = 1"
| "method_value M_Head = 2"
| "method_value M_Post = 3"
| "method_value M_Put = 4"
| "method_value M_Connect = 5"
| "method_value M_Options = 6"
| "method_value M_Trace = 7"
| "method_value M_Patch = 8"
| "method_value M_Purge = 9"
| "method_value M_Copy = 10"
| "method_value M_Lock = 11"
| "method_value M_MkCol = 12"
| "method_value M_Move = 13"
| "method_value M_Propfind = 14"
| "method_value M_Proppatch = 15"
| "method_value M_Search = 16"
| "method_value M_Unlock = 17"
| "method_value M_Bind = 18"
| "method_value M_Rebind = 19"
| "method_value M_Unbind = 20"
| "method_value M_Acl = 21"
| "method_value M_Report = 22"
| "method_value M_MkActivity = 23"
| "method_value M_Checkout = 24"
| "method_value M_Merge = 25"
| "method_value M_MSearch = 26"
| "method_value M_Notify = 27"
| "method_value M_Subscribe = 28"
| "method_value M_Unsubscribe = 29"
| "method_value M_MkCalendar = 30"
| "method_value M_Link = 31"
| "method_value M_Unlink = 32"
| "method_value M_Source = 33"

abbreviation InternalMethodCount :: nat where
  "InternalMethodCount \<equiv> 34"

definition method_strings :: "string list" where
  "method_strings =
     [''DELETE'', ''GET'', ''HEAD'', ''POST'', ''PUT'', ''CONNECT'', ''OPTIONS'', ''TRACE'',
      ''PATCH'', ''PURGE'', ''COPY'', ''LOCK'', ''MKCOL'', ''MOVE'', ''PROPFIND'',
      ''PROPPATCH'', ''SEARCH'', ''UNLOCK'', ''BIND'', ''REBIND'', ''UNBIND'', ''ACL'',
      ''REPORT'', ''MKACTIVITY'', ''CHECKOUT'', ''MERGE'', ''M-SEARCH'', ''NOTIFY'',
      ''SUBSCRIBE'', ''UNSUBSCRIBE'', ''MKCALENDAR'', ''LINK'', ''UNLINK'', ''SOURCE'']"

text \<open>The enum is a \<open>char\<close>; a value from \<open>InternalMethodCount\<close> on is not a method.\<close>

definition method_name_value :: "nat \<Rightarrow> string" where
  "method_name_value m = (if m < InternalMethodCount then method_strings ! m else ''invalid'')"

definition method_name :: "http_method \<Rightarrow> string" where
  "method_name m = method_name_value (method_value m)"

definition method_table :: "(string \<times> nat \<times> http_method) list" where
  "method_table =
     [(''GET'', 3, M_Get), (''DELETE'', 6, M_Delete), (''HEAD'', 4, M_Head),
      (''POST'', 4, M_Post), (''PUT'', 3, M_Put), (''OPTIONS'', 7, M_Options),
      (''CONNECT'', 7, M_Connect), (''TRACE'', 5, M_Trace), (''PATCH'', 5, M_Patch),
      (''PURGE'', 5, M_Purge), (''COPY'', 4, M_Copy), (''LOCK'', 4, M_Lock),
      (''MKCOL'', 5, M_MkCol), (''MOVE'', 4, M_Move), (''PROPFIND'', 8, M_Propfind),
      (''PROPPATCH'', 9, M_Proppatch), (''SEARCH'', 6, M_Search), (''UNLOCK'', 6, M_Unlock),
      (''BIND'', 4, M_Bind), (''REBIND'', 6, M_Rebind), (''UNBIND'', 6, M_Unbind),
      (''ACL'', 3, M_Acl), (''REPORT'', 6, M_Report), (''MKACTIVITY'', 10, M_MkActivity),
      (''CHECKOUT'', 8, M_Checkout), (''MERGE'', 5, M_Merge), (''MSEARCH'', 7, M_MSearch),
      (''NOTIFY'', 6, M_Notify), (''SUBSCRIBE'', 9, M_Subscribe),
      (''UNSUBSCRIBE'', 11, M_Unsubscribe), (''MKCALENDAR'', 10, M_MkCalendar),
      (''LINK'', 4, M_Link), (''UNLINK'', 6, M_Unlink), (''SOURCE'', 6, M_Source)]"

text \<open>The nested conditional of \<open>method_from_string\<close>: the first literal that matches wins.\<close>

fun first_method :: "string \<Rightarrow> (string \<times> nat \<times> http_method) list \<Rightarrow> http_method outcome" where
  "first_method str [] = Throw (Runtime_error ''invalid http method'')"
| "first_method str ((lit, n, m) # rest) = (if is_equ_p str lit n then Ret m else first_method str rest)"

definition method_from_string :: "string \<Rightarrow> http_method outcome" where
  "method_from_string str = first_method (c_str str) method_table"

section \<open>Status codes\<close>

datatype status =
    ST_CONTINUE | ST_SWITCHING_PROTOCOLS | ST_OK | ST_CREATED | ST_ACCEPTED |
    ST_NON_AUTHORITATIVE_INFORMATION | ST_NO_CONTENT | ST_RESET_CONTENT | ST_PARTIAL_CONTENT |
    ST_MULTIPLE_CHOICES | ST_MOVED_PERMANENTLY | ST_FOUND | ST_SEE_OTHER | ST_NOT_MODIFIED |
    ST_TEMPORARY_REDIRECT | ST_PERMANENT_REDIRECT | ST_BAD_REQUEST | ST_UNAUTHORIZED |
    ST_FORBIDDEN | ST_NOT_FOUND | ST_METHOD_NOT_ALLOWED | ST_PROXY_AUTHENTICATION_REQUIRED |
    ST_CONFLICT | ST_GONE | ST_PAYLOAD_TOO_LARGE | ST_UNSUPPORTED_MEDIA_TYPE |
    ST_RANGE_NOT_SATISFIABLE | ST_EXPECTATION_FAILED | ST_PRECONDITION_REQUIRED |
    ST_TOO_MANY_REQUESTS | ST_UNAVAILABLE_FOR_LEGAL_REASONS | ST_INTERNAL_SERVER_ERROR |
    ST_NOT_IMPLEMENTED | ST_BAD_GATEWAY | ST_SERVICE_UNAVAILABLE | ST_GATEWAY_TIMEOUT |
    ST_VARIANT_ALSO_NEGOTIATES

fun status_code :: "status \<Rightarrow> int" where
  "status_code ST_CONTINUE = 100"
| "status_code ST_SWITCHING_PROTOCOLS = 101"
| "status_code ST_OK = 200"
| "status_code ST_CREATED = 201"
| "status_code ST_ACCEPTED = 202"
| "status_code ST_NON_AUTHORITATIVE_INFORMATION = 203"
| "status_code ST_NO_CONTENT = 204"
| "status_code ST_RESET_CONTENT = 205"
| "status_code ST_PARTIAL_CONTENT = 206"
| "status_code ST_MULTIPLE_CHOICES = 300"
| "status_code ST_MOVED_PERMANENTLY = 301"
| "status_code ST_FOUND = 302"
| "status_code ST_SEE_OTHER = 303"
| "status_code ST_NOT_MODIFIED = 304"
| "status_code ST_TEMPORARY_REDIRECT = 307"
| "status_code ST_PERMANENT_REDIRECT = 308"
| "status_code ST_BAD_REQUEST = 400"
| "status_code ST_UNAUTHORIZED = 401"
| "status_code ST_FORBIDDEN = 403"
| "status_code ST_NOT_FOUND = 404"
| "status_code ST_METHOD_NOT_ALLOWED = 405"
| "status_code ST_PROXY_AUTHENTICATION_REQUIRED = 407"
| "status_code ST_CONFLICT = 409"
| "status_code ST_GONE = 410"
| "status_code ST_PAYLOAD_TOO_LARGE = 413"
| "status_code ST_UNSUPPORTED_MEDIA_TYPE = 415"
| "status_code ST_RANGE_NOT_SATISFIABLE = 416"
| "status_code ST_EXPECTATION_FAILED = 417"
| "status_code ST_PRECONDITION_REQUIRED = 428"
| "status_code ST_TOO_MANY_REQUESTS = 429"
| "status_code ST_UNAVAILABLE_FOR_LEGAL_REASONS = 451"
| "status_code ST_INTERNAL_SERVER_ERROR = 500"
| "status_code ST_NOT_IMPLEMENTED = 501"
| "status_code ST_BAD_GATEWAY = 502"
| "status_code ST_SERVICE_UNAVAILABLE = 503"
| "status_code ST_GATEWAY_TIMEOUT = 504"
| "status_code ST_VARIANT_ALSO_NEGOTIATES = 506"

section \<open>Route parameters\<close>

datatype param_type = P_INT | P_UINT | P_DOUBLE | P_STRING | P_PATH

fun param_value :: "param_type \<Rightarrow> nat" where
  "param_value P_INT = 0"
| "param_value P_UINT = 1"
| "param_value P_DOUBLE = 2"
| "param_value P_STRING = 3"
| "param_value P_PATH = 4"

text \<open>A \<open>double\<close> is opaque: the type is a parameter of the model.\<close>

record 'd routing_params =
  int_params :: "64 word list"
  uint_params :: "64 word list"
  double_params :: "'d list"
  string_params :: "string list"

definition no_params :: "'d routing_params" where
  "no_params = \<lparr>int_params = [], uint_params = [], double_params = [], string_params = []\<rparr>"

text \<open>\<open>routing_params::get\<close>: an index of a \<open>std::vector\<close> out of its range is \<open>UB\<close>.\<close>

definition get_index :: "'a list \<Rightarrow> nat \<Rightarrow> 'a outcome" where
  "get_index xs i = (if i < length xs then Ret (xs ! i) else UB)"

definition get_int :: "'d routing_params \<Rightarrow> nat \<Rightarrow> 64 word outcome" where
  "get_int p index = get_index (int_params p) index"

definition get_uint :: "'d routing_params \<Rightarrow> nat \<Rightarrow> 64 word outcome" where
  "get_uint p index = get_index (uint_params p) index"

definition get_double :: "'d routing_params \<Rightarrow> nat \<Rightarrow> 'd outcome" where
  "get_double p index = get_index (double_params p) index"

definition get_string :: "'d routing_params \<Rightarrow> nat \<Rightarrow> string outcome" where
  "get_string p index = get_index (string_params p) index"

section \<open>Lemmas\<close>

lemma is_equ_p_iff: "n = length b \<Longrightarrow> is_equ_p a b n \<longleftrightarrow> a = b"
proof (induction b arbitrary: a n)
  case Nil
  then show ?case by (cases a) auto
next
  case (Cons y b)
  then show ?case by (cases a) auto
qed

lemma method_value_less: "method_value m < InternalMethodCount"
  by (cases m) simp_all

lemma method_value_all: "all_methods ! method_value m = m"
  by (cases m) (simp_all add: all_methods_def)

lemma method_value_inj: "method_value a = method_value b \<Longrightarrow> a = b"
  by (metis method_value_all)

instantiation http_method :: linorder
begin

definition less_eq_http_method :: "http_method \<Rightarrow> http_method \<Rightarrow> bool" where
  "less_eq_http_method a b \<longleftrightarrow> method_value a \<le> method_value b"

definition less_http_method :: "http_method \<Rightarrow> http_method \<Rightarrow> bool" where
  "less_http_method a b \<longleftrightarrow> method_value a < method_value b"

instance
  by standard (auto simp: less_eq_http_method_def less_http_method_def method_value_inj)

end

text \<open>
  The names are read back, with one exception: the table spells \<open>M-SEARCH\<close> with a hyphen and
  \<open>method_from_string\<close> without.
\<close>

lemma first_method_lookup:
  assumes "\<And>lit n m. (lit, n, m) \<in> set tab \<Longrightarrow> n = length lit"
  shows "first_method str tab =
    (case map_of (map (\<lambda>(lit, n, m). (lit, m)) tab) str of
       None \<Rightarrow> Throw (Runtime_error ''invalid http method'') | Some m \<Rightarrow> Ret m)"
  using assms
proof (induction tab)
  case (Cons x tab)
  obtain lit n m where x: "x = (lit, n, m)" by (cases x)
  have "n = length lit" using Cons.prems [of lit n m] x by simp
  then have "is_equ_p str lit n \<longleftrightarrow> str = lit" by (rule is_equ_p_iff)
  with Cons x show ?case by auto
qed simp

lemma method_table_lengths: "(lit, n, m) \<in> set method_table \<Longrightarrow> n = length lit"
  by (auto simp: method_table_def)

end
