(* ===== verification/Http_Message.thy ===== *)
theory Http_Message
  imports Common Logger
begin

text \<open>
  Requests and responses: \<open>ci_map.h\<close>, \<open>mime_types.h\<close>, \<open>http_request.h\<close>, \<open>http_response.h\<close>.
  A \<open>ci_map\<close> is a multimap whose keys are compared without case; it is a list of its entries in
  the order of insertion (the standard does not fix the order of a container's entries). Calling
  a handler that a response carries is recorded in \<open>sent\<close>.
\<close>

section \<open>\<open>ci_map\<close>\<close>

definition to_upper :: "char \<Rightarrow> char" where
  "to_upper c = (if 97 \<le> (of_char c :: nat) \<and> (of_char c :: nat) \<le> 122 then char_of ((of_char c :: nat) - 32) else c)"

definition to_lower :: "char \<Rightarrow> char" where
  "to_lower c = (if 65 \<le> (of_char c :: nat) \<and> (of_char c :: nat) \<le> 90 then char_of ((of_char c :: nat) + 32) else c)"

text \<open>\<open>boost::iequals\<close>, and the hash that has to agree with it: a fold over the upper-cased bytes.\<close>

definition ci_key_eq :: "string \<Rightarrow> string \<Rightarrow> bool" where
  "ci_key_eq l r \<longleftrightarrow> list_all2 (\<lambda>a b. to_upper a = to_upper b) l r"

definition ci_hash :: "(u64 \<Rightarrow> char \<Rightarrow> u64) \<Rightarrow> string \<Rightarrow> u64" where
  "ci_hash hash_combine key = foldl (\<lambda>seed c. hash_combine seed (to_upper c)) 0 key"

type_synonym ci_map = "(string \<times> string) list"

definition ci_emplace :: "string \<Rightarrow> string \<Rightarrow> ci_map \<Rightarrow> ci_map" where
  "ci_emplace key v m = m @ [(key, v)]"

definition ci_erase :: "string \<Rightarrow> ci_map \<Rightarrow> ci_map" where
  "ci_erase key m = filter (\<lambda>e. \<not> ci_key_eq (fst e) key) m"

definition ci_count :: "string \<Rightarrow> ci_map \<Rightarrow> nat" where
  "ci_count key m = length (filter (\<lambda>e. ci_key_eq (fst e) key) m)"

definition ci_find :: "string \<Rightarrow> ci_map \<Rightarrow> (string \<times> string) option" where
  "ci_find key m = List.find (\<lambda>e. ci_key_eq (fst e) key) m"

definition get_header_value :: "ci_map \<Rightarrow> string \<Rightarrow> string" where
  "get_header_value headers key =
     (if ci_count key headers > 0 then (case ci_find key headers of Some e \<Rightarrow> snd e | None \<Rightarrow> '''') else '''')"

section \<open>Requests\<close>

record ('q, 'io) request =
  req_method :: http_method
  raw_url :: string
  url :: string
  url_params :: 'q
  req_headers :: ci_map
  req_body :: string
  remote_ip_address :: string
  http_ver_major :: u8
  http_ver_minor :: u8
  keep_alive :: bool
  close_connection :: bool
  req_upgrade :: bool
  middleware_context :: "nat option"
  io_service :: 'io

text \<open>The two constructors; \<open>params\<close> is the default-constructed \<open>query_string\<close>.\<close>

definition empty_request :: "'q \<Rightarrow> 'io \<Rightarrow> ('q, 'io) request" where
  "empty_request params service =
     \<lparr>req_method = M_Get, raw_url = [], url = [], url_params = params, req_headers = [], req_body = [],
      remote_ip_address = [], http_ver_major = 0, http_ver_minor = 0, keep_alive = False,
      close_connection = False, req_upgrade = False, middleware_context = None, io_service = service\<rparr>"

definition make_request ::
    "http_method \<Rightarrow> string \<Rightarrow> string \<Rightarrow> 'q \<Rightarrow> ci_map \<Rightarrow> string \<Rightarrow> u8 \<Rightarrow> u8 \<Rightarrow> bool \<Rightarrow> bool \<Rightarrow> bool
       \<Rightarrow> 'io \<Rightarrow> ('q, 'io) request" where
  "make_request m raw u params hs b major minor has_keep_alive has_close_connection is_upgrade service =
     \<lparr>req_method = m, raw_url = raw, url = u, url_params = params, req_headers = hs, req_body = b,
      remote_ip_address = [], http_ver_major = major, http_ver_minor = minor,
      keep_alive = has_keep_alive, close_connection = has_close_connection, req_upgrade = is_upgrade,
      middleware_context = None, io_service = service\<rparr>"

definition add_header :: "string \<Rightarrow> string \<Rightarrow> ('q, 'io) request \<Rightarrow> ('q, 'io) request" where
  "add_header key v r = r\<lparr>req_headers := ci_emplace key v (req_headers r)\<rparr>"

definition check_version :: "u8 \<Rightarrow> u8 \<Rightarrow> ('q, 'io) request \<Rightarrow> bool" where
  "check_version major minor r \<longleftrightarrow> http_ver_major r = major \<and> http_ver_minor r = minor"

section \<open>Responses\<close>

definition mime_types :: "(string \<times> string) list" where
  "mime_types =
     [(''shtml'', ''text/html''), (''htm'', ''text/html''), (''html'', ''text/html''),
      (''css'', ''text/css''), (''xml'', ''text/xml''), (''gif'', ''image/gif''),
      (''jpg'', ''image/jpeg''), (''jpeg'', ''image/jpeg''), (''js'', ''application/javascript''),
      (''atom'', ''application/atom+xml''), (''rss'', ''application/rss+xml''),
      (''mml'', ''text/mathml''), (''txt'', ''text/plain''),
      (''jad'', ''text/vnd.sun.j2me.app-descriptor''), (''wml'', ''text/vnd.wap.wml''),
      (''htc'', ''text/x-component''), (''avif'', ''image/avif''), (''png'', ''image/png''),
      (''svgz'', ''image/svg+xml''), (''svg'', ''image/svg+xml''), (''tiff'', ''image/tiff''),
      (''tif'', ''image/tiff''), (''wbmp'', ''image/vnd.wap.wbmp''), (''webp'', ''image/webp''),
      (''ico'', ''image/x-icon''), (''jng'', ''image/x-jng''), (''bmp'', ''image/x-ms-bmp''),
      (''woff'', ''font/woff''), (''woff2'', ''font/woff2''),
      (''ear'', ''application/java-archive''), (''war'', ''application/java-archive''),
      (''jar'', ''application/java-archive''), (''json'', ''application/json''),
      (''hqx'', ''application/mac-binhex40''), (''doc'', ''application/msword''),
      (''pdf'', ''application/pdf''), (''ai'', ''application/postscript''),
      (''eps'', ''application/postscript''), (''ps'', ''application/postscript''),
      (''rtf'', ''application/rtf''), (''m3u8'', ''application/vnd.apple.mpegurl''),
      (''kml'', ''application/vnd.google-earth.kml+xml''),
      (''kmz'', ''application/vnd.google-earth.kmz''), (''xls'', ''application/vnd.ms-excel''),
      (''eot'', ''application/vnd.ms-fontobject''), (''ppt'', ''application/vnd.ms-powerpoint''),
      (''odg'', ''application/vnd.oasis.opendocument.graphics''),
      (''odp'', ''application/vnd.oasis.opendocument.presentation''),
      (''ods'', ''application/vnd.oasis.opendocument.spreadsheet''),
      (''odt'', ''application/vnd.oasis.opendocument.text''),
      (''pptx'', ''application/vnd.openxmlformats-officedocument.presentationml.presentation''),
      (''xlsx'', ''application/vnd.openxmlformats-officedocument.spreadsheetml.sheet''),
      (''docx'', ''application/vnd.openxmlformats-officedocument.wordprocessingml.document''),
      (''wmlc'', ''application/vnd.wap.wmlc''), (''wasm'', ''application/wasm''),
      (''7z'', ''application/x-7z-compressed''), (''cco'', ''application/x-cocoa''),
      (''jardiff'', ''application/x-java-archive-diff''),
      (''jnlp'', ''application/x-java-jnlp-file''), (''run'', ''application/x-makeself''),
      (''pm'', ''application/x-perl''), (''pl'', ''application/x-perl''),
      (''pdb'', ''application/x-pilot''), (''prc'', ''application/x-pilot''),
      (''rar'', ''application/x-rar-compressed''),
      (''rpm'', ''application/x-redhat-package-manager''), (''sea'', ''application/x-sea''),
      (''swf'', ''application/x-shockwave-flash''), (''sit'', ''application/x-stuffit''),
      (''tk'', ''application/x-tcl''), (''tcl'', ''application/x-tcl''),
      (''crt'', ''application/x-x509-ca-cert''), (''pem'', ''application/x-x509-ca-cert''),
      (''der'', ''application/x-x509-ca-cert''), (''xpi'', ''application/x-xpinstall''),
      (''xhtml'', ''application/xhtml+xml''), (''xspf'', ''application/xspf+xml''),
      (''zip'', ''application/zip''), (''dll'', ''application/octet-stream''),
      (''exe'', ''application/octet-stream''), (''bin'', ''application/octet-stream''),
      (''deb'', ''application/octet-stream''), (''dmg'', ''application/octet-stream''),
      (''img'', ''application/octet-stream''), (''iso'', ''application/octet-stream''),
      (''msm'', ''application/octet-stream''), (''msp'', ''application/octet-stream''),
      (''msi'', ''application/octet-stream''), (''kar'', ''audio/midi''),
      (''midi'', ''audio/midi''), (''mid'', ''audio/midi''), (''mp3'', ''audio/mpeg''),
      (''ogg'', ''audio/ogg''), (''m4a'', ''audio/x-m4a''), (''ra'', ''audio/x-realaudio''),
      (''3gp'', ''video/3gpp''), (''3gpp'', ''video/3gpp''), (''ts'', ''video/mp2t''),
      (''mp4'', ''video/mp4''), (''mpg'', ''video/mpeg''), (''mpeg'', ''video/mpeg''),
      (''mov'', ''video/quicktime''), (''webm'', ''video/webm''), (''flv'', ''video/x-flv''),
      (''m4v'', ''video/x-m4v''), (''mng'', ''video/x-mng''), (''asf'', ''video/x-ms-asf''),
      (''asx'', ''video/x-ms-asf''), (''wmv'', ''video/x-ms-wmv''), (''avi'', ''video/x-msvideo'')]"

text \<open>\<open>unordered_map::at\<close> throws; the first of two entries with one key is the one in the map.\<close>

definition mime_at :: "string \<Rightarrow> string outcome" where
  "mime_at ext = (case map_of mime_types ext of None \<Rightarrow> Throw Out_of_range | Some t \<Rightarrow> Ret t)"

record static_file_info =
  sf_path :: string
  sf_size :: nat
  statResult :: int

record response =
  code :: int
  body :: string
  headers :: ci_map
  skip_body :: bool
  manual_length_header :: bool
  completed :: bool
  complete_handler :: bool
  file_info :: static_file_info
  sent :: nat

definition no_file :: static_file_info where
  "no_file = \<lparr>sf_path = [], sf_size = 0, statResult = 0\<rparr>"

definition new_response :: "response" where
  "new_response =
     \<lparr>code = 200, body = [], headers = [], skip_body = False, manual_length_header = False,
      completed = False, complete_handler = False, file_info = no_file, sent = 0\<rparr>"

definition response_code :: "int \<Rightarrow> response" where
  "response_code c = new_response\<lparr>code := c\<rparr>"

definition response_body :: "string \<Rightarrow> response" where
  "response_body b = new_response\<lparr>body := b\<rparr>"

definition response_code_body :: "int \<Rightarrow> string \<Rightarrow> response" where
  "response_code_body c b = new_response\<lparr>code := c, body := b\<rparr>"

definition set_header :: "string \<Rightarrow> string \<Rightarrow> response \<Rightarrow> response" where
  "set_header key v r = r\<lparr>headers := ci_emplace key v (ci_erase key (headers r))\<rparr>"

definition add_response_header :: "string \<Rightarrow> string \<Rightarrow> response \<Rightarrow> response" where
  "add_response_header key v r = r\<lparr>headers := ci_emplace key v (headers r)\<rparr>"

text \<open>The constructors from a \<open>returnable\<close>: its \<open>dump\<close> and its content type.\<close>

definition response_returnable :: "int \<Rightarrow> string outcome \<Rightarrow> string \<Rightarrow> response outcome" where
  "response_returnable c dump content_type =
     bind_outcome dump (\<lambda>b. Ret (set_header ''Content-Type'' content_type (new_response\<lparr>code := c, body := b\<rparr>)))"

definition response_typed :: "int \<Rightarrow> string \<Rightarrow> string \<Rightarrow> response outcome" where
  "response_typed c contentType b =
     bind_outcome (mime_at contentType)
       (\<lambda>t. Ret (set_header ''Content-Type'' t (new_response\<lparr>code := c, body := b\<rparr>)))"

text \<open>The move assignment leaves \<open>skip_body\<close>, the length flag and the handlers of the target alone.\<close>

definition assign :: "response \<Rightarrow> response \<Rightarrow> response" where
  "assign r dst = dst\<lparr>body := body r, code := code r, headers := headers r, completed := completed r,
     file_info := file_info r\<rparr>"

definition clear :: "response \<Rightarrow> response" where
  "clear r = r\<lparr>body := [], code := 200, headers := [], completed := False, file_info := no_file\<rparr>"

definition redirect_with :: "int \<Rightarrow> string \<Rightarrow> response \<Rightarrow> response" where
  "redirect_with c location r = set_header ''Location'' location (r\<lparr>code := c\<rparr>)"

definition redirect :: "string \<Rightarrow> response \<Rightarrow> response" where
  "redirect = redirect_with 307"

definition redirect_perm :: "string \<Rightarrow> response \<Rightarrow> response" where
  "redirect_perm = redirect_with 308"

definition moved :: "string \<Rightarrow> response \<Rightarrow> response" where
  "moved = redirect_with 302"

definition moved_perm :: "string \<Rightarrow> response \<Rightarrow> response" where
  "moved_perm = redirect_with 301"

definition write_part :: "string \<Rightarrow> response \<Rightarrow> response" where
  "write_part body_part r = r\<lparr>body := body r @ body_part\<rparr>"

definition end_response :: "response \<Rightarrow> response" where
  "end_response r =
     (if completed r then r
      else
        (let r1 = r\<lparr>completed := True\<rparr>;
             r2 = (if skip_body r1
                   then (set_header ''Content-Length'' (show_nat (length (body r1))) r1)
                     \<lparr>body := [], manual_length_header := True\<rparr>
                   else r1)
         in if complete_handler r2 then r2\<lparr>sent := sent r2 + 1\<rparr> else r2))"

definition end_with :: "string \<Rightarrow> response \<Rightarrow> response" where
  "end_with body_part r = end_response (r\<lparr>body := body r @ body_part\<rparr>)"

definition is_static_type :: "response \<Rightarrow> bool" where
  "is_static_type r \<longleftrightarrow> sf_path (file_info r) \<noteq> []"

text \<open>
  The part of a path behind its last dot, or the whole path: \<open>find_last_of\<close> gives \<open>npos\<close> when there
  is no dot, and \<open>npos + 1\<close> is 0.
\<close>

definition extension :: "string \<Rightarrow> string" where
  "extension path = rev (takeWhile (\<lambda>c. c \<noteq> CHR ''.'') (rev path))"

text \<open>\<open>stat\<close> of the file is an argument: the size of the file when the call succeeds.\<close>

definition set_static_file_info_unsafe :: "(string \<Rightarrow> nat option) \<Rightarrow> string \<Rightarrow> response \<Rightarrow> response" where
  "set_static_file_info_unsafe stat path r =
     (case stat (c_str path) of
        Some n \<Rightarrow>
          (let r1 = r\<lparr>file_info := \<lparr>sf_path = path, sf_size = n, statResult = 0\<rparr>, code := 200\<rparr>;
               r2 = add_response_header ''Content-Length'' (show_nat n) r1;
               ext = extension path
           in if ext \<noteq> []
              then (case map_of mime_types ext of
                      Some t \<Rightarrow> add_response_header ''Content-Type'' t r2
                    | None \<Rightarrow> add_response_header ''Content-Type'' ''text/plain'' r2)
              else r2)
      | None \<Rightarrow>
          end_response (r\<lparr>file_info := \<lparr>sf_path = [], sf_size = 0, statResult = -1\<rparr>, code := 404\<rparr>))"

section \<open>Lemmas\<close>

lemma ci_key_eq_refl [simp]: "ci_key_eq k k"
  by (simp add: ci_key_eq_def list_all2_refl)

lemma ci_key_eq_iff: "ci_key_eq l r \<longleftrightarrow> map to_upper l = map to_upper r"
  by (auto simp: ci_key_eq_def list_all2_conv_all_nth list_eq_iff_nth_eq)

lemma ci_key_eq_sym: "ci_key_eq a b \<longleftrightarrow> ci_key_eq b a"
  by (auto simp: ci_key_eq_iff)

text \<open>The hash agrees with the equality, as an unordered container needs.\<close>

lemma ci_hash_eq: "ci_key_eq l r \<Longrightarrow> ci_hash f l = ci_hash f r"
proof -
  have "ci_hash f k = foldl f 0 (map to_upper k)" for k by (simp add: ci_hash_def foldl_map)
  then show "ci_key_eq l r \<Longrightarrow> ci_hash f l = ci_hash f r" by (simp add: ci_key_eq_iff)
qed

lemma ci_find_None_iff: "ci_find k m = None \<longleftrightarrow> ci_count k m = 0"
  by (auto simp: ci_find_def ci_count_def find_None_iff filter_empty_conv)

lemma get_header_value_find:
  "get_header_value m k = (case ci_find k m of Some e \<Rightarrow> snd e | None \<Rightarrow> '''')"
  using ci_find_None_iff [of k m] by (auto simp: get_header_value_def split: option.splits)

lemma ci_find_erase: "ci_find k (ci_erase k' m) = (if ci_key_eq k k' then None else ci_find k m)"
  by (induction m) (auto simp: ci_find_def ci_erase_def ci_key_eq_iff)

lemma ci_find_append:
  "ci_find k (m @ m') = (case ci_find k m of None \<Rightarrow> ci_find k m' | Some e \<Rightarrow> Some e)"
  by (induction m) (auto simp: ci_find_def)

lemma get_set_header [simp]:
  "get_header_value (headers (set_header k v r)) k' =
     (if ci_key_eq k' k then v else get_header_value (headers r) k')"
proof -
  have "ci_find k' [(k, v)] = (if ci_key_eq k' k then Some (k, v) else None)"
    by (simp add: ci_find_def ci_key_eq_sym)
  then show ?thesis
    by (simp add: get_header_value_find set_header_def ci_emplace_def ci_find_append ci_find_erase
        split: option.split)
qed

lemma count_set_header: "ci_count k (headers (set_header k v r)) = 1"
  by (simp add: set_header_def ci_count_def ci_emplace_def ci_erase_def)

lemma set_header_fields [simp]:
  "code (set_header k v r) = code r" "body (set_header k v r) = body r"
  "completed (set_header k v r) = completed r" "sent (set_header k v r) = sent r"
  "skip_body (set_header k v r) = skip_body r" "complete_handler (set_header k v r) = complete_handler r"
  by (simp_all add: set_header_def)

text \<open>Ending a response twice sends it once.\<close>

lemma end_response_idem [simp]: "end_response (end_response r) = end_response r"
  by (simp add: end_response_def Let_def)

lemma end_response_completed [simp]: "completed (end_response r)"
  by (simp add: end_response_def Let_def)

end
