(* ===== verification/Url_Decode.thy ===== *)
theory Url_Decode
  imports Common
begin

text \<open>
  \<open>HttpServerHelpers::url_decode\<close>. The loop runs over an index with the machine's arithmetic, so
  that \<open>len - 2\<close> wraps around for a string of one byte; \<open>std::sscanf(buf, "%x", &number)\<close> is the C
  library's conversion. The loop is related to a recursive decoder, and decoding undoes the
  standard percent-encoding of any byte string.
\<close>

section \<open>\<open>sscanf\<close> with \<open>%x\<close>\<close>

definition byte :: "char \<Rightarrow> nat" where
  "byte c = of_char c"

definition is_space :: "char \<Rightarrow> bool" where
  "is_space c \<longleftrightarrow> byte c = 32 \<or> 9 \<le> byte c \<and> byte c \<le> 13"

definition hex_digit :: "char \<Rightarrow> nat option" where
  "hex_digit c =
     (if 48 \<le> byte c \<and> byte c \<le> 57 then Some (byte c - 48)
      else if 65 \<le> byte c \<and> byte c \<le> 70 then Some (byte c - 55)
      else if 97 \<le> byte c \<and> byte c \<le> 102 then Some (byte c - 87)
      else None)"

fun hex_value :: "nat \<Rightarrow> string \<Rightarrow> nat" where
  "hex_value acc [] = acc"
| "hex_value acc (c # cs) = (case hex_digit c of None \<Rightarrow> acc | Some d \<Rightarrow> hex_value (16 * acc + d) cs)"

text \<open>
  The value left in \<open>number\<close>, which the caller set to 0, or \<open>None\<close> for \<open>EOF\<close>: white space is skipped,
  the end of the string before any other byte is \<open>EOF\<close>, and a byte that cannot start a number is a
  matching failure, which is not \<open>EOF\<close> and leaves \<open>number\<close> alone. A prefix \<open>0x\<close> has the value of its
  0 when no digit follows in the two bytes.
\<close>

definition sscanf_x :: "string \<Rightarrow> int option" where
  "sscanf_x buf =
     (case dropWhile is_space (c_str buf) of
        [] \<Rightarrow> None
      | c # cs \<Rightarrow>
          (if c = CHR ''-'' then Some (- int (hex_value 0 cs))
           else if c = CHR ''+'' then Some (int (hex_value 0 cs))
           else Some (int (hex_value 0 (c # cs)))))"

section \<open>The loop\<close>

text \<open>\<open>i < len - 2\<close> on \<open>size_t\<close>.\<close>

definition below_len_minus_2 :: "nat \<Rightarrow> nat \<Rightarrow> bool" where
  "below_len_minus_2 i len \<longleftrightarrow> (of_nat i :: u64) < of_nat len - 2"

function url_loop :: "string \<Rightarrow> nat \<Rightarrow> string \<Rightarrow> string option" where
  "url_loop v i result =
     (if i < length v then
        (if v ! i = CHR ''+'' then url_loop v (i + 1) (result @ '' '')
         else if v ! i = CHR ''%'' \<and> below_len_minus_2 i (length v) then
           (case (at v (i + 1), at v (i + 2)) of
              (Some a, Some b) \<Rightarrow>
                (case sscanf_x [a, b, CHR 0x00] of
                   Some number \<Rightarrow> url_loop v (i + 3) (result @ [char_of number])
                 | None \<Rightarrow> url_loop v (i + 1) (result @ [v ! i]))
            | _ \<Rightarrow> None)
         else url_loop v (i + 1) (result @ [v ! i]))
      else Some result)"
  by pat_completeness auto
termination
  by (relation "measure (\<lambda>(v, i, result). length v - i)") auto

declare url_loop.simps [simp del]

definition url_decode :: "string \<Rightarrow> string option" where
  "url_decode v = url_loop v 0 []"

section \<open>The decoder as a recursive function\<close>

fun decode :: "string \<Rightarrow> string" where
  "decode [] = []"
| "decode (c # cs) =
     (if c = CHR ''+'' then CHR '' '' # decode cs
      else if c = CHR ''%'' then
        (case cs of
           a # b # cs' \<Rightarrow>
             (case sscanf_x [a, b, CHR 0x00] of
                Some number \<Rightarrow> char_of number # decode cs'
              | None \<Rightarrow> c # decode cs)
         | _ \<Rightarrow> c # decode cs)
      else c # decode cs)"

lemma below_len_minus_2_iff:
  assumes "2 \<le> len" "len < 2 ^ 64" "i < len"
  shows "below_len_minus_2 i len \<longleftrightarrow> i + 2 < len"
proof -
  have "(of_nat len :: u64) - 2 = of_nat (len - 2)" using assms(1) by (simp add: of_nat_diff)
  moreover have u: "unat (of_nat n :: u64) = n" if "n < 2 ^ 64" for n
    using that by (simp add: unat_of_nat)
  have "(of_nat i :: u64) < of_nat (len - 2) \<longleftrightarrow> i < len - 2"
    unfolding word_less_nat_alt using u [of i] u [of "len - 2"] assms by simp_all
  ultimately show ?thesis unfolding below_len_minus_2_def using assms(1) by (simp only: less_diff_conv)
qed

lemma below_len_minus_2_one: "below_len_minus_2 0 1"
  by (simp add: below_len_minus_2_def word_neq_0_conv [symmetric])

lemma url_loop_decode:
  assumes len: "2 \<le> length v" "length v < 2 ^ 64" and "i \<le> length v"
  shows "url_loop v i result = Some (result @ decode (drop i v))"
  using assms(3)
proof (induction "length v - i" arbitrary: i result rule: less_induct)
  case less
  have IH: "url_loop v j r = Some (r @ decode (drop j v))" if "i < j" "j \<le> length v" for j r
    using that by (intro less.hyps) auto
  show ?case
  proof (cases "i < length v")
    case False
    then show ?thesis by (simp add: url_loop.simps)
  next
    case True
    have d: "drop i v = v ! i # drop (Suc i) v" using True by (rule Cons_nth_drop_Suc [symmetric])
    have below: "below_len_minus_2 i (length v) \<longleftrightarrow> i + 2 < length v"
      using len True by (rule below_len_minus_2_iff)
    show ?thesis
    proof (cases "i + 2 < length v")
      case False
      then have "drop (Suc i) v = [] \<or> (\<exists>a. drop (Suc i) v = [a])"
        by (intro short_list) simp
      then show ?thesis using True False below IH [of "Suc i"]
        by (subst url_loop.simps) (auto simp: d)
    next
      case T: True
      have d': "drop (Suc i) v = v ! (Suc i) # v ! (Suc (Suc i)) # drop (Suc (Suc (Suc i))) v"
        using T by (simp add: Cons_nth_drop_Suc)
      show ?thesis using True T below IH [of "Suc i"] IH [of "Suc (Suc (Suc i))"]
        by (subst url_loop.simps)
          (auto simp: d d' at_def numeral_3_eq_3 split: option.splits)
    qed
  qed
qed

text \<open>
  The one input on which the loop has no meaning is the string of a single percent sign: \<open>len - 2\<close>
  wraps, and the byte behind the terminator is read.
\<close>

lemma url_decode_eq:
  assumes "length v < 2 ^ 64"
  shows "url_decode v = (if v = ''%'' then None else Some (decode v))"
proof (cases "2 \<le> length v")
  case True
  then show ?thesis using url_loop_decode [OF True assms, of 0 "[]"] by (auto simp: url_decode_def)
next
  case False
  then consider "v = []" | c where "v = [c]" by (cases v rule: decode.cases; cases "tl v") auto
  then show ?thesis
  proof cases
    case 1
    then show ?thesis by (simp add: url_decode_def url_loop.simps)
  next
    case 2
    then show ?thesis
      using below_len_minus_2_one
      by (simp add: url_decode_def url_loop.simps [of "[c]" 0] url_loop.simps [of _ "Suc 0"] at_def)
  qed
qed

section \<open>Percent-encoding\<close>

text \<open>
  What a client sends (\<open>urllib.parse.quote_plus\<close> in \<open>client.py\<close>): letters, digits and
  \<open>_ . - ~\<close> stand for themselves, a space is a plus sign, and every other byte is escaped.
\<close>

definition is_plain :: "char \<Rightarrow> bool" where
  "is_plain c \<longleftrightarrow> 48 \<le> byte c \<and> byte c \<le> 57 \<or> 65 \<le> byte c \<and> byte c \<le> 90 \<or> 97 \<le> byte c \<and> byte c \<le> 122 \<or>
     c \<in> set ''_.-~''"

definition hex_char :: "nat \<Rightarrow> char" where
  "hex_char d = (if d < 10 then char_of (48 + d) else char_of (55 + d))"

fun quote_plus :: "string \<Rightarrow> string" where
  "quote_plus [] = []"
| "quote_plus (c # cs) =
     (if is_plain c then c # quote_plus cs
      else if c = CHR '' '' then CHR ''+'' # quote_plus cs
      else CHR ''%'' # hex_char (byte c div 16) # hex_char (byte c mod 16) # quote_plus cs)"

lemma byte_less [byte_simps, simp]: "byte c < 256"
  by (simp add: byte_def)

lemma char_of_byte [byte_simps, simp]: "char_of (byte c) = c"
  by (simp add: byte_def)

lemma byte_char_of [byte_simps]: "n < 256 \<Longrightarrow> byte (char_of n) = n"
  by (simp add: byte_def)

lemma byte_hex_char: "d < 16 \<Longrightarrow> byte (hex_char d) = (if d < 10 then 48 + d else 55 + d)"
  by (simp add: hex_char_def byte_char_of)

lemma hex_digit_hex_char: "d < 16 \<Longrightarrow> hex_digit (hex_char d) = Some d"
  by (auto simp: hex_digit_def byte_hex_char)

lemma byte_eq_iff: "c = d \<longleftrightarrow> byte c = byte d"
  by (metis char_of_byte)

lemma byte_literals [byte_simps]:
  "byte CHR ''+'' = 43" "byte CHR ''-'' = 45" "byte CHR 0x00 = 0" "byte CHR ''%'' = 37"
  by (simp_all add: byte_def)

lemma sscanf_hex:
  assumes "d < 16" "e < 16"
  shows "sscanf_x [hex_char d, hex_char e, CHR 0x00] = Some (int (16 * d + e))"
proof -
  have b: "48 \<le> byte (hex_char x)" if "x < 16" for x using that by (simp add: byte_hex_char)
  have "hex_char x \<noteq> CHR 0x00 \<and> \<not> is_space (hex_char x) \<and> hex_char x \<noteq> CHR ''-'' \<and> hex_char x \<noteq> CHR ''+''"
    if "x < 16" for x
    using b [OF that] by (auto simp: is_space_def byte_eq_iff byte_literals)
  then show ?thesis using assms by (simp add: sscanf_x_def c_str_def hex_digit_hex_char)
qed

lemma decode_quote_plus: "decode (quote_plus s) = s"
proof (induction s)
  case (Cons c s)
  have "is_plain c \<Longrightarrow> c \<noteq> CHR ''+'' \<and> c \<noteq> CHR ''%''"
    by (auto simp: is_plain_def byte_literals)
  moreover have "sscanf_x [hex_char (byte c div 16), hex_char (byte c mod 16), CHR 0x00] = Some (int (byte c))"
    using sscanf_hex [of "byte c div 16" "byte c mod 16"] byte_less [of c]
    by (simp add: less_mult_imp_div_less)
  moreover have "char_of (int (byte c)) = c" by (simp add: byte_def)
  ultimately show ?case using Cons.IH by auto
qed simp

text \<open>No byte of the result is new: decoding never makes a string longer.\<close>

lemma length_decode: "length (decode s) \<le> length s"
proof (induction s rule: decode.induct)
  case (2 c cs)
  then show ?case
    by (auto split: list.splits option.splits) (use le_SucI in fastforce)+
qed simp

end
