(* ===== verification/HttpServer.thy ===== *)
theory HttpServer
  imports Persistence Http_Message Url_Decode
begin

text \<open>
  The request handlers of \<open>HttpServer.cpp\<close> and \<open>JsonBody\<close> of \<open>HttpServerHelpers.h\<close>. A \<open>JsonBody\<close> holds
  references to strings, not copies: a reference to a local variable of the handler's \<open>try\<close> block is
  alive only inside that block. Where memory may run out is an argument (\<open>faults\<close>); an exception
  leaves the block, destroys its locals and runs the \<open>catch (...)\<close>.

  On a good engine the handlers are shown to implement a specification over the map of entries.
\<close>

section \<open>\<open>JsonBody\<close>\<close>

datatype local_var = Name_var | Value_var

datatype json_ref = Literal string | Local local_var | Number u64

record json_body =
  content_type :: string
  members :: "(string \<times> json_ref) list"

type_synonym scope = "local_var \<Rightarrow> string option"

definition JsonBody :: json_body where
  "JsonBody = \<lparr>content_type = ''application/json; charset=utf-8'', members = []\<rparr>"

definition body_add :: "string \<Rightarrow> json_ref \<Rightarrow> json_body \<Rightarrow> json_body" where
  "body_add name v b = b\<lparr>members := members b @ [(name, v)]\<rparr>"

text \<open>Reading a reference whose object is gone is \<open>UB\<close>.\<close>

fun resolve :: "scope \<Rightarrow> json_ref \<Rightarrow> json option" where
  "resolve env (Literal s) = Some (JString (string_ref s))"
| "resolve env (Local x) = map_option (\<lambda>s. JString (string_ref s)) (env x)"
| "resolve env (Number n) = Some (JUint64 n)"

fun resolve_all :: "scope \<Rightarrow> (string \<times> json_ref) list \<Rightarrow> (json \<times> json) list option" where
  "resolve_all env [] = Some []"
| "resolve_all env ((n, r) # ms) =
     (case (resolve env r, resolve_all env ms) of
        (Some v, Some vs) \<Rightarrow> Some ((JString (string_ref n), v) # vs)
      | _ \<Rightarrow> None)"

definition dump :: "rapidjson \<Rightarrow> scope \<Rightarrow> json_body \<Rightarrow> string outcome" where
  "dump J env b = of_option (map_option (\<lambda>ms. write_document J (JObject ms)) (resolve_all env (members b)))"

section \<open>The handlers\<close>

text \<open>Which allocations fail: in \<open>url_decode\<close>, in the engine, in a \<open>dump\<close> inside and outside the block.\<close>

record faults =
  f_decode :: bool
  f_copy :: bool
  f_create :: create_fault
  f_dump :: bool
  f_dump_catch :: bool

definition no_faults :: faults where
  "no_faults = \<lparr>f_decode = False, f_copy = False, f_create = No_fault, f_dump = False, f_dump_catch = False\<rparr>"

definition respond :: "rapidjson \<Rightarrow> bool \<Rightarrow> scope \<Rightarrow> status \<Rightarrow> json_body \<Rightarrow> response outcome" where
  "respond J fault env st b =
     response_returnable (status_code st) (if fault then Throw Bad_alloc else dump J env b) (content_type b)"

text \<open>\<open>catch (...)\<close>: the locals of the block are gone, the body with its references is not.\<close>

definition catch_all ::
    "rapidjson \<Rightarrow> faults \<Rightarrow> response outcome \<times> json_body \<times> engine \<Rightarrow> response outcome \<times> engine" where
  "catch_all J F = (\<lambda>(r, b, e).
     case r of
       Throw x \<Rightarrow>
         (respond J (f_dump_catch F) Map.empty ST_INTERNAL_SERVER_ERROR
            (body_add ''error'' (Literal ''Server internal error'') b), e)
     | _ \<Rightarrow> (r, e))"

definition get_record_try ::
    "platform \<Rightarrow> rapidjson \<Rightarrow> faults \<Rightarrow> string \<Rightarrow> engine \<Rightarrow> response outcome \<times> json_body \<times> engine" where
  "get_record_try P J F nameRaw e =
     (if f_decode F then (Throw Bad_alloc, JsonBody, e)
      else (case url_decode nameRaw of
        None \<Rightarrow> (UB, JsonBody, e)
      | Some name \<Rightarrow>
          (let env = Map.empty(Name_var \<mapsto> name);
               b = body_add ''name'' (Local Name_var) JsonBody
           in if name = [] then
                (let b1 = body_add ''error'' (Literal ''Item name cannot be empty'') b
                 in (respond J (f_dump F) env ST_BAD_REQUEST b1, b1, e))
              else
                (case get P (\<not> f_copy F) name e of
                   (Ret None, e1) \<Rightarrow>
                     (let b1 = body_add ''error'' (Literal ''Item not found'') b
                      in (respond J (f_dump F) env ST_NOT_FOUND b1, b1, e1))
                 | (Ret (Some v), e1) \<Rightarrow>
                     (let env1 = env(Value_var \<mapsto> v); b1 = body_add ''value'' (Local Value_var) b
                      in (respond J (f_dump F) env1 ST_OK b1, b1, e1))
                 | (Throw x, e1) \<Rightarrow> (Throw x, b, e1)
                 | (UB, e1) \<Rightarrow> (UB, b, e1)))))"

definition get_record ::
    "platform \<Rightarrow> rapidjson \<Rightarrow> faults \<Rightarrow> string \<Rightarrow> engine \<Rightarrow> response outcome \<times> engine" where
  "get_record P J F nameRaw e = catch_all J F (get_record_try P J F nameRaw e)"

text \<open>\<open>FindMember\<close>: the first member with the name.\<close>

fun find_member :: "string \<Rightarrow> (json \<times> json) list \<Rightarrow> json option" where
  "find_member name [] = None"
| "find_member name ((n, v) # ms) = (if n = JString name then Some v else find_member name ms)"

text \<open>The value that a request body asks to store, or the message of the error.\<close>

definition request_value :: "rapidjson \<Rightarrow> string \<Rightarrow> string + string" where
  "request_value J request_body =
     (case parse_document J (c_str request_body) of
        None \<Rightarrow> Inl ''Invalid JSON syntax in request body''
      | Some (JObject ms) \<Rightarrow>
          (case find_member ''value'' ms of
             None \<Rightarrow> Inl ''Request JSON format: root object must have 'value' member''
           | Some (JString v) \<Rightarrow> Inr v
           | Some _ \<Rightarrow> Inl ''Request JSON format: root object's 'value' member must have value of type string'')
      | Some _ \<Rightarrow> Inl ''Request JSON format: root element must be an Object'')"

definition post_record_try ::
    "platform \<Rightarrow> tid \<Rightarrow> rapidjson \<Rightarrow> faults \<Rightarrow> string \<Rightarrow> string \<Rightarrow> engine
       \<Rightarrow> response outcome \<times> json_body \<times> engine" where
  "post_record_try P t J F nameRaw request_body e =
     (if f_decode F then (Throw Bad_alloc, JsonBody, e)
      else (case url_decode nameRaw of
        None \<Rightarrow> (UB, JsonBody, e)
      | Some name \<Rightarrow>
          (let env = Map.empty(Name_var \<mapsto> name);
               b = body_add ''name'' (Local Name_var) JsonBody
           in if name = [] then
                (let b1 = body_add ''error'' (Literal ''Item name cannot be empty'') b
                 in (respond J (f_dump F) env ST_BAD_REQUEST b1, b1, e))
              else
                (case request_value J request_body of
                   Inl message \<Rightarrow>
                     (let b1 = body_add ''error'' (Literal message) b
                      in (respond J (f_dump F) env ST_BAD_REQUEST b1, b1, e))
                 | Inr v \<Rightarrow>
                     (case set_kv P t (f_create F) name v e of
                        (Ret _, e1) \<Rightarrow> (respond J (f_dump F) env ST_OK b, b, e1)
                      | (Throw x, e1) \<Rightarrow> (Throw x, b, e1)
                      | (UB, e1) \<Rightarrow> (UB, b, e1))))))"

definition post_record ::
    "platform \<Rightarrow> tid \<Rightarrow> rapidjson \<Rightarrow> faults \<Rightarrow> string \<Rightarrow> string \<Rightarrow> engine \<Rightarrow> response outcome \<times> engine" where
  "post_record P t J F nameRaw request_body e =
     catch_all J F (post_record_try P t J F nameRaw request_body e)"

definition list_records :: "response outcome" where
  "list_records = response_typed (status_code ST_NOT_IMPLEMENTED) ''txt'' ''Item listing is not supported''"

definition read_statistics :: "rapidjson \<Rightarrow> faults \<Rightarrow> engine \<Rightarrow> response outcome \<times> engine" where
  "read_statistics J F e =
     (let reads = get_read_statistics e;
          b = body_add ''failed'' (Number (m_failedOperations reads))
                (body_add ''succeeded'' (Number (m_successOperations reads))
                   (body_add ''total'' (Number (m_successOperations reads + m_failedOperations reads)) JsonBody))
      in catch_all J F (respond J (f_dump F) Map.empty ST_OK b, b, e))"

definition root_page :: "response outcome" where
  "root_page = response_typed (status_code ST_OK) ''txt'' (''Hello, World!'' @ [CHR 0x0A])"

section \<open>The specification\<close>

text \<open>What a client sees: a status and the members of a JSON object.\<close>

definition json_response :: "rapidjson \<Rightarrow> status \<Rightarrow> (json \<times> json) list \<Rightarrow> response" where
  "json_response J st ms =
     set_header ''Content-Type'' ''application/json; charset=utf-8''
       (new_response\<lparr>code := status_code st, body := write_document J (JObject ms)\<rparr>)"

definition str_member :: "string \<Rightarrow> string \<Rightarrow> json \<times> json" where
  "str_member n v = (JString n, JString (string_ref v))"

definition spec_get :: "(string \<rightharpoonup> string) \<Rightarrow> string \<Rightarrow> status \<times> (json \<times> json) list" where
  "spec_get m name =
     (if name = [] then (ST_BAD_REQUEST, [str_member ''name'' name, str_member ''error'' ''Item name cannot be empty''])
      else (case m name of
              None \<Rightarrow> (ST_NOT_FOUND, [str_member ''name'' name, str_member ''error'' ''Item not found''])
            | Some v \<Rightarrow> (ST_OK, [str_member ''name'' name, str_member ''value'' v])))"

definition spec_post ::
    "(string \<rightharpoonup> string) \<Rightarrow> string \<Rightarrow> string + string
       \<Rightarrow> (status \<times> (json \<times> json) list) \<times> (string \<rightharpoonup> string)" where
  "spec_post m name request =
     (if name = [] then
        ((ST_BAD_REQUEST, [str_member ''name'' name, str_member ''error'' ''Item name cannot be empty'']), m)
      else (case request of
              Inl message \<Rightarrow> ((ST_BAD_REQUEST, [str_member ''name'' name, str_member ''error'' message]), m)
            | Inr v \<Rightarrow> ((ST_OK, [str_member ''name'' name]), m(name \<mapsto> v))))"

lemma string_ref_literals [simp]:
  "string_ref ''name'' = ''name''" "string_ref ''error'' = ''error''" "string_ref ''value'' = ''value''"
  "string_ref ''total'' = ''total''" "string_ref ''succeeded'' = ''succeeded''"
  "string_ref ''failed'' = ''failed''"
  by simp_all

lemma content_type_add [simp]: "content_type (body_add n v b) = content_type b"
  by (simp add: body_add_def)

lemma members_add [simp]: "members (body_add n v b) = members b @ [(n, v)]"
  by (simp add: body_add_def)

lemma JsonBody_fields [simp]:
  "members JsonBody = []" "content_type JsonBody = ''application/json; charset=utf-8''"
  by (simp_all add: JsonBody_def)

lemma respond_ok:
  assumes "resolve_all env (members b) = Some ms" "content_type b = ''application/json; charset=utf-8''"
  shows "respond J False env st b = Ret (json_response J st ms)"
  using assms by (simp add: respond_def response_returnable_def dump_def json_response_def new_response_def)

lemma respond_dangling:
  assumes "resolve_all env (members b) = None"
  shows "respond J False env st b = UB"
  using assms by (simp add: respond_def response_returnable_def dump_def)

lemma get_record_spec:
  assumes ok: "engine_ok P e" and name: "url_decode nameRaw = Some name"
  shows "case spec_get (engine_map e) name of (st, ms) \<Rightarrow>
    \<exists>e'. get_record P J no_faults nameRaw e = (Ret (json_response J st ms), e') \<and>
      engine_ok P e' \<and> engine_map e' = engine_map e"
proof (cases "name = []")
  case True
  with assms show ?thesis
    by (simp add: get_record_def get_record_try_def no_faults_def Let_def catch_all_def respond_ok
        spec_get_def str_member_def)
next
  case False
  from ok show ?thesis
  proof (cases rule: get_cases [of P e name True])
    case (hit v)
    with False assms show ?thesis
      by (simp add: get_record_def get_record_try_def no_faults_def Let_def catch_all_def respond_ok
          spec_get_def str_member_def)
  next
    case miss
    with False assms show ?thesis
      by (simp add: get_record_def get_record_try_def no_faults_def Let_def catch_all_def respond_ok
          spec_get_def str_member_def)
  qed
qed

lemma post_record_spec:
  assumes ok: "engine_ok P e" and name: "url_decode nameRaw = Some name"
  shows "case spec_post (engine_map e) name (request_value J request_body) of ((st, ms), m) \<Rightarrow>
    \<exists>e'. post_record P t J no_faults nameRaw request_body e = (Ret (json_response J st ms), e') \<and>
      engine_ok P e' \<and> engine_map e' = m"
proof (cases "name = []")
  case True
  with assms show ?thesis
    by (simp add: post_record_def post_record_try_def no_faults_def Let_def catch_all_def respond_ok
        spec_post_def str_member_def)
next
  case False
  show ?thesis
  proof (cases "request_value J request_body")
    case (Inl m)
    with False assms show ?thesis
      by (simp add: post_record_def post_record_try_def no_faults_def Let_def catch_all_def respond_ok
          spec_post_def str_member_def)
  next
    case (Inr v)
    obtain e' where "set_kv P t No_fault name v e = (Ret (), e')" "engine_ok P e'"
      "engine_map e' = (engine_map e)(name \<mapsto> v)"
      using ok by (rule set_kv_ok [of P e t name v])
    with Inr False assms show ?thesis
      by (simp add: post_record_def post_record_try_def no_faults_def Let_def catch_all_def respond_ok
          spec_post_def str_member_def)
  qed
qed

text \<open>
  When the copy of a found value runs out of memory, the error response is written from a body
  that refers to the destroyed \<open>name\<close>; likewise when \<open>set\<close> throws.
\<close>

lemma get_record_no_memory:
  assumes "engine_ok P e" "url_decode nameRaw = Some name" "name \<noteq> []" "engine_map e name \<noteq> None"
  shows "fst (get_record P J (no_faults\<lparr>f_copy := True\<rparr>) nameRaw e) = UB"
  using assms(1)
proof (cases rule: get_cases [of P e name False])
  case (hit v)
  with assms show ?thesis
    by (simp add: get_record_def get_record_try_def no_faults_def Let_def catch_all_def respond_dangling)
qed (use assms in simp)

lemma post_record_no_memory:
  assumes "engine_ok P e" "url_decode nameRaw = Some name" "name \<noteq> []"
    "request_value J request_body = Inr v" "fault \<noteq> No_fault"
  shows "fst (post_record P t J (no_faults\<lparr>f_create := fault\<rparr>) nameRaw request_body e) = UB"
proof -
  obtain e' where "set_kv P t fault name v e = (Throw Bad_alloc, e')"
    using assms(1,5) by (rule set_kv_Throw [of P e fault t name v])
  with assms show ?thesis
    by (simp add: post_record_def post_record_try_def no_faults_def Let_def catch_all_def respond_dangling)
qed

text \<open>When decoding itself fails, the body is empty and the client gets the intended error.\<close>

lemma decode_no_memory:
  "get_record P J (no_faults\<lparr>f_decode := True\<rparr>) nameRaw e =
     (Ret (json_response J ST_INTERNAL_SERVER_ERROR [str_member ''error'' ''Server internal error'']), e)"
  "post_record P t J (no_faults\<lparr>f_decode := True\<rparr>) nameRaw request_body e =
     (Ret (json_response J ST_INTERNAL_SERVER_ERROR [str_member ''error'' ''Server internal error'']), e)"
  by (simp_all add: get_record_def get_record_try_def post_record_def post_record_try_def no_faults_def
      catch_all_def respond_ok str_member_def)

lemma read_statistics_spec:
  "read_statistics J no_faults e =
     (Ret (json_response J ST_OK
        [(JString ''total'', JUint64 (m_successReads e + m_failedReads e)),
         (JString ''succeeded'', JUint64 (m_successReads e)), (JString ''failed'', JUint64 (m_failedReads e))]), e)"
  by (simp add: read_statistics_def Let_def catch_all_def no_faults_def respond_ok get_read_statistics_def)

end
