(* ===== verification/Program.thy ===== *)
theory Program
  imports HttpServer
begin

text \<open>
  The whole program: \<open>main.cpp\<close> and \<open>HttpServer::run\<close>. While the server runs, Crow calls the
  handlers; here it is given the calls it makes, one after the other (that calls may overlap is the
  matter of the \<open>Engine_\<close> theories: each handler makes one call of the engine, and those are
  atomic). A call that ends in \<open>UB\<close> ends the program's meaning.
\<close>

section \<open>The server\<close>

datatype call =
    Get_record string
  | Post_record string string
  | List_records
  | Read_statistics
  | Root_page

fun run_call :: "platform \<Rightarrow> tid \<Rightarrow> rapidjson \<Rightarrow> faults \<Rightarrow> call \<Rightarrow> engine \<Rightarrow> response outcome \<times> engine" where
  "run_call P t J F (Get_record nameRaw) e = get_record P J F nameRaw e"
| "run_call P t J F (Post_record nameRaw request_body) e = post_record P t J F nameRaw request_body e"
| "run_call P t J F List_records e = (list_records, e)"
| "run_call P t J F Read_statistics e = read_statistics J F e"
| "run_call P t J F Root_page e = (root_page, e)"

fun run_calls ::
    "platform \<Rightarrow> tid \<Rightarrow> rapidjson \<Rightarrow> (call \<times> faults) list \<Rightarrow> engine \<Rightarrow> response outcome list outcome \<times> engine" where
  "run_calls P t J [] e = (Ret [], e)"
| "run_calls P t J ((c, F) # cs) e =
     (case run_call P t J F c e of
        (UB, e1) \<Rightarrow> (UB, e1)
      | (r, e1) \<Rightarrow>
          (case run_calls P t J cs e1 of
             (Ret rs, e2) \<Rightarrow> (Ret (r # rs), e2)
           | (Throw x, e2) \<Rightarrow> (Throw x, e2)
           | (UB, e2) \<Rightarrow> (UB, e2)))"

record server =
  crow_logging :: crow_log
  bound_host :: string
  bound_port :: u16

definition HttpServer_run ::
    "platform \<Rightarrow> tid \<Rightarrow> rapidjson \<Rightarrow> io \<Rightarrow> string \<Rightarrow> u16 \<Rightarrow> bool \<Rightarrow> (call \<times> faults) list
       \<Rightarrow> engine \<times> world \<Rightarrow> server outcome \<times> engine \<times> world" where
  "HttpServer_run P t J io host port logEachRequest calls = (\<lambda>(e, w).
     let w1 = logs io Info [''HttpServer: run: begin''] w;
         g0 = \<lparr>current_level = Crow_Info, current_handler = Cerr_handler\<rparr>;
         g = setLogLevel (if logEachRequest then Crow_Info else Crow_Warning) (setHandler Program_handler g0);
         srv = \<lparr>crow_logging = g, bound_host = host, bound_port = port\<rparr>
     in case run_calls P t J calls e of
          (Ret rs, e1) \<Rightarrow> (Ret srv, e1, logs io Info [''HttpServer: run: end''] w1)
        | (Throw x, e1) \<Rightarrow> (Throw x, e1, w1)
        | (UB, e1) \<Rightarrow> (UB, e1, w1))"

section \<open>\<open>main\<close>\<close>

definition expectedElementCount :: nat where
  "expectedElementCount = 1000 * 1000"

definition hashMapBucketCount :: nat where
  "hashMapBucketCount = expectedElementCount * 2"

definition databaseFilename :: string where
  "databaseFilename = ''database.json''"

definition log_lock_freedom :: "platform \<Rightarrow> io \<Rightarrow> world \<Rightarrow> world" where
  "log_lock_freedom P io w =
     (if is_lock_free P
      then logs io Info [''main: Engine implementation is lock free (except memory allocations)''] w
      else logs io Warning [''main: WARNING! Engine implementation IS NOT LOCK-FREE!''] w)"

text \<open>The part of \<open>main\<close> behind its configuration; \<open>buckets\<close> and \<open>filename\<close> are the configured values.\<close>

definition run_program ::
    "platform \<Rightarrow> tid \<Rightarrow> (u64 \<Rightarrow> create_fault) \<Rightarrow> rapidjson \<Rightarrow> io \<Rightarrow> nat \<Rightarrow> string \<Rightarrow> bool
       \<Rightarrow> (call \<times> faults) list \<Rightarrow> world \<Rightarrow> int outcome \<times> world" where
  "run_program P t load_faults J io buckets filename logEachRequest calls w =
     (let w1 = log_lock_freedom P io w;
          w2 = logs io Info [''main: load data...''] w1
      in case initial_load_data P t load_faults J io filename (w2, new_engine buckets) of
           (Throw x, w3, _) \<Rightarrow> (Throw x, w3)
         | (UB, w3, _) \<Rightarrow> (UB, w3)
         | (Ret loaded, w3, e) \<Rightarrow>
             (let w4 = logs io Info [''main: loaded '', show_nat (unat loaded), '' DB records from file '', filename] w3;
                  w5 = logs io Info [''main: listening connections: begin''] w4
              in case HttpServer_run P t J io ''127.0.0.1'' 8000 logEachRequest calls (e, w5) of
                   (Throw x, _, w6) \<Rightarrow> (Throw x, w6)
                 | (UB, _, w6) \<Rightarrow> (UB, w6)
                 | (Ret _, e1, w6) \<Rightarrow>
                     (let w7 = logs io Info [''main: listening connections: end''] w6;
                          w8 = logs io Info [''main: save data to file before process exit...''] w7
                      in case store_data J io filename e1 w8 of
                           (Throw x, w9) \<Rightarrow> (Throw x, w9)
                         | (UB, w9) \<Rightarrow> (UB, w9)
                         | (Ret saved, w9) \<Rightarrow>
                             (let w10 = logs io Info [''main: saved '', show_nat (unat saved), '' DB records to file '', filename] w9;
                                  w11 = logs io Info [''main: end''] w10
                              in (bind_outcome (destroy_engine e1) (\<lambda>_. Ret 0), w11)))))"

definition main_program ::
    "platform \<Rightarrow> tid \<Rightarrow> (u64 \<Rightarrow> create_fault) \<Rightarrow> rapidjson \<Rightarrow> io \<Rightarrow> string list
       \<Rightarrow> (call \<times> faults) list \<Rightarrow> world \<Rightarrow> int outcome \<times> world" where
  "main_program P t load_faults J io argv calls w =
     (let w1 = w\<lparr>log := SetLogLevel Debug (log w)\<rparr>;
          w2 = logs io Info [''main: begin''] w1;
          arg1 = (if length argv > 1 then argv ! 1 else '''');
          logEachRequest = (arg1 \<noteq> ''--no-logs'')
      in run_program P t load_faults J io hashMapBucketCount databaseFilename logEachRequest calls w2)"

section \<open>The specification of a session\<close>

text \<open>What the calls answer and what they leave, over the map; the counters are left open.\<close>

fun session_map :: "rapidjson \<Rightarrow> (string \<rightharpoonup> string) \<Rightarrow> call list \<Rightarrow> (string \<rightharpoonup> string)" where
  "session_map J m [] = m"
| "session_map J m (Post_record nameRaw request_body # cs) =
     session_map J (snd (spec_post m (decode nameRaw) (request_value J request_body))) cs"
| "session_map J m (c # cs) = session_map J m cs"

fun call_ok :: "call \<Rightarrow> bool" where
  "call_ok (Get_record nameRaw) = (nameRaw \<noteq> ''%'' \<and> length nameRaw < 2 ^ 64)"
| "call_ok (Post_record nameRaw request_body) = (nameRaw \<noteq> ''%'' \<and> length nameRaw < 2 ^ 64)"
| "call_ok _ = True"

lemma mime_txt: "mime_at ''txt'' = Ret ''text/plain''"
  by (simp add: mime_at_def mime_types_def)

lemma list_records_ok: "list_records \<noteq> UB" "root_page \<noteq> UB"
  by (simp_all add: list_records_def root_page_def response_typed_def mime_txt)

lemma run_call_ok:
  assumes "engine_ok P e" "call_ok c"
  shows "\<exists>r e'. run_call P t J no_faults c e = (r, e') \<and> r \<noteq> UB \<and> engine_ok P e' \<and>
    engine_map e' = session_map J (engine_map e) [c]"
proof (cases c)
  case (Get_record nameRaw)
  with assms have "url_decode nameRaw = Some (decode nameRaw)" by (simp add: url_decode_eq)
  from get_record_spec [OF assms(1) this, where J = J] Get_record show ?thesis
    by (auto split: prod.splits)
next
  case (Post_record nameRaw request_body)
  with assms have "url_decode nameRaw = Some (decode nameRaw)" by (simp add: url_decode_eq)
  from post_record_spec [OF assms(1) this, where J = J and t = t and request_body = request_body] Post_record show ?thesis
    by (auto split: prod.splits)
qed (use assms list_records_ok in \<open>simp_all add: read_statistics_spec\<close>)

lemma session_map_append: "session_map J m (cs @ cs') = session_map J (session_map J m cs) cs'"
  by (induction J m cs rule: session_map.induct) simp_all

lemma run_calls_ok:
  assumes "engine_ok P e" "\<forall>c\<in>set cs. call_ok c"
  shows "\<exists>rs e'. run_calls P t J (map (\<lambda>c. (c, no_faults)) cs) e = (Ret rs, e') \<and> length rs = length cs \<and>
    engine_ok P e' \<and> engine_map e' = session_map J (engine_map e) cs"
  using assms
proof (induction cs arbitrary: e)
  case (Cons c cs)
  from Cons.prems have "call_ok c" by simp
  with run_call_ok [OF Cons.prems(1)] obtain r e1 where r: "run_call P t J no_faults c e = (r, e1)" "r \<noteq> UB"
    "engine_ok P e1" "engine_map e1 = session_map J (engine_map e) [c]" by blast
  from Cons.IH [OF r(3)] Cons.prems obtain rs e2 where
    "run_calls P t J (map (\<lambda>c. (c, no_faults)) cs) e1 = (Ret rs, e2)" "length rs = length cs"
    "engine_ok P e2" "engine_map e2 = session_map J (engine_map e1) cs" by auto
  with r show ?case
    using session_map_append [of J "engine_map e" "[c]" cs] by (auto split: outcome.split)
qed simp

lemma HttpServer_run_ok:
  assumes "engine_ok P e" "\<forall>c\<in>set cs. call_ok c"
  shows "\<exists>srv e' w'. HttpServer_run P t J io host port l (map (\<lambda>c. (c, no_faults)) cs) (e, w) = (Ret srv, e', w') \<and>
    engine_ok P e' \<and> engine_map e' = session_map J (engine_map e) cs \<and> disk w' = disk w \<and>
    open_files w' = open_files w \<and> next_file w' = next_file w"
  using run_calls_ok [OF assms, of t J] by (auto simp: HttpServer_run_def Let_def)

section \<open>Durability\<close>

lemma logs_ok [simp]: "world_ok (logs io l p w) = world_ok w"
  by (simp add: world_ok_def)

lemma log_lock_freedom_world [simp]:
  "disk (log_lock_freedom P io w) = disk w" "open_files (log_lock_freedom P io w) = open_files w"
  "next_file (log_lock_freedom P io w) = next_file w" "world_ok (log_lock_freedom P io w) = world_ok w"
  by (simp_all add: log_lock_freedom_def)

text \<open>What the file says: the entries of its object, if it is an object of strings.\<close>

definition file_map :: "rapidjson \<Rightarrow> string option \<Rightarrow> (string \<rightharpoonup> string) option" where
  "file_map J content =
     (case content of
        None \<Rightarrow> Some Map.empty
      | Some c \<Rightarrow>
          (case parse_document J c of
             Some (JObject ms) \<Rightarrow>
               (if \<forall>(n, v)\<in>set ms. (\<exists>s. n = JString s) \<and> (\<exists>s. v = JString s)
                then Some (map_of (rev (map (\<lambda>(n, v). (case n of JString s \<Rightarrow> s | _ \<Rightarrow> [], case v of JString s \<Rightarrow> s | _ \<Rightarrow> [])) ms)))
                else None)
           | _ \<Rightarrow> None))"

lemma members_of_strings:
  assumes "\<forall>(n, v)\<in>set ms. (\<exists>s. n = JString s) \<and> (\<exists>s. v = JString s)"
  shows "ms = members_of (map (\<lambda>(n, v). (case n of JString s \<Rightarrow> s | _ \<Rightarrow> [], case v of JString s \<Rightarrow> s | _ \<Rightarrow> [])) ms)"
  using assms by (induction ms) auto

lemma initial_load_ok:
  assumes w: "world_ok w" and m: "file_map J (disk w (c_str fname)) = Some m"
    and r: "can_read io (c_str fname)" and n: "0 < n"
  obtains k w' e' where "initial_load_data P t (\<lambda>_. No_fault) J io fname (w, new_engine n) = (Ret k, w', e')"
    "engine_ok P e'" "engine_map e' = m" "disk w' = disk w" "world_ok w'"
proof (cases "disk w (c_str fname)")
  case None
  with m new_engine_ok [OF n, of P] w show thesis
    by (intro that [of 0 "logs io Warning [''Loading file was not found: '', fname] w" "new_engine n"])
      (auto simp: initial_load_data_def load_def file_map_def)
next
  case (Some content)
  let ?xs = "\<lambda>ms. map (\<lambda>(n, v). (case n of JString s \<Rightarrow> s | _ \<Rightarrow> [], case v of JString s \<Rightarrow> s | _ \<Rightarrow> [])) ms"
  from m Some obtain ms where ms: "parse_document J content = Some (JObject ms)"
    "\<forall>(n, v)\<in>set ms. (\<exists>s. n = JString s) \<and> (\<exists>s. v = JString s)" "m = map_of (rev (?xs ms))"
    by (auto simp: file_map_def split: option.splits json.splits if_splits)
  have p: "parse_document J content = Some (JObject (members_of (?xs ms)))"
    using ms(1) members_of_strings [OF ms(2)] by simp
  show thesis
  proof (rule initial_load_members [OF w Some r p new_engine_ok [OF n, of P], of t])
    fix e' assume e': "initial_load_data P t (\<lambda>_. No_fault) J io fname (w, new_engine n) =
        (Ret (of_nat (length (?xs ms))), w\<lparr>next_file := next_file w + 1\<rparr>, e')"
      "engine_ok P e'" "engine_map e' = engine_map (new_engine n) ++ map_of (rev (?xs ms))"
    moreover have "world_ok (w\<lparr>next_file := next_file w + 1\<rparr>)" using w by (simp add: world_ok_def)
    ultimately show thesis using ms(3) by (intro that [OF e'(1)]) simp_all
  qed
qed

text \<open>What the code relies on: RapidJSON reads back the objects of strings that it writes.\<close>

definition rapidjson_ok :: "rapidjson \<Rightarrow> bool" where
  "rapidjson_ok J \<longleftrightarrow>
     (\<forall>xs. parse_document J (write_document J (JObject (members_of xs))) = Some (JObject (members_of xs)))"

lemma file_map_written:
  assumes "rapidjson_ok J" "distinct (map fst xs)"
  shows "file_map J (Some (write_document J (JObject (members_of xs)))) = Some (map_of xs)"
proof -
  have "map (\<lambda>(n, v). (case n of JString s \<Rightarrow> s | _ \<Rightarrow> [], case v of JString s \<Rightarrow> s | _ \<Rightarrow> [])) (members_of xs) = xs"
    by (induction xs) auto
  moreover have "\<forall>(n, v)\<in>set (members_of xs). (\<exists>s. n = JString s) \<and> (\<exists>s. v = JString s)" by auto
  ultimately show ?thesis
    using assms unfolding file_map_def rapidjson_ok_def
    by (simp add: map_of_rev_distinct del: map_map set_map)
qed

lemma run_program_ok:
  assumes w: "world_ok w" and m: "file_map J (disk w (c_str fname)) = Some m" and n: "0 < buckets"
    and io: "can_read io (c_str fname)" "can_write io (c_str fname)" "\<And>c. to_disk io (c_str fname) c = c"
    and J: "rapidjson_ok J" and cs: "\<forall>c\<in>set cs. call_ok c"
    and short: "\<And>k v. session_map J m cs k = Some v \<Longrightarrow> length k < 2 ^ 32 \<and> length v < 2 ^ 32"
  shows "\<exists>w'. run_program P t (\<lambda>_. No_fault) J io buckets fname l (map (\<lambda>c. (c, no_faults)) cs) w = (Ret 0, w') \<and>
    file_map J (disk w' (c_str fname)) = Some (session_map J m cs)"
proof -
  let ?w = "logs io Info [''main: load data...''] (log_lock_freedom P io w)"
  have w2: "world_ok ?w" "file_map J (disk ?w (c_str fname)) = Some m" using w m by simp_all
  obtain k w3 e where e: "initial_load_data P t (\<lambda>_. No_fault) J io fname (?w, new_engine buckets) = (Ret k, w3, e)"
    "engine_ok P e" "engine_map e = m" "disk w3 = disk ?w" "world_ok w3"
    using initial_load_ok [OF w2 io(1) n] by metis
  let ?w5 = "logs io Info [''main: listening connections: begin'']
    (logs io Info [''main: loaded '', show_nat (unat k), '' DB records from file '', fname] w3)"
  obtain srv e1 w6 where r: "HttpServer_run P t J io ''127.0.0.1'' 8000 l (map (\<lambda>c. (c, no_faults)) cs) (e, ?w5)
      = (Ret srv, e1, w6)" "engine_ok P e1" "engine_map e1 = session_map J m cs"
      "disk w6 = disk ?w5" "open_files w6 = open_files ?w5" "next_file w6 = next_file ?w5"
    using HttpServer_run_ok [OF e(2) cs, of t J io "''127.0.0.1''" 8000 l ?w5] e(3) by auto
  have w6: "world_ok w6" using e(5) r(5,6) by (simp add: world_ok_def)
  have items: "map_of (engine_items e1) = session_map J m cs" using r(3) by (simp add: engine_map_def)
  have sh: "short_entries (engine_items e1)"
    unfolding short_entries_def using eng.set_items [OF r(2)] r(3) short by auto
  have st: "file_map J (Some (write_document J (JObject (members_of (engine_items e1))))) = Some (session_map J m cs)"
    using file_map_written [OF J engine_items_distinct [OF r(2)]] items by simp
  obtain e2 where "destroy_engine e1 = Ret e2" using r(2) by (rule destroy_engine_ok)
  then show ?thesis
    unfolding run_program_def Let_def e(1) prod.case outcome.case r(1)
    using store_data_eq [OF r(2) sh] w6 io st by simp
qed

text \<open>
  A file that the loader rejects is only reported: the program goes on with what was loaded before
  the error, and replaces the file when it ends.
\<close>

lemma run_program_overwrites:
  assumes w: "world_ok w" and m: "disk w (c_str fname) = Some content" "parse_document J content = None"
    and n: "0 < buckets"
    and io: "can_read io (c_str fname)" "can_write io (c_str fname)" "\<And>c. to_disk io (c_str fname) c = c"
  shows "\<exists>w'. run_program P t (\<lambda>_. No_fault) J io buckets fname l [] w = (Ret 0, w') \<and>
    disk w' (c_str fname) = Some (write_document J (JObject []))"
proof -
  let ?w = "logs io Info [''main: load data...''] (log_lock_freedom P io w)"
  have l: "\<exists>w3. initial_load_data P t (\<lambda>_. No_fault) J io fname (?w, new_engine buckets) = (Ret 0, w3, new_engine buckets) \<and>
    world_ok w3"
    using w m io(1) by (auto simp: initial_load_data_def load_reads load_document_def) (auto simp: world_ok_def)
  then obtain w3 where w3: "initial_load_data P t (\<lambda>_. No_fault) J io fname (?w, new_engine buckets) = (Ret 0, w3, new_engine buckets)"
    "world_ok w3" by blast
  have ok: "engine_ok P (new_engine buckets)" using n by (rule new_engine_ok)
  have items: "engine_items (new_engine buckets) = []"
    using eng.length_items [OF ok] by simp
  obtain e2 where "destroy_engine (new_engine buckets) = Ret e2" using ok by (rule destroy_engine_ok)
  then show ?thesis
    unfolding run_program_def Let_def w3(1) prod.case outcome.case HttpServer_run_def
    using store_data_eq [OF ok] w3(2) io items by (simp add: short_entries_def)
qed

end
