(* ===== verification/Program_Theorems.thy ===== *)
theory Program_Theorems
  imports Program
begin

text \<open>
  What the program guarantees around the engine: files and restarts, the HTTP handlers, URL decoding
  and logging. \<open>demo_json\<close> is an instance of the parser and writer that the guarantees are stated
  for: an encoding of objects of strings that is read back exactly (it is not JSON's).
\<close>

section \<open>An instance of the parameters\<close>

fun enc_str :: "string \<Rightarrow> string" where
  "enc_str [] = ''.''"
| "enc_str (c # cs) = CHR ''x'' # c # enc_str cs"

fun dec_str :: "string \<Rightarrow> (string \<times> string) option" where
  "dec_str [] = None"
| "dec_str [x] = (if x = CHR ''.'' then Some ([], []) else None)"
| "dec_str (x # c # r) =
     (if x = CHR ''.'' then Some ([], c # r)
      else (case dec_str r of None \<Rightarrow> None | Some (s, r') \<Rightarrow> Some (c # s, r')))"

fun enc_json :: "json \<Rightarrow> string" where
  "enc_json (JString s) = enc_str s"
| "enc_json (JObject ms) = concat (map (\<lambda>(n, v). (case n of JString s \<Rightarrow> enc_str s | _ \<Rightarrow> []) @
     (case v of JString s \<Rightarrow> enc_str s | _ \<Rightarrow> [])) ms)"
| "enc_json _ = []"

fun dec_members :: "nat \<Rightarrow> string \<Rightarrow> (json \<times> json) list option" where
  "dec_members fuel [] = Some []"
| "dec_members 0 (c # cs) = None"
| "dec_members (Suc fuel) (c # cs) =
     (case dec_str (c # cs) of
        None \<Rightarrow> None
      | Some (n, r) \<Rightarrow>
          (case dec_str r of
             None \<Rightarrow> None
           | Some (v, r') \<Rightarrow> map_option (\<lambda>ms. (JString n, JString v) # ms) (dec_members fuel r')))"

definition demo_json :: rapidjson where
  "demo_json = \<lparr>parse_document = (\<lambda>s. map_option JObject (dec_members (length s) s)), write_document = enc_json\<rparr>"

lemma dec_enc_str [simp]: "dec_str (enc_str s @ r) = Some (s, r)"
proof (induction s)
  case Nil
  then show ?case by (cases r) simp_all
qed simp

lemma enc_str_ne [simp]: "enc_str s \<noteq> []"
  by (cases s) simp_all

lemma dec_members_enc: "length (enc_json (JObject (members_of xs))) \<le> fuel \<Longrightarrow>
  dec_members fuel (enc_json (JObject (members_of xs))) = Some (members_of xs)"
proof (induction xs arbitrary: fuel)
  case (Cons x xs)
  obtain k v where x: "x = (k, v)" by (cases x)
  let ?r = "enc_json (JObject (members_of xs))"
  have e: "enc_json (JObject (members_of (x # xs))) = enc_str k @ enc_str v @ ?r" by (simp add: x)
  obtain c cs where c: "enc_str k @ enc_str v @ ?r = c # cs" by (cases "enc_str k") auto
  have "length (enc_str k) > 0" by simp
  moreover have "length (enc_str k) + (length (enc_str v) + length ?r) \<le> fuel"
    using Cons.prems unfolding e by simp
  ultimately obtain f where f: "fuel = Suc f" "length ?r \<le> f"
    by (cases fuel) (auto simp del: enc_json.simps)
  have "dec_members fuel (c # cs) = Some (members_of (x # xs))"
    unfolding f(1) dec_members.simps unfolding c [symmetric] using Cons.IH [OF f(2)] by (simp add: x)
  then show ?case unfolding e c .
qed simp

lemma demo_json_ok: "rapidjson_ok demo_json"
  by (simp add: rapidjson_ok_def demo_json_def dec_members_enc del: enc_json.simps)

definition demo_platform2 :: platform where
  "demo_platform2 = \<lparr>str_hash = (\<lambda>s. of_nat (length s)), tid_hash = of_nat, counter_lock_free = True,
     bucket_lock_free = True, next_lock_free = True, value_lock_free = True\<rparr>"

definition demo_io :: io where
  "demo_io = \<lparr>can_read = (\<lambda>_. True), can_write = (\<lambda>_. True), to_disk = (\<lambda>_ c. c),
     clk = \<lparr>now_ms = 1654041600007, now_tm = \<lparr>tm_year = 122, tm_mon = 5, tm_mday = 1, tm_hour = 0, tm_min = 0, tm_sec = 0\<rparr>\<rparr>\<rparr>"

definition demo_world :: world where
  "demo_world = \<lparr>disk = [''db'' \<mapsto> ''xk.xv.''], open_files = Map.empty, next_file = 3,
     log = \<lparr>m_minLogLevel = Debug, cout = [], cerr = []\<rparr>\<rparr>"

lemma demo_world_ok [simp]: "world_ok demo_world"
  by (simp add: world_ok_def demo_world_def)

lemma demo_io_simps [simp]: "can_read demo_io f" "can_write demo_io f" "to_disk demo_io f c = c"
  by (simp_all add: demo_io_def)

lemma c_str_db [simp]: "c_str ''db'' = ''db''"
  by (simp add: c_str_def)

lemma demo_file_map: "file_map demo_json (disk demo_world ''db'') = Some [''k'' \<mapsto> ''v'']"
  by (simp add: file_map_def demo_world_def demo_json_def)

section \<open>Files and restarts\<close>

text \<open>C4: Durability. A run of the program on a readable file with entries \<open>m\<close> that serves the calls
  \<open>cs\<close> and ends normally leaves a file with exactly the entries that the specification of the calls
  makes of \<open>m\<close>, given that RapidJSON reads back what it writes and the disk keeps what is written.\<close>

theorem program_durable:
  assumes "world_ok w" "file_map J (disk w (c_str fname)) = Some m" "0 < buckets"
    and "can_read io (c_str fname)" "can_write io (c_str fname)" "\<And>c. to_disk io (c_str fname) c = c"
    and "rapidjson_ok J" "\<forall>c\<in>set cs. call_ok c"
    and "\<And>k v. session_map J m cs k = Some v \<Longrightarrow> length k < 2 ^ 32 \<and> length v < 2 ^ 32"
  shows "\<exists>w'. run_program P t (\<lambda>_. No_fault) J io buckets fname l (map (\<lambda>c. (c, no_faults)) cs) w = (Ret 0, w') \<and>
    file_map J (disk w' (c_str fname)) = Some (session_map J m cs)"
  using assms by (rule run_program_ok)

definition demo_calls :: "call list" where
  "demo_calls = [Post_record ''a+b'' (enc_str ''value'' @ enc_str ''w''), Get_record ''a%20b'']"

lemma demo_session: "session_map demo_json [''k'' \<mapsto> ''v''] demo_calls = [''k'' \<mapsto> ''v'', ''a b'' \<mapsto> ''w'']"
  by (simp add: demo_calls_def spec_post_def request_value_def demo_json_def c_str_def)

theorem program_durable_witness:
  "\<exists>w'. run_program demo_platform2 1 (\<lambda>_. No_fault) demo_json demo_io 4 ''db'' True
      (map (\<lambda>c. (c, no_faults)) demo_calls) demo_world = (Ret 0, w') \<and>
    file_map demo_json (disk w' ''db'') = Some [''k'' \<mapsto> ''v'', ''a b'' \<mapsto> ''w'']"
proof -
  have short: "length k < 2 ^ 32 \<and> length v < 2 ^ 32"
    if "session_map demo_json [''k'' \<mapsto> ''v''] demo_calls k = Some v" for k v
    using that by (auto simp: demo_session split: if_splits)
  show ?thesis
    using program_durable [OF demo_world_ok, of demo_json "''db''" "[''k'' \<mapsto> ''v'']" 4 demo_io demo_calls
        demo_platform2 1 True, OF _ _ _ _ _ demo_json_ok _ short]
    by (simp add: demo_file_map demo_session) (simp add: demo_calls_def)
qed

text \<open>C17: Storing an engine and loading the file into a fresh one gives an engine with the same map, and
  both report the number of entries.\<close>

theorem store_load_roundtrip:
  assumes "engine_ok P e" "short_entries (engine_items e)" "world_ok w" "0 < buckets"
    and "can_read io (c_str fname)" "can_write io (c_str fname)" "\<And>c. to_disk io (c_str fname) c = c"
    and "rapidjson_ok J"
  shows "\<exists>w' w'' e'. store_data J io fname e w = (Ret (of_nat (card (dom (engine_map e)))), w') \<and>
    initial_load_data P t (\<lambda>_. No_fault) J io fname (w', new_engine buckets) =
      (Ret (of_nat (card (dom (engine_map e)))), w'', e') \<and>
    engine_ok P e' \<and> engine_map e' = engine_map e"
proof -
  define w1 where "w1 = w\<lparr>disk := (disk w)(c_str fname \<mapsto> write_document J (JObject (members_of (engine_items e)))),
    next_file := next_file w + 1\<rparr>"
  have store: "store_data J io fname e w = (Ret (of_nat (length (engine_items e))), w1)"
    using assms by (simp add: store_data_eq w1_def)
  have w1: "world_ok w1" "disk w1 (c_str fname) = Some (write_document J (JObject (members_of (engine_items e))))"
    using assms(3) by (simp_all add: world_ok_def w1_def)
  have J: "parse_document J (write_document J (JObject (members_of (engine_items e)))) = Some (JObject (members_of (engine_items e)))"
    using assms(8) by (simp add: rapidjson_ok_def)
  obtain e' where "initial_load_data P t (\<lambda>_. No_fault) J io fname (w1, new_engine buckets) =
      (Ret (of_nat (length (engine_items e))), w1\<lparr>next_file := next_file w1 + 1\<rparr>, e')"
    "engine_ok P e'" "engine_map e' = engine_map (new_engine buckets) ++ map_of (rev (engine_items e))"
    using w1 assms(5) J new_engine_ok [OF assms(4)] by (rule initial_load_members)
  with store show ?thesis
    by (auto simp: map_of_rev_distinct eng.items_distinct [OF assms(1)] eng.items_view [OF assms(1)]
        eng.length_items [OF assms(1)])
qed

theorem store_load_roundtrip_witness:
  "\<exists>w' w'' e'. store_data demo_json demo_io ''db'' (new_engine 2) demo_world = (Ret (of_nat (card (dom (engine_map (new_engine 2))))), w') \<and>
    initial_load_data demo_platform2 1 (\<lambda>_. No_fault) demo_json demo_io ''db'' (w', new_engine 3) =
      (Ret (of_nat (card (dom (engine_map (new_engine 2))))), w'', e') \<and>
    engine_ok demo_platform2 e' \<and> engine_map e' = engine_map (new_engine 2)"
proof (rule store_load_roundtrip)
  show "short_entries (engine_items (new_engine 2))"
    using eng.length_items [OF new_engine_ok [of 2 demo_platform2]] by (simp add: short_entries_def)
qed (simp_all add: new_engine_ok demo_json_ok)



text \<open>\<open>DataSerializer::load\<close> closes the file it opened on every path, whatever the visitor does, and
  changes no file.\<close>

theorem load_closes:
  assumes "world_ok w" "load J io fname visitor (w, s) = (r, w', s')"
  shows "open_files w' = open_files w \<and> disk w' = disk w \<and> world_ok w'"
  using load_world [OF assms] by simp

theorem load_closes_witness:
  "\<exists>r w' s'. load demo_json demo_io ''db'' (\<lambda>n v s. (Throw Bad_alloc, s)) (demo_world, 0 :: nat) = (r, w', s') \<and>
    open_files w' = Map.empty"
proof -
  obtain r w' s' where l: "load demo_json demo_io ''db'' (\<lambda>n v s. (Throw Bad_alloc, s)) (demo_world, 0 :: nat) = (r, w', s')"
    by (metis prod_cases3)
  from load_closes [OF demo_world_ok l] have "open_files w' = open_files demo_world" by blast
  with l show ?thesis by (simp add: demo_world_def)
qed


definition demo_reject :: rapidjson where
  "demo_reject = \<lparr>parse_document = (\<lambda>_. Some (JObject [(JString ''a'', JString ''b''), (JString ''n'', JNull)])),
     write_document = (\<lambda>_. [])\<rparr>"


section \<open>URLs\<close>

text \<open>C19: \<open>url_decode\<close> returns on every string but the single percent sign, for which \<open>len - 2\<close> wraps
  around and the loop reads behind the terminator; its result is that of the recursive decoder and is
  never longer than its argument.\<close>

theorem url_decode_total:
  assumes "length v < 2 ^ 64"
  shows "url_decode v = (if v = ''%'' then None else Some (decode v)) \<and> length (decode v) \<le> length v"
  using assms by (simp add: url_decode_eq length_decode)

theorem url_decode_total_witness: "url_decode ''%'' = None \<and> url_decode ''a%2Fb+c%4'' = Some ''a/b c%4''"
  using url_decode_total [of "''%''"] url_decode_total [of "''a%2Fb+c%4''"]
  by (simp add: sscanf_x_def c_str_def is_space_def byte_def hex_digit_def char_of_eq_iff)

text \<open>C18: Decoding undoes the encoding that clients use, for every byte string.\<close>

theorem url_decode_quote_plus:
  assumes "length (quote_plus s) < 2 ^ 64"
  shows "url_decode (quote_plus s) = Some s"
proof -
  have "quote_plus s \<noteq> ''%''" by (cases s) (auto simp: is_plain_def byte_def)
  then show ?thesis using assms by (simp add: url_decode_eq decode_quote_plus)
qed

theorem url_decode_quote_plus_witness: "url_decode ''100%25+a%2Fb'' = Some ''100% a/b''"
proof -
  have "quote_plus ''100% a/b'' = ''100%25+a%2Fb''" by code_simp
  then show ?thesis using url_decode_quote_plus [of "''100% a/b''"] by simp
qed

section \<open>Handlers\<close>

text \<open>C8: The GET handler implements its specification on the map: 400 for an empty name, 404 when there is
  no entry, otherwise 200 with the value; the response echoes the decoded name, and the map and the
  engine's invariant are kept.\<close>

theorem get_record_implements:
  assumes "engine_ok P e" "url_decode nameRaw = Some name"
  shows "case spec_get (engine_map e) name of (st, ms) \<Rightarrow>
    \<exists>e'. get_record P J no_faults nameRaw e = (Ret (json_response J st ms), e') \<and>
      engine_ok P e' \<and> engine_map e' = engine_map e"
  using assms by (rule get_record_spec)

theorem get_record_implements_witness:
  "\<exists>e'. get_record demo_platform2 demo_json no_faults ''a+b'' (new_engine 2) =
     (Ret (json_response demo_json ST_NOT_FOUND [(JString ''name'', JString ''a b''), (JString ''error'', JString ''Item not found'')]), e')"
proof -
  have "url_decode ''a+b'' = Some ''a b''" by (simp add: url_decode_eq)
  from get_record_implements [OF _ this, where P = demo_platform2 and e = "new_engine 2" and J = demo_json] show ?thesis
    by (auto simp: new_engine_ok spec_get_def str_member_def)
qed





text \<open>The statistics handler reports the two counters and their sum on 64 bits.\<close>

lemma statistics_report:
  "read_statistics J no_faults e =
     (Ret (json_response J ST_OK
        [(JString ''total'', JUint64 (m_successReads e + m_failedReads e)),
         (JString ''succeeded'', JUint64 (m_successReads e)), (JString ''failed'', JUint64 (m_failedReads e))]), e)"
  by (rule read_statistics_spec)

section \<open>Logging\<close>

text \<open>A log statement writes at most one line, to the error stream exactly from \<open>Warning\<close> on, none
  below the minimum level, and every line has its level in the same eight columns.\<close>

theorem log_statement:
  assumes "vs \<noteq> []"
  shows "log_stmt c level (map Text vs @ [Endl]) s =
    (if level < m_minLogLevel s then s
     else if Warning \<le> level then s\<lparr>cerr := cerr s @ [log_line c (concat vs) level]\<rparr>
     else s\<lparr>cout := cout s @ [log_line c (concat vs) level]\<rparr>) \<and>
    (\<exists>pre post. log_line c (concat vs) level = pre @ '' '' @ pad_left_aligned 8 CHR '' '' (level_name level) @ post \<and>
      length (pad_left_aligned 8 CHR '' '' (level_name level)) = 8)"
proof -
  let ?pre = "put_time (now_tm c) @ ''.'' @ pad_right_aligned 3 CHR ''0'' (show_nat (now_ms c mod 1000))"
  have "length (level_name level) \<le> 8" by (cases level) simp_all
  moreover have "log_line c (concat vs) level =
      ?pre @ '' '' @ pad_left_aligned 8 CHR '' '' (level_name level) @ '' '' @ concat vs"
    by (simp add: log_line_def)
  ultimately have "\<exists>pre post. log_line c (concat vs) level =
      pre @ '' '' @ pad_left_aligned 8 CHR '' '' (level_name level) @ post \<and>
    length (pad_left_aligned 8 CHR '' '' (level_name level)) = 8"
    by (intro exI [of _ ?pre] exI [of _ "'' '' @ concat vs"]) simp
  then show ?thesis
    using assms by (simp add: log_stmt_endl Logger_log_def del: log_level_less log_level_le)
qed

theorem log_statement_witness:
  "cerr (log_stmt (clk demo_io) Error (map Text [''a'', ''b''] @ [Endl]) (log demo_world)) =
     [''2022-06-01 00:00:00.007 ERROR    ab'']"
proof -
  have r: "replicate 2 x = [x, x]" "replicate 3 x = [x, x, x]" for x :: char
    by (simp_all add: numeral_eq_Suc)
  have "log_line (clk demo_io) ''ab'' Error = ''2022-06-01 00:00:00.007 ERROR    ab''"
    by (simp add: log_line_def demo_io_def put_time_def pad_right_aligned_def pad_left_aligned_def
        show_nat.simps show_digits_2 char_of_eq_iff r)
  then show ?thesis
    using log_statement [of "[''a'', ''b'']" "clk demo_io" Error "log demo_world"]
    by (simp add: demo_world_def)
qed

end
