(* ===== verification/Query_String.thy ===== *)
theory Query_String
  imports Common
begin

text \<open>
  \<open>query_string.h\<close>: the C functions that cut a URL into key/value pairs in place, and the class
  around them. A buffer is the list of its bytes with the terminator, a \<open>char*\<close> into it is an
  offset; a read or a write outside the buffer, or outside the array of pairs, is \<open>None\<close>.
\<close>

section \<open>Bytes\<close>

definition rd :: "string \<Rightarrow> nat \<Rightarrow> char option" where
  "rd buf p = (if p < length buf then Some (buf ! p) else None)"

abbreviation NUL :: char where "NUL \<equiv> CHR 0x00"

definition ishex :: "char \<Rightarrow> bool" where
  "ishex c \<longleftrightarrow> (let b = (of_char c :: nat) in 48 \<le> b \<and> b \<le> 57 \<or> 65 \<le> b \<and> b \<le> 70 \<or> 97 \<le> b \<and> b \<le> 102)"

definition hex2dec :: "char \<Rightarrow> nat" where
  "hex2dec c = (let b = (of_char c :: nat) in
     if 48 \<le> b \<and> b \<le> 57 then b - 48
     else if 65 \<le> b \<and> b \<le> 70 then b - 55
     else if 97 \<le> b \<and> b \<le> 102 then b - 87 else 0)"

definition isqschr :: "char \<Rightarrow> bool" where
  "isqschr c \<longleftrightarrow> c \<noteq> CHR ''='' \<and> c \<noteq> CHR ''#'' \<and> c \<noteq> CHR ''&'' \<and> c \<noteq> NUL"

text \<open>\<open>strcspn\<close> from an offset: it stops at the terminator or at a byte of \<open>reject\<close>.\<close>

fun cspn :: "string \<Rightarrow> string \<Rightarrow> nat option" where
  "cspn reject [] = None"
| "cspn reject (c # cs) = (if c = NUL \<or> c \<in> set reject then Some 0 else map_option Suc (cspn reject cs))"

definition strcspn :: "string \<Rightarrow> nat \<Rightarrow> string \<Rightarrow> nat option" where
  "strcspn buf p reject = cspn reject (drop p buf)"

section \<open>Comparing a key\<close>

text \<open>
  One byte of either side: its value after the decoding, and the offset behind it. The two bytes
  behind a percent sign are read whatever they are.
\<close>

definition qs_byte :: "string \<Rightarrow> nat \<Rightarrow> (nat \<times> nat) option" where
  "qs_byte buf p =
     (case rd buf p of
        None \<Rightarrow> None
      | Some c0 \<Rightarrow>
          (let c1 = (if isqschr c0 then c0 else NUL);
               c2 = (if c1 = CHR ''+'' then CHR '' '' else c1)
           in if c2 = CHR ''%'' then
                (case (rd buf (p + 1), rd buf (p + 2)) of
                   (Some u, Some l) \<Rightarrow>
                     Some (if ishex u \<and> ishex l then hex2dec u * 16 + hex2dec l else 0, p + 3)
                 | _ \<Rightarrow> None)
              else Some (of_char c2, p + 1)))"

fun qs_strncmp :: "string \<Rightarrow> nat \<Rightarrow> string \<Rightarrow> nat \<Rightarrow> nat \<Rightarrow> int option" where
  "qs_strncmp s sp qs p 0 =
     (case rd qs p of None \<Rightarrow> None | Some c \<Rightarrow> Some (if isqschr c then -1 else 0))"
| "qs_strncmp s sp qs p (Suc n) =
     (case (qs_byte s sp, qs_byte qs p) of
        (Some (u1, sp'), Some (u2, p')) \<Rightarrow>
          (if u1 \<noteq> u2 then Some (int u1 - int u2)
           else if u1 = 0 then Some 0
           else qs_strncmp s sp' qs p' n)
      | _ \<Rightarrow> None)"

section \<open>Decoding in place\<close>

function decode_loop :: "string \<Rightarrow> nat \<Rightarrow> nat \<Rightarrow> nat \<Rightarrow> (nat \<times> string) option" where
  "decode_loop buf qs i j =
     (case rd buf (qs + j) of
        None \<Rightarrow> None
      | Some c \<Rightarrow>
          (if \<not> isqschr c then Some (i, buf[qs + i := NUL])
           else if c = CHR ''+'' then decode_loop (buf[qs + i := CHR '' '']) qs (i + 1) (j + 1)
           else if c = CHR ''%'' then
             (case rd buf (qs + j + 1) of
                None \<Rightarrow> None
              | Some u \<Rightarrow>
                  (if \<not> ishex u then Some (i, buf[qs + i := NUL])
                   else (case rd buf (qs + j + 2) of
                       None \<Rightarrow> None
                     | Some l \<Rightarrow>
                         (if \<not> ishex l then Some (i, buf[qs + i := NUL])
                          else decode_loop (buf[qs + i := char_of (hex2dec u * 16 + hex2dec l)]) qs (i + 1) (j + 3)))))
           else decode_loop (buf[qs + i := c]) qs (i + 1) (j + 1)))"
  by pat_completeness auto
termination
  by (relation "measure (\<lambda>(buf, qs, i, j). length buf - (qs + j))") (auto simp: rd_def split: if_splits)

declare decode_loop.simps [simp del]

definition qs_decode :: "string \<Rightarrow> nat \<Rightarrow> (nat \<times> string) option" where
  "qs_decode buf qs = decode_loop buf qs 0 0"

section \<open>Cutting the URL\<close>

text \<open>The first loop: the beginnings of the pairs, up to the size of the array.\<close>

function split_loop :: "string \<Rightarrow> nat \<Rightarrow> nat \<Rightarrow> nat \<Rightarrow> nat option list \<Rightarrow> (nat \<times> nat option list) option" where
  "split_loop buf cap i p kv =
     (if i < cap then
        (case strcspn buf p ''&'' of
           None \<Rightarrow> None
         | Some j \<Rightarrow>
             (case rd buf (p + j) of
                None \<Rightarrow> None
              | Some c \<Rightarrow>
                  (if c = NUL then Some (i, kv[i := Some p])
                   else split_loop buf cap (i + 1) (p + j + 1) (kv[i := Some p]))))
      else Some (i, kv))"
  by pat_completeness auto
termination
  by (relation "measure (\<lambda>(buf, cap, i, p, kv). cap - i)") auto

declare split_loop.simps [simp del]

text \<open>The second loop, over the pairs \<open>j, \<dots>, i - 1\<close>; an entry outside the array or not set is \<open>None\<close>.\<close>

function decode_pairs :: "string \<Rightarrow> nat option list \<Rightarrow> nat \<Rightarrow> nat \<Rightarrow> string option" where
  "decode_pairs buf kv i j =
     (if j < i then
        (case (if j < length kv then kv ! j else None) of
           None \<Rightarrow> None
         | Some p \<Rightarrow>
             (case strcspn buf p ''=&#'' of
                None \<Rightarrow> None
              | Some k \<Rightarrow>
                  (case rd buf (p + k) of
                     None \<Rightarrow> None
                   | Some c \<Rightarrow>
                       (if c = CHR ''&'' \<or> c = NUL then decode_pairs (buf[p + k := NUL]) kv i (j + 1)
                        else (case qs_decode buf (p + k + 1) of
                            None \<Rightarrow> None
                          | Some (n, buf') \<Rightarrow> decode_pairs buf' kv i (j + 1))))))
      else Some buf)"
  by pat_completeness auto
termination
  by (relation "measure (\<lambda>(buf, kv, i, j). i - j)") auto

declare decode_pairs.simps [simp del]

text \<open>The count, the array and the buffer.\<close>

definition qs_parse :: "string \<Rightarrow> nat \<Rightarrow> (nat \<times> nat option list \<times> string) option" where
  "qs_parse buf cap =
     (let kv = replicate cap None
      in case strcspn buf 0 ''?#'' of
           None \<Rightarrow> None
         | Some q \<Rightarrow>
             (case rd buf q of
                None \<Rightarrow> None
              | Some c \<Rightarrow>
                  (if c = NUL then Some (0, kv, buf)
                   else (case split_loop buf cap 0 (q + 1) kv of
                       None \<Rightarrow> None
                     | Some (i, kv') \<Rightarrow>
                         (case decode_pairs buf kv' (i + 1) 0 of
                            None \<Rightarrow> None
                          | Some buf' \<Rightarrow> Some (i + 1, kv', buf'))))))"

section \<open>Looking up\<close>

text \<open>\<open>None\<close>: no meaning. \<open>Some None\<close>: \<open>nullptr\<close>.\<close>

definition value_offset :: "string \<Rightarrow> nat \<Rightarrow> nat option" where
  "value_offset buf p =
     (case strcspn buf p ''='' of
        None \<Rightarrow> None
      | Some skip \<Rightarrow>
          (case rd buf (p + skip) of
             None \<Rightarrow> None
           | Some c \<Rightarrow> Some (p + (if c = CHR ''='' then skip + 1 else skip))))"

fun k2v_loop :: "string \<Rightarrow> string \<Rightarrow> nat list \<Rightarrow> nat \<Rightarrow> nat option option" where
  "k2v_loop key buf [] occ = Some None"
| "k2v_loop key buf (p # ps) occ =
     (case qs_strncmp (key @ [NUL]) 0 buf p (length key) of
        None \<Rightarrow> None
      | Some r \<Rightarrow>
          (if r = 0 then
             (case value_offset buf p of
                None \<Rightarrow> None
              | Some v \<Rightarrow> (case occ of 0 \<Rightarrow> Some (Some v) | Suc n \<Rightarrow> k2v_loop key buf ps n))
           else k2v_loop key buf ps occ))"

definition qs_k2v :: "string \<Rightarrow> string \<Rightarrow> nat list \<Rightarrow> nat \<Rightarrow> nat option option" where
  "qs_k2v key buf kv occ = k2v_loop (c_str key) buf kv occ"

text \<open>The C string at an offset.\<close>

definition text_at :: "string \<Rightarrow> nat \<Rightarrow> string" where
  "text_at buf p = c_str (drop p buf)"

text \<open>
  \<open>nth\<close> (here \<open>occ\<close>) is an \<open>int\<close> here: it goes below 0 when a pair has the name but not the brackets, and then no
  later pair is found.
\<close>

fun dict_loop :: "string \<Rightarrow> string \<Rightarrow> nat list \<Rightarrow> int \<Rightarrow> (string \<times> string) option" where
  "dict_loop name buf [] occ = None"
| "dict_loop name buf (p # ps) occ =
     (let item = text_at buf p;
          eq = length (takeWhile (\<lambda>c. c \<noteq> CHR ''='') item);
          eq' = (if eq < length item then eq + 1 else eq);
          bo = length (takeWhile (\<lambda>c. c \<noteq> CHR ''['') item);
          bo' = (if bo < length item then bo + 1 else bo);
          bc = length (takeWhile (\<lambda>c. c \<noteq> CHR '']'') item)
      in if take (length name) item = name then
           (if bo' \<le> bc \<and> bo' > 0 \<and> bc > 0 \<and> occ = 0
            then Some (take (bc - bo') (drop bo' item), drop eq' item)
            else dict_loop name buf ps (occ - 1))
         else dict_loop name buf ps occ)"

definition qs_dict_name2kv :: "string \<Rightarrow> string \<Rightarrow> nat list \<Rightarrow> nat \<Rightarrow> (string \<times> string) option" where
  "qs_dict_name2kv name buf kv occ = dict_loop (c_str name) buf kv (int occ)"

section \<open>The class\<close>

text \<open>\<open>url_\<close> with its terminator, and \<open>key_value_pairs_\<close> as offsets into it.\<close>

record query_string =
  qs_url :: string
  key_value_pairs :: "nat list"

definition MAX_KEY_VALUE_PAIRS_COUNT :: nat where
  "MAX_KEY_VALUE_PAIRS_COUNT = 256"

definition empty_query_string :: query_string where
  "empty_query_string = \<lparr>qs_url = [NUL], key_value_pairs = []\<rparr>"

definition query_string_of :: "string \<Rightarrow> query_string option" where
  "query_string_of u =
     (if u = [] then Some empty_query_string
      else (case qs_parse (u @ [NUL]) MAX_KEY_VALUE_PAIRS_COUNT of
          None \<Rightarrow> None
        | Some (count, kv, buf) \<Rightarrow> Some \<lparr>qs_url = buf, key_value_pairs = map the (take count kv)\<rparr>))"

definition qs_clear :: "query_string \<Rightarrow> query_string" where
  "qs_clear q = \<lparr>qs_url = [NUL], key_value_pairs = []\<rparr>"

text \<open>The texts that the pointers denote, in order.\<close>

definition items :: "query_string \<Rightarrow> string list" where
  "items q = map (text_at (qs_url q)) (key_value_pairs q)"

definition qs_get :: "string \<Rightarrow> query_string \<Rightarrow> nat option option" where
  "qs_get name q = qs_k2v name (qs_url q) (key_value_pairs q) 0"

text \<open>Removing the pairs that a loop of \<open>pop\<close>, \<open>pop_list\<close> or \<open>pop_dict\<close> erases.\<close>

definition has_prefix :: "string \<Rightarrow> query_string \<Rightarrow> nat \<Rightarrow> bool" where
  "has_prefix prefix q p \<longleftrightarrow> take (length prefix) (text_at (qs_url q) p) = prefix"

fun erase_first :: "('a \<Rightarrow> bool) \<Rightarrow> 'a list \<Rightarrow> 'a list" where
  "erase_first P [] = []"
| "erase_first P (x # xs) = (if P x then xs else x # erase_first P xs)"

fun erase_all :: "('a \<Rightarrow> bool) \<Rightarrow> 'a list \<Rightarrow> 'a list" where
  "erase_all P [] = []"
| "erase_all P (x # xs) = (if P x then erase_all P xs else x # erase_all P xs)"

definition qs_pop :: "string \<Rightarrow> query_string \<Rightarrow> (nat option \<times> query_string) option" where
  "qs_pop name q =
     (case qs_get name q of
        None \<Rightarrow> None
      | Some None \<Rightarrow> Some (None, q)
      | Some (Some v) \<Rightarrow>
          Some (Some v, q\<lparr>key_value_pairs := erase_first (has_prefix (name @ ''='') q) (key_value_pairs q)\<rparr>))"

text \<open>The loops that ask for one occurrence after the other until there is none.\<close>

lemma k2v_loop_bound: "k2v_loop key buf ps occ = Some (Some v) \<Longrightarrow> occ < length ps"
proof (induction ps arbitrary: occ)
  case (Cons p ps)
  then show ?case
    by (auto split: option.splits if_splits nat.splits dest!: Cons.IH)
qed simp

function list_loop :: "string \<Rightarrow> query_string \<Rightarrow> nat \<Rightarrow> nat list option" where
  "list_loop key q count =
     (case qs_k2v key (qs_url q) (key_value_pairs q) count of
        None \<Rightarrow> None
      | Some None \<Rightarrow> Some []
      | Some (Some v) \<Rightarrow> map_option (Cons v) (list_loop key q (count + 1)))"
  by pat_completeness auto
termination
  by (relation "measure (\<lambda>(key, q, count). length (key_value_pairs q) - count)")
    (auto simp: qs_k2v_def dest: k2v_loop_bound)

declare list_loop.simps [simp del]

definition get_list :: "string \<Rightarrow> bool \<Rightarrow> query_string \<Rightarrow> nat list option" where
  "get_list name use_brackets q = list_loop (name @ (if use_brackets then ''[]'' else [])) q 0"

definition pop_list :: "string \<Rightarrow> bool \<Rightarrow> query_string \<Rightarrow> (nat list \<times> query_string) option" where
  "pop_list name use_brackets q =
     (case get_list name use_brackets q of
        None \<Rightarrow> None
      | Some ret \<Rightarrow>
          Some (ret, if ret = [] then q
            else q\<lparr>key_value_pairs :=
              erase_all (has_prefix (name @ (if use_brackets then ''[]='' else ''='')) q) (key_value_pairs q)\<rparr>))"

lemma dict_loop_bound: "dict_loop name buf ps occ = Some v \<Longrightarrow> occ < int (length ps)"
proof (induction ps arbitrary: occ)
  case (Cons p ps)
  then show ?case by (fastforce simp: Let_def split: if_splits dest: Cons.IH)
qed simp

function dict_entries :: "string \<Rightarrow> query_string \<Rightarrow> nat \<Rightarrow> (string \<times> string) list" where
  "dict_entries name q count =
     (case qs_dict_name2kv name (qs_url q) (key_value_pairs q) count of
        None \<Rightarrow> []
      | Some e \<Rightarrow> e # dict_entries name q (count + 1))"
  by pat_completeness auto
termination
  by (relation "measure (\<lambda>(name, q, count). length (key_value_pairs q) - count)")
    (auto simp: qs_dict_name2kv_def dest: dict_loop_bound)

declare dict_entries.simps [simp del]

text \<open>\<open>unordered_map::insert\<close> keeps the first value of a key.\<close>

definition get_dict :: "string \<Rightarrow> query_string \<Rightarrow> (string \<rightharpoonup> string)" where
  "get_dict name q = map_of (dict_entries name q 0)"

definition pop_dict :: "string \<Rightarrow> query_string \<Rightarrow> (string \<rightharpoonup> string) \<times> query_string" where
  "pop_dict name q =
     (get_dict name q,
      if dict_entries name q 0 = [] then q
      else q\<lparr>key_value_pairs := erase_all (has_prefix (name @ ''['') q) (key_value_pairs q)\<rparr>)"

definition qs_keys :: "query_string \<Rightarrow> string list" where
  "qs_keys q = map (takeWhile (\<lambda>c. c \<noteq> CHR ''='')) (items q)"

end
