(* ===== verification/Query_Lemmas.thy ===== *)
theory Query_Lemmas
  imports Query_String Url_Decode
begin

text \<open>
  What the in-place algorithms of \<open>query_string.h\<close> compute: the buffer is a row of blocks, one for
  each pair, and cutting and decoding turn the blocks one after the other into C strings.
\<close>

section \<open>Decoding in place is a function of the text\<close>

fun udec :: "string \<Rightarrow> string" where
  "udec [] = []"
| "udec (c # cs) =
     (if \<not> isqschr c then []
      else if c = CHR ''+'' then CHR '' '' # udec cs
      else if c = CHR ''%'' then
        (case cs of
           a # b # r \<Rightarrow> (if ishex a \<and> ishex b then char_of (hex2dec a * 16 + hex2dec b) # udec r else [])
         | _ \<Rightarrow> [])
      else c # udec cs)"

lemma special_chars [simp]:
  "\<not> isqschr NUL" "\<not> isqschr CHR ''&''" "\<not> isqschr CHR ''=''" "\<not> isqschr CHR ''#''"
  "\<not> ishex NUL" "\<not> ishex CHR ''&''" "isqschr CHR ''+''" "isqschr CHR ''%''"
  by (simp_all add: isqschr_def ishex_def Let_def)

lemma length_udec: "length (udec w) \<le> length w"
proof (induction w rule: udec.induct)
  case (2 c cs)
  show ?case
  proof (cases "isqschr c \<and> c = CHR ''%''")
    case True
    show ?thesis
    proof (cases "\<exists>a b r. cs = a # b # r")
      case T: True
      then obtain a b r where "cs = a # b # r" by blast
      with 2(2) [of a "b # r" b r] True show ?thesis by auto
    next
      case False
      then show ?thesis using True by (auto split: list.splits)
    qed
  next
    case False
    with 2(1,3) show ?thesis by auto
  qed
qed simp

lemma rd_drop: "drop p buf = c # cs \<Longrightarrow> rd buf p = Some c"
proof -
  assume *: "drop p buf = c # cs"
  then have "p < length buf" by (metis drop_all list.distinct(1) not_le)
  then show ?thesis using * by (simp add: rd_def nth_via_drop)
qed

lemma take_update_Suc: "p < length buf \<Longrightarrow> take (Suc p) (buf[p := c]) = take p buf @ [c]"
  by (simp add: take_Suc_conv_app_nth)

lemma update_split: "p < length buf \<Longrightarrow> buf[p := c] = take p buf @ c # drop (Suc p) buf"
  by (rule upd_conv_take_nth_drop)

lemma decode_loop_udec:
  assumes "drop (qs + j) buf = w @ NUL # r" "NUL \<notin> set w" "i \<le> j"
  shows "decode_loop buf qs i j =
    Some (i + length (udec w), take (qs + i) buf @ udec w @ NUL # drop (Suc (qs + i + length (udec w))) buf)"
  using assms
proof (induction w arbitrary: buf i j rule: udec.induct)
  case 1
  then have "rd buf (qs + j) = Some NUL" "qs + i < length buf" by (auto simp: rd_drop dest: drop_lessD)
  then show ?case by (simp add: decode_loop.simps update_split)
next
  case (2 c cs)
  from 2(4) have d0: "drop (qs + j) buf = c # cs @ NUL # r" by simp
  note c0 = rd_drop [OF d0] and d1 = drop_SucD [OF d0]
  have len: "qs + i < length buf" using drop_lessD [OF d0] 2(6) by simp
  have step: "decode_loop (buf[qs + i := x]) qs (Suc i) (Suc (j + k)) =
      Some (i + length (x # udec y), take (qs + i) buf @ (x # udec y) @
        NUL # drop (Suc (qs + i + length (x # udec y))) buf)"
    if IH: "\<And>buf i j. \<lbrakk>drop (qs + j) buf = y @ NUL # r; NUL \<notin> set y; i \<le> j\<rbrakk> \<Longrightarrow>
        decode_loop buf qs i j = Some (i + length (udec y),
          take (qs + i) buf @ udec y @ NUL # drop (Suc (qs + i + length (udec y))) buf)"
      and d: "drop (Suc (qs + j + k)) buf = y @ NUL # r" and y: "NUL \<notin> set y" for x y k
  proof -
    have "drop (qs + Suc (j + k)) (buf[qs + i := x]) = y @ NUL # r"
      using d 2(6) by (simp add: add.assoc)
    from IH [OF this y] 2(6) show ?thesis
      using len by (simp add: take_update_Suc)
  qed
  show ?case
  proof (cases "isqschr c")
    case False
    then show ?thesis using c0 len by (simp add: decode_loop.simps update_split)
  next
    case q: True
    consider (plus) "c = CHR ''+''" | (plain) "c \<noteq> CHR ''+''" "c \<noteq> CHR ''%''" | (esc) "c = CHR ''%''" by blast
    then show ?thesis
    proof cases
      case plus
      have "\<And>buf i j. \<lbrakk>drop (qs + j) buf = cs @ NUL # r; NUL \<notin> set cs; i \<le> j\<rbrakk> \<Longrightarrow>
        decode_loop buf qs i j = Some (i + length (udec cs),
          take (qs + i) buf @ udec cs @ NUL # drop (Suc (qs + i + length (udec cs))) buf)"
        using 2(1) q plus by simp
      from step [OF this, of 0 "CHR '' ''"] d1 2(5) q plus c0
      show ?thesis by (subst decode_loop.simps) simp
    next
      case plain
      have "\<And>buf i j. \<lbrakk>drop (qs + j) buf = cs @ NUL # r; NUL \<notin> set cs; i \<le> j\<rbrakk> \<Longrightarrow>
        decode_loop buf qs i j = Some (i + length (udec cs),
          take (qs + i) buf @ udec cs @ NUL # drop (Suc (qs + i + length (udec cs))) buf)"
        using 2(3) q plain by simp
      from step [OF this, of 0 c] d1 2(5) q plain c0
      show ?thesis by (subst decode_loop.simps) simp
    next
      case esc
      show ?thesis
      proof (cases cs)
        case Nil
        then show ?thesis using esc c0 d1 len rd_drop [OF d1 [unfolded Nil append_Nil]]
          by (subst decode_loop.simps) (simp add: update_split)
      next
        case (Cons a cs1)
        have a0: "rd buf (Suc (qs + j)) = Some a" using d1 Cons by (intro rd_drop) auto
        have d2: "drop (Suc (Suc (qs + j))) buf = cs1 @ NUL # r"
          using drop_SucD [of "Suc (qs + j)" buf a] d1 Cons by simp
        show ?thesis
        proof (cases cs1)
          case Nil
          then have "rd buf (Suc (Suc (qs + j))) = Some NUL" using d2 by (intro rd_drop) auto
          then show ?thesis using esc c0 a0 len Cons Nil
            by (subst decode_loop.simps) (simp add: update_split)
        next
          case C2: (Cons b cs2)
          have b0: "rd buf (Suc (Suc (qs + j))) = Some b" using d2 C2 by (intro rd_drop) auto
          have d3: "drop (Suc (qs + j + 2)) buf = cs2 @ NUL # r"
            using drop_SucD [of "Suc (Suc (qs + j))" buf b] d2 C2 by (simp add: eval_nat_numeral)
          show ?thesis
          proof (cases "ishex a \<and> ishex b")
            case False
            then show ?thesis using esc c0 a0 b0 len Cons C2
              by (subst decode_loop.simps) (auto simp: update_split)
          next
            case True
            have "\<And>buf i j. \<lbrakk>drop (qs + j) buf = cs2 @ NUL # r; NUL \<notin> set cs2; i \<le> j\<rbrakk> \<Longrightarrow>
              decode_loop buf qs i j = Some (i + length (udec cs2),
                take (qs + i) buf @ udec cs2 @ NUL # drop (Suc (qs + i + length (udec cs2))) buf)"
              using 2(2) [OF _ _ _ Cons C2 True] q esc by simp
            from step [OF this d3, of "char_of (hex2dec a * 16 + hex2dec b)"] 2(5) esc c0 a0 b0 Cons C2 True
            show ?thesis by (subst decode_loop.simps) (simp add: eval_nat_numeral)
          qed
        qed
      qed
    qed
  qed
qed

lemma udec_stop:
  "\<not> isqschr s \<Longrightarrow> \<not> ishex s \<Longrightarrow> udec (w @ s # x) = udec w"
proof (induction w rule: udec.induct)
  case (2 c cs)
  then show ?case
    by (cases cs; cases "tl cs"; cases x) auto
qed simp

section \<open>Blocks\<close>

lemma cspn_append:
  "\<forall>c\<in>set k. c \<noteq> NUL \<and> c \<notin> set rej \<Longrightarrow> x = NUL \<or> x \<in> set rej \<Longrightarrow> cspn rej (k @ x # r) = Some (length k)"
  by (induction k) auto

definition seg_key :: "string \<Rightarrow> string" where
  "seg_key s = takeWhile (\<lambda>c. c \<noteq> CHR ''='' \<and> c \<noteq> CHR ''#'') s"

text \<open>A pair \<open>s\<close> in front of \<open>sep\<close>, and what is left of the two.\<close>

definition block :: "string \<Rightarrow> char \<Rightarrow> string" where
  "block s sep =
     (let k = seg_key s
      in if k = s then s @ [NUL]
         else (let w = drop (Suc (length k)) s; d = udec w
               in k @ s ! length k # d @ NUL # drop (Suc (length d)) (w @ [sep])))"

definition segment :: "string \<Rightarrow> bool" where
  "segment s \<longleftrightarrow> NUL \<notin> set s \<and> CHR ''&'' \<notin> set s"

lemma seg_key_all: "\<forall>c\<in>set s. c \<noteq> CHR ''='' \<and> c \<noteq> CHR ''#'' \<Longrightarrow> seg_key s = s"
  by (simp add: seg_key_def takeWhile_eq_all_conv)

lemma seg_key_append:
  "\<forall>c\<in>set k. c \<noteq> CHR ''='' \<and> c \<noteq> CHR ''#'' \<Longrightarrow> e = CHR ''='' \<or> e = CHR ''#'' \<Longrightarrow> seg_key (k @ e # w) = k"
  by (induction k) (auto simp: seg_key_def)

lemma block_all: "\<forall>c\<in>set s. c \<noteq> CHR ''='' \<and> c \<noteq> CHR ''#'' \<Longrightarrow> block s sep = s @ [NUL]"
  by (simp add: block_def seg_key_all)

lemma block_append:
  "\<forall>c\<in>set k. c \<noteq> CHR ''='' \<and> c \<noteq> CHR ''#'' \<Longrightarrow> e = CHR ''='' \<or> e = CHR ''#'' \<Longrightarrow>
    block (k @ e # w) sep = k @ e # udec w @ NUL # drop (Suc (length (udec w))) (w @ [sep])"
  by (simp add: block_def seg_key_append Let_def)

lemma seg_key_split:
  obtains "\<forall>c\<in>set s. c \<noteq> CHR ''='' \<and> c \<noteq> CHR ''#''"
  | k e w where "s = k @ e # w" "e = CHR ''='' \<or> e = CHR ''#''" "\<forall>c\<in>set k. c \<noteq> CHR ''='' \<and> c \<noteq> CHR ''#''"
proof (cases "\<exists>x\<in>set s. x = CHR ''='' \<or> x = CHR ''#''")
  case True
  then obtain k e w where w: "s = k @ e # w" "e = CHR ''='' \<or> e = CHR ''#''"
    "\<forall>y\<in>set k. \<not> (y = CHR ''='' \<or> y = CHR ''#'')"
    by (rule split_list_first_propE)
  then show ?thesis by (intro that(2) [of k e w]) simp_all
next
  case False
  then show ?thesis by (intro that(1)) auto
qed

lemma length_block [simp]: "length (block s sep) = Suc (length s)"
proof (cases rule: seg_key_split [of s])
  case 1
  then show ?thesis by (simp add: block_all)
next
  case (2 k e w)
  show ?thesis unfolding 2(1) block_append [OF 2(3,2)] using length_udec [of w] by simp
qed

lemma decode_pairs_step:
  assumes s: "segment s" and j: "j < length kv" "j < i" "kv ! j = Some (length base)"
    and sep: "sep = NUL \<or> sep = CHR ''&'' \<and> NUL \<in> set rest"
  shows "decode_pairs (base @ s @ sep # rest) kv i j =
    decode_pairs (base @ block s sep @ rest) kv i (Suc j)"
proof (cases rule: seg_key_split [of s])
  case 1
  have "strcspn (base @ s @ sep # rest) (length base) ''=&#'' = Some (length s)"
    using 1 s sep cspn_append [of s "''=&#''" sep rest] by (auto simp: segment_def strcspn_def)
  moreover have "rd (base @ s @ sep # rest) (length base + length s) = Some sep" by (rule rd_drop) simp
  moreover have "(base @ s @ sep # rest)[length base + length s := NUL] = base @ block s sep @ rest"
    using 1 by (simp add: block_all list_update_append)
  ultimately show ?thesis using j sep by (subst decode_pairs.simps) auto
next
  case (2 k e w)
  let ?buf = "base @ s @ sep # rest" let ?p = "length base + length k + 1"
  have w: "NUL \<notin> set w" "CHR ''&'' \<notin> set w" and k: "NUL \<notin> set k" "CHR ''&'' \<notin> set k"
    using s 2(1) by (auto simp: segment_def)
  have "strcspn ?buf (length base) ''=&#'' = Some (length k)"
    using 2 k cspn_append [of k "''=&#''" e "w @ sep # rest"] by (auto simp: strcspn_def)
  moreover have "rd ?buf (length base + length k) = Some e" using 2(1) by (intro rd_drop) simp
  moreover have "qs_decode ?buf ?p = Some (length (udec w), base @ block s sep @ rest)"
  proof -
    have d: "drop ?p ?buf = w @ sep # rest" using 2(1) by simp
    have t: "take ?p ?buf = base @ k @ [e]" using 2(1) by simp
    have m: "drop (Suc (?p + n)) ?buf = drop (Suc n) (w @ [sep]) @ rest" if "n \<le> length w" for n
    proof -
      have "drop (Suc (?p + n)) ?buf = drop (Suc n) (drop ?p ?buf)" unfolding drop_drop by (simp add: add.commute)
      also have "\<dots> = drop (Suc n) (w @ [sep]) @ rest" unfolding d
        by (cases "n = length w") (use that in \<open>simp_all add: Suc_diff_le\<close>)
      finally show ?thesis .
    qed
    have blk: "block s sep = k @ e # udec w @ NUL # drop (Suc (length (udec w))) (w @ [sep])"
      using 2 by (simp add: block_append)
    from sep show ?thesis
    proof
      assume "sep = NUL"
      with decode_loop_udec [of ?p 0 ?buf w rest 0] d t m [OF length_udec] blk w
      show ?thesis by (simp add: qs_decode_def)
    next
      assume sep: "sep = CHR ''&'' \<and> NUL \<in> set rest"
      then obtain r1 r2 where r: "rest = r1 @ NUL # r2" "NUL \<notin> set r1" by (meson split_list_first)
      have "udec (w @ sep # r1) = udec w" using sep by (intro udec_stop) auto
      with decode_loop_udec [of ?p 0 ?buf "w @ sep # r1" r2 0] d t m [OF length_udec [of w]] blk w r sep
      show ?thesis by (simp add: qs_decode_def)
    qed
  qed
  ultimately show ?thesis using j 2(2) by (subst decode_pairs.simps) auto
qed

fun layout :: "string list \<Rightarrow> string" where
  "layout [] = []"
| "layout [s] = s @ [NUL]"
| "layout (s # ss) = s @ CHR ''&'' # layout ss"

fun blocks :: "string list \<Rightarrow> string" where
  "blocks [] = []"
| "blocks [s] = block s NUL"
| "blocks (s # ss) = block s CHR ''&'' @ blocks ss"

fun offsets :: "nat \<Rightarrow> string list \<Rightarrow> nat list" where
  "offsets b [] = []"
| "offsets b (s # ss) = b # offsets (b + length s + 1) ss"

lemma length_offsets [simp]: "length (offsets b ss) = length ss"
  by (induction ss arbitrary: b) auto

lemma NUL_layout [simp]: "ss \<noteq> [] \<Longrightarrow> NUL \<in> set (layout ss)"
  by (induction ss rule: layout.induct) auto

lemma decode_pairs_all:
  assumes "ss \<noteq> []" "\<forall>s\<in>set ss. segment s" "j + length ss \<le> length kv"
    and "\<And>i. i < length ss \<Longrightarrow> kv ! (j + i) = Some (offsets (length base) ss ! i)"
  shows "decode_pairs (base @ layout ss) kv (j + length ss) j = Some (base @ blocks ss)"
  using assms
proof (induction ss arbitrary: base j rule: layout.induct)
  case (2 s)
  have "decode_pairs (base @ s @ NUL # []) kv (Suc j) j = decode_pairs (base @ block s NUL @ []) kv (Suc j) (Suc j)"
    using 2(2,3) 2(4) [of 0] by (intro decode_pairs_step) auto
  also have "\<dots> = Some (base @ block s NUL)" by (simp add: decode_pairs.simps)
  finally show ?case by simp
next
  case (3 s s' ss)
  let ?ss = "s' # ss"
  have "decode_pairs (base @ s @ CHR ''&'' # layout ?ss) kv (j + length (s # ?ss)) j =
      decode_pairs (base @ block s CHR ''&'' @ layout ?ss) kv (j + length (s # ?ss)) (Suc j)"
    using 3(3,4) 3(5) [of 0] by (intro decode_pairs_step) auto
  also have "\<dots> = decode_pairs ((base @ block s CHR ''&'') @ layout ?ss) kv (Suc j + length ?ss) (Suc j)" by simp
  also have "\<dots> = Some ((base @ block s CHR ''&'') @ blocks ?ss)"
  proof (rule 3(1))
    show "kv ! (Suc j + i) = Some (offsets (length (base @ block s CHR ''&'')) ?ss ! i)" if "i < length ?ss" for i
      using 3(5) [of "Suc i"] that by simp
  qed (use 3(3,4) in auto)
  finally show ?case by simp
qed simp

lemma decode_pairs_out: "j \<le> length kv \<Longrightarrow> length kv < i \<Longrightarrow> decode_pairs buf kv i j = None"
proof (induction buf kv i j rule: decode_pairs.induct)
  case (1 buf kv i j)
  show ?case
  proof (cases "j < length kv")
    case True
    with 1 show ?thesis by (subst decode_pairs.simps) (auto split: option.splits)
  next
    case False
    with 1 show ?thesis by (subst decode_pairs.simps) auto
  qed
qed

section \<open>Cutting\<close>

lemma split_loop_ok:
  assumes "ss \<noteq> []" "\<forall>s\<in>set ss. segment s" "i + length ss \<le> cap" "length kv = cap"
  shows "split_loop (base @ layout ss) cap i (length base) kv =
    Some (i + length ss - 1, take i kv @ map Some (offsets (length base) ss) @ drop (i + length ss) kv)"
  using assms
proof (induction ss arbitrary: base i kv rule: layout.induct)
  case (2 s)
  have "strcspn (base @ layout [s]) (length base) ''&'' = Some (length s)"
    using 2 cspn_append [of s "''&''" NUL "[]"] by (auto simp: segment_def strcspn_def)
  moreover have "rd (base @ layout [s]) (length base + length s) = Some NUL" by (rule rd_drop) simp
  ultimately show ?case using 2 by (subst split_loop.simps) (simp add: update_split)
next
  case (3 s s' ss)
  let ?ss = "s' # ss" let ?kv = "kv[i := Some (length base)]"
  have i: "i < cap" using 3(4) by simp
  have "strcspn (base @ layout (s # ?ss)) (length base) ''&'' = Some (length s)"
    using 3(3) cspn_append [of s "''&''" "CHR ''&''" "layout ?ss"] by (auto simp: segment_def strcspn_def)
  moreover have "rd (base @ layout (s # ?ss)) (length base + length s) = Some CHR ''&''" by (rule rd_drop) simp
  ultimately have "split_loop (base @ layout (s # ?ss)) cap i (length base) kv =
      split_loop ((base @ s @ ''&'') @ layout ?ss) cap (Suc i) (length (base @ s @ ''&'')) ?kv"
    using i by (subst split_loop.simps) (simp add: add.assoc)
  also have "\<dots> = Some (Suc i + length ?ss - 1,
      take (Suc i) ?kv @ map Some (offsets (length (base @ s @ ''&'')) ?ss) @ drop (Suc i + length ?ss) ?kv)"
    using 3(3-5) by (intro 3(1)) auto
  finally show ?case using i 3(5) by (simp add: take_update_Suc add.assoc)
qed simp

lemma split_loop_full:
  assumes "ss \<noteq> []" "\<forall>s\<in>set ss. segment s" "cap < i + length ss" "i \<le> cap" "length kv = cap"
  shows "\<exists>kv'. split_loop (base @ layout ss) cap i (length base) kv = Some (cap, kv') \<and> length kv' = cap"
  using assms
proof (induction ss arbitrary: base i kv rule: layout.induct)
  case (2 s)
  then show ?case by (subst split_loop.simps) simp
next
  case (3 s s' ss)
  let ?ss = "s' # ss" let ?kv = "kv[i := Some (length base)]"
  show ?case
  proof (cases "i = cap")
    case True
    then show ?thesis using 3(6) by (subst split_loop.simps) simp
  next
    case False
    have "strcspn (base @ layout (s # ?ss)) (length base) ''&'' = Some (length s)"
      using 3(3) cspn_append [of s "''&''" "CHR ''&''" "layout ?ss"] by (auto simp: segment_def strcspn_def)
    moreover have "rd (base @ layout (s # ?ss)) (length base + length s) = Some CHR ''&''" by (rule rd_drop) simp
    ultimately have "split_loop (base @ layout (s # ?ss)) cap i (length base) kv =
        split_loop ((base @ s @ ''&'') @ layout ?ss) cap (Suc i) (length (base @ s @ ''&'')) ?kv"
      using False 3(5) by (subst split_loop.simps) (simp add: add.assoc)
    moreover have "\<exists>kv'. split_loop ((base @ s @ ''&'') @ layout ?ss) cap (Suc i) (length (base @ s @ ''&'')) ?kv =
        Some (cap, kv') \<and> length kv' = cap"
      using 3(3-6) False by (intro 3(1)) auto
    ultimately show ?thesis by simp
  qed
qed simp

section \<open>The whole constructor\<close>

fun split_amp :: "string \<Rightarrow> string list" where
  "split_amp [] = [[]]"
| "split_amp (c # cs) =
     (if c = CHR ''&'' then [] # split_amp cs
      else (case split_amp cs of [] \<Rightarrow> [[c]] | s # ss \<Rightarrow> (c # s) # ss))"

lemma split_amp_not_Nil [simp]: "split_amp q \<noteq> []"
  by (induction q) (auto split: list.splits)

lemma layout_split_amp: "layout (split_amp q) = q @ [NUL]"
proof (induction q)
  case (Cons c q)
  obtain s ss where "split_amp q = s # ss" by (cases "split_amp q") simp_all
  with Cons show ?case by (cases ss) auto
qed simp

lemma segment_split_amp: "NUL \<notin> set q \<Longrightarrow> \<forall>s\<in>set (split_amp q). segment s"
  by (induction q) (auto simp: segment_def split: list.splits)

lemma length_split_amp: "length (split_amp q) = Suc (count_list q CHR ''&'')"
proof (induction q)
  case (Cons c q)
  then show ?case by (cases "split_amp q") auto
qed simp

lemma split_amp_append: "CHR ''&'' \<notin> set s \<Longrightarrow> split_amp (s @ CHR ''&'' # q) = s # split_amp q"
  by (induction s) auto

lemma split_amp_single: "CHR ''&'' \<notin> set s \<Longrightarrow> split_amp s = [s]"
  by (induction s) auto

lemma query_string_of_eq:
  assumes pre: "NUL \<notin> set pre" "CHR ''?'' \<notin> set pre" "CHR ''#'' \<notin> set pre"
    and sep: "sep = CHR ''?'' \<or> sep = CHR ''#''" and q: "NUL \<notin> set q"
  shows "query_string_of (pre @ sep # q) =
    (if count_list q CHR ''&'' < 256
     then Some \<lparr>qs_url = pre @ sep # blocks (split_amp q),
                key_value_pairs = offsets (length pre + 1) (split_amp q)\<rparr>
     else None)"
proof -
  let ?ss = "split_amp q" let ?base = "pre @ [sep]" let ?kv = "replicate 256 (None :: nat option)"
  have buf: "(pre @ sep # q) @ [NUL] = ?base @ layout ?ss" by (simp add: layout_split_amp)
  have f: "strcspn (?base @ layout ?ss) 0 ''?#'' = Some (length pre)"
    using cspn_append [of pre "''?#''" sep "layout ?ss"] pre sep by (auto simp: strcspn_def)
  have r: "rd (?base @ layout ?ss) (length pre) = Some sep" by (rule rd_drop) simp
  have nz: "sep \<noteq> NUL" using sep by auto
  note seg = segment_split_amp [OF q]
  show ?thesis
  proof (cases "count_list q CHR ''&'' < 256")
    case True
    then have len: "length ?ss \<le> 256" by (simp add: length_split_amp)
    let ?kv' = "map Some (offsets (length ?base) ?ss) @ drop (length ?ss) ?kv"
    have sl: "split_loop (?base @ layout ?ss) 256 0 (length ?base) ?kv = Some (length ?ss - 1, ?kv')"
      using split_loop_ok [OF split_amp_not_Nil seg, of 0 256 ?kv ?base] len by simp
    have dp: "decode_pairs (?base @ layout ?ss) ?kv' (0 + length ?ss) 0 = Some (?base @ blocks ?ss)"
      by (rule decode_pairs_all) (use seg len in \<open>auto simp: nth_append\<close>)
    have "map the (take (length ?ss) ?kv') = offsets (length ?base) ?ss" by (simp add: comp_def)
    moreover have "length ?ss - 1 + 1 = length ?ss" by (simp add: length_split_amp)
    ultimately show ?thesis using True f r nz sl dp
      unfolding query_string_of_def MAX_KEY_VALUE_PAIRS_COUNT_def qs_parse_def buf Let_def
      by simp
  next
    case False
    then have "256 < 0 + length ?ss" by (simp add: length_split_amp)
    from split_loop_full [OF split_amp_not_Nil seg this, of ?kv ?base]
    obtain kv' where sl: "split_loop (?base @ layout ?ss) 256 0 (length ?base) ?kv = Some (256, kv')"
      "length kv' = 256" by auto
    moreover have "decode_pairs (?base @ layout ?ss) kv' (256 + 1) 0 = None"
      by (rule decode_pairs_out) (simp_all add: sl)
    ultimately show ?thesis using False f r nz
      unfolding query_string_of_def MAX_KEY_VALUE_PAIRS_COUNT_def qs_parse_def buf Let_def
      by simp
  qed
qed

lemma query_string_of_plain:
  assumes "NUL \<notin> set u" "CHR ''?'' \<notin> set u" "CHR ''#'' \<notin> set u"
  shows "query_string_of u = Some \<lparr>qs_url = u @ [NUL], key_value_pairs = []\<rparr>"
proof -
  have "strcspn (u @ [NUL]) 0 ''?#'' = Some (length u)"
    using assms cspn_append [of u "''?#''" NUL "[]"] by (auto simp: strcspn_def)
  moreover have "rd (u @ [NUL]) (length u) = Some NUL" by (rule rd_drop) simp
  ultimately show ?thesis
    by (simp add: query_string_of_def qs_parse_def empty_query_string_def)
qed

section \<open>Looking up a plain key\<close>

text \<open>A byte that stands for itself in a key: none of \<open>= # & + %\<close>, and no terminator.\<close>

definition plain :: "char \<Rightarrow> bool" where
  "plain c \<longleftrightarrow> isqschr c \<and> c \<noteq> CHR ''+'' \<and> c \<noteq> CHR ''%''"

lemma qs_byte_plain: "drop p buf = c # r \<Longrightarrow> plain c \<Longrightarrow> qs_byte buf p = Some (of_char c, Suc p)"
  by (auto simp: qs_byte_def rd_drop plain_def)

lemma qs_byte_stop: "drop p buf = c # r \<Longrightarrow> \<not> isqschr c \<Longrightarrow> qs_byte buf p = Some (0, Suc p)"
  by (auto simp: qs_byte_def rd_drop)

lemma plain_not_0 [simp]: "plain c \<Longrightarrow> (of_char c :: nat) \<noteq> 0"
proof
  assume "plain c" "(of_char c :: nat) = 0"
  moreover have "(of_char NUL :: nat) = 0" by simp
  ultimately have "c = NUL" by (metis of_char_eq_iff)
  with \<open>plain c\<close> show False by (simp add: plain_def)
qed

lemma qs_strncmp_plain:
  assumes "drop sp s = k @ NUL # s'" "drop p buf = k' @ c # r" "\<not> isqschr c"
    "\<forall>x\<in>set k. plain x" "\<forall>x\<in>set k'. plain x"
  shows "\<exists>d. qs_strncmp s sp buf p (length k) = Some d \<and> (d = 0 \<longleftrightarrow> k = k')"
  using assms
proof (induction k arbitrary: sp p k')
  case Nil
  then show ?case by (cases k') (auto simp: rd_drop plain_def)
next
  case (Cons x k)
  have x: "qs_byte s sp = Some (of_char x, Suc sp)" and dx: "drop (Suc sp) s = k @ NUL # s'"
    using Cons.prems by (auto intro!: qs_byte_plain dest: drop_SucD)
  show ?case
  proof (cases k')
    case Nil
    then have "qs_byte buf p = Some (0, Suc p)" using Cons.prems by (intro qs_byte_stop) auto
    then show ?thesis using x Nil Cons.prems by simp
  next
    case C: (Cons y k'')
    then have y: "qs_byte buf p = Some (of_char y, Suc p)" and dy: "drop (Suc p) buf = k'' @ c # r"
      using Cons.prems by (auto intro!: qs_byte_plain dest: drop_SucD)
    show ?thesis
    proof (cases "x = y")
      case True
      with Cons.IH [OF dx dy] Cons.prems C x y show ?thesis by auto
    next
      case False
      then show ?thesis using x y C Cons.prems by auto
    qed
  qed
qed

text \<open>A buffer shows the pair \<open>(k, v)\<close> at \<open>p\<close>.\<close>

definition shows_pair :: "string \<Rightarrow> nat \<Rightarrow> string \<times> string \<Rightarrow> bool" where
  "shows_pair buf p e \<longleftrightarrow> (\<exists>r. drop p buf = fst e @ CHR ''='' # snd e @ NUL # r) \<and>
     (\<forall>x\<in>set (fst e). plain x) \<and> NUL \<notin> set (snd e)"

lemma c_str_append: "NUL \<notin> set v \<Longrightarrow> c_str (v @ NUL # r) = v"
  unfolding c_str_def by (induction v) auto

lemma value_offset_pair:
  assumes "shows_pair buf p e"
  shows "\<exists>v. value_offset buf p = Some v \<and> text_at buf v = snd e"
proof -
  obtain k v where e: "e = (k, v)" by (cases e)
  from assms obtain r where d: "drop p buf = k @ CHR ''='' # v @ NUL # r"
    and k: "\<forall>x\<in>set k. plain x" and v: "NUL \<notin> set v" by (auto simp: shows_pair_def e)
  have "strcspn buf p ''='' = Some (length k)"
    using cspn_append [of k "''=''" "CHR ''=''" "v @ NUL # r"] k
    by (auto simp: strcspn_def d plain_def isqschr_def)
  moreover have d': "drop (p + length k) buf = CHR ''='' # v @ NUL # r"
    using d by (metis add.commute append_eq_conv_conj drop_drop)
  then have "rd buf (p + length k) = Some CHR ''=''" by (rule rd_drop)
  moreover have "drop (Suc (p + length k)) buf = v @ NUL # r" using drop_SucD [OF d'] .
  then have "text_at buf (Suc (p + length k)) = v" using v by (simp add: text_at_def c_str_append)
  ultimately show ?thesis by (simp add: value_offset_def e)
qed

lemma k2v_loop_pairs:
  assumes "list_all2 (shows_pair buf) ps es" "\<forall>x\<in>set key. plain x"
  shows "\<exists>res. k2v_loop key buf ps occ = Some res \<and>
    map_option (text_at buf) res =
      (let vs = map snd (filter (\<lambda>e. fst e = key) es) in if occ < length vs then Some (vs ! occ) else None)"
  using assms(1)
proof (induction ps es arbitrary: occ rule: list_all2_induct)
  case (Cons p ps e es)
  from Cons.hyps obtain r where "drop p buf = fst e @ CHR ''='' # snd e @ NUL # r" "\<forall>x\<in>set (fst e). plain x"
    by (auto simp: shows_pair_def)
  from qs_strncmp_plain [of 0 "key @ [NUL]" key "[]", OF _ this(1) _ assms(2) this(2)]
  obtain d where d: "qs_strncmp (key @ [NUL]) 0 buf p (length key) = Some d" "d = 0 \<longleftrightarrow> key = fst e" by auto
  from value_offset_pair [OF Cons.hyps(1)] obtain v where v: "value_offset buf p = Some v" "text_at buf v = snd e"
    by blast
  show ?case
  proof (cases "key = fst e")
    case True
    then show ?thesis using d v Cons.IH [of "occ - 1"] by (cases occ) (auto simp: Let_def)
  next
    case False
    then show ?thesis using d Cons.IH [of occ] by (auto simp: Let_def)
  qed
qed simp

end
