(* ===== verification/Query_Theorems.thy ===== *)
theory Query_Theorems
  imports Query_Lemmas
begin

text \<open>The properties of \<open>query_string\<close>: what its constructor computes, and what the lookups return.\<close>

section \<open>The texts of the pairs\<close>

definition pair_text :: "string \<Rightarrow> string" where
  "pair_text s =
     c_str (if seg_key s = s then s
            else seg_key s @ s ! length (seg_key s) # udec (drop (Suc (length (seg_key s))) s))"

lemma c_str_pair_text: "c_str (block s sep @ r) = pair_text s"
proof -
  have *: "c_str (x @ NUL # y) = c_str x" for x y
    unfolding c_str_def by (induction x) auto
  let ?w = "drop (Suc (length (seg_key s))) s"
  show ?thesis
  proof (cases "seg_key s = s")
    case True
    then show ?thesis using * [of s r] by (simp add: block_def pair_text_def)
  next
    case False
    then show ?thesis
      using * [of "seg_key s @ s ! length (seg_key s) # udec ?w" "drop (Suc (length (udec ?w))) (?w @ [sep]) @ r"]
      by (simp add: block_def pair_text_def Let_def)
  qed
qed

lemma text_at_block: "text_at (base @ block s sep @ r) (length base) = pair_text s"
  by (simp add: text_at_def c_str_pair_text)

lemma items_blocks: "map (text_at (base @ blocks ss)) (offsets (length base) ss) = map pair_text ss"
proof (induction ss arbitrary: base rule: layout.induct)
  case (2 s)
  then show ?case using text_at_block [of base s NUL "[]"] by simp
next
  case (3 s s' ss)
  have "length (base @ block s CHR ''&'') = Suc (length base + length s)" by simp
  with 3 [of "base @ block s CHR ''&''"] show ?case
    using text_at_block [of base s "CHR ''&''" "blocks (s' # ss)"] by simp
qed simp

text \<open>C28: Constructing a \<open>query_string\<close> from a URL computes what its documentation promises as long as
  there are at most 256 pairs: the text behind the first question mark (or number sign) is split at its
  ampersands, and each pair keeps its key and gets its decoded value. With more pairs the C code reads
  behind the array of pairs.\<close>

theorem query_string_pairs:
  assumes "NUL \<notin> set pre" "CHR ''?'' \<notin> set pre" "CHR ''#'' \<notin> set pre"
    and "sep = CHR ''?'' \<or> sep = CHR ''#''" and "NUL \<notin> set q"
  shows "map_option items (query_string_of (pre @ sep # q)) =
    (if length (split_amp q) \<le> MAX_KEY_VALUE_PAIRS_COUNT then Some (map pair_text (split_amp q)) else None)"
  using items_blocks [of "pre @ [sep]" "split_amp q"]
  by (simp add: query_string_of_eq [OF assms] items_def length_split_amp MAX_KEY_VALUE_PAIRS_COUNT_def)

theorem query_string_pairs_witness:
  "map_option items (query_string_of ''/a?x=1+2&y&z=%41'') = Some [''x=1 2'', ''y'', ''z=A'']"
  using query_string_pairs [of "''/a''" "CHR ''?''" "''x=1+2&y&z=%41''"]
  by (simp add: MAX_KEY_VALUE_PAIRS_COUNT_def pair_text_def seg_key_def c_str_def isqschr_def ishex_def hex2dec_def char_of_def bit_Suc_0_iff)

section \<open>What a client encoded is what a lookup returns\<close>

fun encode_pair :: "string \<times> string \<Rightarrow> string" where
  "encode_pair (k, v) = k @ CHR ''='' # quote_plus v"

fun encode_pairs :: "(string \<times> string) list \<Rightarrow> string" where
  "encode_pairs [] = []"
| "encode_pairs [e] = encode_pair e"
| "encode_pairs (e # es) = encode_pair e @ CHR ''&'' # encode_pairs es"

definition plain_key :: "string \<Rightarrow> bool" where
  "plain_key k \<longleftrightarrow> list_all plain k"

lemma plain_special [simp]:
  "\<not> plain NUL" "\<not> plain CHR ''&''" "\<not> plain CHR ''=''" "\<not> plain CHR ''#''"
  by (simp_all add: plain_def)

lemma plain_key_not: "plain_key k \<Longrightarrow> \<not> plain x \<Longrightarrow> x \<notin> set k"
  by (auto simp: plain_key_def list_all_iff)

definition good_pairs :: "(string \<times> string) list \<Rightarrow> bool" where
  "good_pairs es \<longleftrightarrow> list_all (\<lambda>(k, v). plain_key k \<and> NUL \<notin> set v) es"

lemma hex_char_props: "d < 16 \<Longrightarrow> ishex (hex_char d) \<and> hex2dec (hex_char d) = d \<and> isqschr (hex_char d)"
proof -
  assume d: "d < 16"
  then have "of_char (hex_char d) = (if d < 10 then 48 + d else 55 + d)"
    using byte_hex_char [OF d] by (simp add: byte_def)
  with d show ?thesis by (auto simp: ishex_def hex2dec_def isqschr_def Let_def split: if_splits)
qed

lemma is_plain_props: "is_plain c \<Longrightarrow> isqschr c \<and> c \<noteq> CHR ''+'' \<and> c \<noteq> CHR ''%''"
  by (auto simp: is_plain_def isqschr_def byte_literals byte_def)

lemma udec_quote_plus: "NUL \<notin> set v \<Longrightarrow> udec (quote_plus v) = v"
proof (induction v)
  case (Cons c v)
  have h: "ishex (hex_char (byte c div 16))" "ishex (hex_char (byte c mod 16))"
    "hex2dec (hex_char (byte c div 16)) * 16 + hex2dec (hex_char (byte c mod 16)) = byte c"
    using hex_char_props [of "byte c div 16"] hex_char_props [of "byte c mod 16"] byte_less [of c]
    by (auto simp: less_mult_imp_div_less)
  then have "char_of (hex2dec (hex_char (byte c div 16)) * 16 + hex2dec (hex_char (byte c mod 16))) = c"
    by (simp only: char_of_byte)
  with Cons h(1,2) is_plain_props [of c] show ?case by auto
qed simp

lemma quote_plus_no_amp: "CHR ''&'' \<notin> set (quote_plus v) \<and> NUL \<notin> set (quote_plus v)"
proof (induction v)
  case (Cons c v)
  have *: "CHR ''&'' \<noteq> hex_char d \<and> NUL \<noteq> hex_char d" if "d < 16" for d
    using hex_char_props [OF that] special_chars(1,2) by metis
  have "byte c div 16 < 16" using byte_less [of c] by (simp add: less_mult_imp_div_less)
  with Cons * [of "byte c div 16"] * [of "byte c mod 16"] is_plain_props [of c] show ?case by auto
qed simp

lemma encode_pair_clean:
  assumes "plain_key k"
  shows "CHR ''&'' \<notin> set (encode_pair (k, v)) \<and> NUL \<notin> set (encode_pair (k, v))"
  using plain_key_not [OF assms, of "CHR ''&''"] plain_key_not [OF assms, of NUL] quote_plus_no_amp [of v] by simp

lemma split_encode_pairs: "good_pairs es \<Longrightarrow> es \<noteq> [] \<Longrightarrow> split_amp (encode_pairs es) = map encode_pair es"
proof (induction es rule: encode_pairs.induct)
  case (2 e)
  then show ?case using encode_pair_clean [of "fst e" "snd e"]
    by (cases e) (simp add: good_pairs_def split_amp_single)
next
  case (3 e e' es)
  then show ?case using encode_pair_clean [of "fst e" "snd e"]
      split_amp_append [of "encode_pair e" "encode_pairs (e' # es)"]
    by (cases e) (simp add: good_pairs_def)
qed simp

lemma encode_pairs_no_NUL: "good_pairs es \<Longrightarrow> NUL \<notin> set (encode_pairs es)"
proof (induction es rule: encode_pairs.induct)
  case (2 e)
  then show ?case using encode_pair_clean [of "fst e" "snd e"] by (cases e) (simp add: good_pairs_def)
next
  case (3 e e' es)
  then show ?case using encode_pair_clean [of "fst e" "snd e"] by (cases e) (simp add: good_pairs_def)
qed simp

lemma shows_pair_block:
  assumes "plain_key k" "NUL \<notin> set v"
  shows "shows_pair (base @ block (encode_pair (k, v)) sep @ r) (length base) (k, v)"
proof -
  have "\<forall>c\<in>set k. c \<noteq> CHR ''='' \<and> c \<noteq> CHR ''#''"
    using plain_key_not [OF assms(1), of "CHR ''=''"] plain_key_not [OF assms(1), of "CHR ''#''"] by auto
  from block_append [OF this, of "CHR ''=''" "quote_plus v" sep] assms show ?thesis
    by (auto simp: shows_pair_def udec_quote_plus plain_key_def list_all_iff)
qed

lemma shows_all_pairs:
  "good_pairs es \<Longrightarrow> list_all2 (shows_pair (base @ blocks (map encode_pair es)))
     (offsets (length base) (map encode_pair es)) es"
proof (induction es arbitrary: base rule: encode_pairs.induct)
  case (2 e)
  then show ?case using shows_pair_block [of "fst e" "snd e" base NUL "[]"]
    by (cases e) (simp add: good_pairs_def)
next
  case (3 e e' es)
  have "length (base @ block (encode_pair e) CHR ''&'') = Suc (length base + length (encode_pair e))" by simp
  with 3(1) [of "base @ block (encode_pair e) CHR ''&''"] 3(2) show ?case
    using shows_pair_block [of "fst e" "snd e" base "CHR ''&''" "blocks (map encode_pair (e' # es))"]
    by (cases e) (simp add: good_pairs_def)
qed simp

lemma c_str_plain_key: "plain_key k \<Longrightarrow> c_str k = k"
  using plain_key_not [of k NUL] by (auto simp: c_str_def takeWhile_eq_all_conv)

lemma encoded_query:
  assumes "NUL \<notin> set pre" "CHR ''?'' \<notin> set pre" "CHR ''#'' \<notin> set pre"
    and es: "good_pairs es" "es \<noteq> []" "length es \<le> MAX_KEY_VALUE_PAIRS_COUNT"
  obtains Q where "query_string_of (pre @ CHR ''?'' # encode_pairs es) = Some Q"
    "list_all2 (shows_pair (qs_url Q)) (key_value_pairs Q) es"
proof -
  have "count_list (encode_pairs es) CHR ''&'' < 256"
    using length_split_amp [of "encode_pairs es"] split_encode_pairs [OF es(1,2)] es(3)
    by (simp add: MAX_KEY_VALUE_PAIRS_COUNT_def)
  with query_string_of_eq [OF assms(1-3), of "CHR ''?''" "encode_pairs es"] encode_pairs_no_NUL [OF es(1)]
    shows_all_pairs [OF es(1), of "pre @ ''?''"]
  show ?thesis by (intro that) (auto simp: split_encode_pairs [OF es(1,2)])
qed

lemma nth_map_filter_map_of:
  "(let vs = map snd (filter (\<lambda>e. fst e = k) es) in if 0 < length vs then Some (vs ! 0) else None) = map_of es k"
  by (induction es) (auto simp: Let_def)

text \<open>C29: A query that a client encodes is read back: for at most 256 pairs whose keys have no special byte
  and whose values have no NUL byte, \<open>get(k)\<close> returns the first value of \<open>k\<close>, or \<open>nullptr\<close> when \<open>k\<close> is
  not among the keys.\<close>

theorem query_get_encoded:
  assumes "NUL \<notin> set pre" "CHR ''?'' \<notin> set pre" "CHR ''#'' \<notin> set pre"
    and "good_pairs es" "es \<noteq> []" "length es \<le> MAX_KEY_VALUE_PAIRS_COUNT" and k: "plain_key k"
  shows "\<exists>Q r. query_string_of (pre @ CHR ''?'' # encode_pairs es) = Some Q \<and> qs_get k Q = Some r \<and>
    map_option (text_at (qs_url Q)) r = map_of es k"
proof -
  obtain Q where Q: "query_string_of (pre @ CHR ''?'' # encode_pairs es) = Some Q"
    "list_all2 (shows_pair (qs_url Q)) (key_value_pairs Q) es"
    using encoded_query [OF assms(1-6)] .
  have "\<forall>x\<in>set k. plain x" using k by (simp add: plain_key_def list_all_iff)
  from k2v_loop_pairs [OF Q(2) this, of 0]
  obtain r where "k2v_loop k (qs_url Q) (key_value_pairs Q) 0 = Some r"
    "map_option (text_at (qs_url Q)) r = map_of es k"
    unfolding nth_map_filter_map_of by blast
  with Q(1) show ?thesis by (auto simp: qs_get_def qs_k2v_def c_str_plain_key [OF k])
qed

theorem query_get_encoded_witness:
  "\<exists>Q r. query_string_of (''/p?name=a+b%26&n=1&name=c'') = Some Q \<and> qs_get ''name'' Q = Some r \<and>
    map_option (text_at (qs_url Q)) r = Some ''a b&''"
  using query_get_encoded [of "''/p''" "[(''name'', ''a b&''), (''n'', ''1''), (''name'', ''c'')]" "''name''"]
  by (simp add: good_pairs_def plain_key_def plain_def isqschr_def MAX_KEY_VALUE_PAIRS_COUNT_def
      is_plain_def byte_def hex_char_def char_of_def bit_Suc_0_iff)

lemma list_loop_filter:
  assumes "list_all2 (shows_pair (qs_url Q)) (key_value_pairs Q) es" "plain_key k"
  shows "\<exists>vs. list_loop k Q n = Some vs \<and>
    map (text_at (qs_url Q)) vs = drop n (map snd (filter (\<lambda>e. fst e = k) es))"
proof (induction "length (map snd (filter (\<lambda>e. fst e = k) es)) - n" arbitrary: n rule: less_induct)
  case less
  let ?vs = "map snd (filter (\<lambda>e. fst e = k) es)"
  have p: "\<forall>x\<in>set k. plain x" using assms(2) by (simp add: plain_key_def list_all_iff)
  obtain r where r: "qs_k2v k (qs_url Q) (key_value_pairs Q) n = Some r"
    "map_option (text_at (qs_url Q)) r = (if n < length ?vs then Some (?vs ! n) else None)"
    using k2v_loop_pairs [OF assms(1) p, of n] by (auto simp: qs_k2v_def c_str_plain_key [OF assms(2)] Let_def)
  show ?case
  proof (cases "n < length ?vs")
    case True
    then have "length ?vs - Suc n < length ?vs - n" by simp
    from less [OF this] obtain vs where vs: "list_loop k Q (Suc n) = Some vs"
      "map (text_at (qs_url Q)) vs = drop (Suc n) ?vs" by blast
    from True r obtain v where v: "r = Some v" "text_at (qs_url Q) v = ?vs ! n" by (cases r) auto
    have "drop n ?vs = ?vs ! n # drop (Suc n) ?vs" by (rule Cons_nth_drop_Suc [OF True, symmetric])
    with r(1) v vs show ?thesis by (subst list_loop.simps) (simp add: drop_map)
  next
    case False
    with r have "r = None" by (cases r) auto
    with False r(1) show ?thesis by (subst list_loop.simps) simp
  qed
qed

text \<open>C30: \<open>get_list(k, false)\<close> on such a query ends and returns all the values of \<open>k\<close>, in their order.\<close>

theorem query_get_list_encoded:
  assumes "NUL \<notin> set pre" "CHR ''?'' \<notin> set pre" "CHR ''#'' \<notin> set pre"
    and "good_pairs es" "es \<noteq> []" "length es \<le> MAX_KEY_VALUE_PAIRS_COUNT" and k: "plain_key k"
  shows "\<exists>Q vs. query_string_of (pre @ CHR ''?'' # encode_pairs es) = Some Q \<and> get_list k False Q = Some vs \<and>
    map (text_at (qs_url Q)) vs = map snd (filter (\<lambda>e. fst e = k) es)"
proof -
  obtain Q where Q: "query_string_of (pre @ CHR ''?'' # encode_pairs es) = Some Q"
    "list_all2 (shows_pair (qs_url Q)) (key_value_pairs Q) es"
    using encoded_query [OF assms(1-6)] .
  from list_loop_filter [OF Q(2) k, of 0] Q(1) show ?thesis by (auto simp: get_list_def)
qed

theorem query_get_list_encoded_witness:
  "\<exists>Q vs. query_string_of (''/p?name=a+b%26&n=1&name=c'') = Some Q \<and> get_list ''name'' False Q = Some vs \<and>
    map (text_at (qs_url Q)) vs = [''a b&'', ''c'']"
  using query_get_list_encoded [of "''/p''" "[(''name'', ''a b&''), (''n'', ''1''), (''name'', ''c'')]" "''name''"]
  by (simp add: good_pairs_def plain_key_def plain_def isqschr_def MAX_KEY_VALUE_PAIRS_COUNT_def
      is_plain_def byte_def hex_char_def char_of_def bit_Suc_0_iff)

text \<open>Comparing a key reads the two bytes behind a percent sign without looking for the terminator: in a
  URL that ends in a percent sign (which the parser accepts) a lookup reads behind the buffer.\<close>

lemma query_key_overread:
  "\<exists>Q. query_string_of ''/?%'' = Some Q \<and> qs_get ''k'' Q = None"
  by (simp add: query_string_of_eq [of "''/''" "CHR ''?''" "''%''", simplified] qs_get_def qs_k2v_def c_str_def
      block_all qs_byte_def rd_def isqschr_def)

end
