(* ===== verification/Http_Parser.thy ===== *)
theory Http_Parser
  imports Http_Message
begin

text \<open>
  The vocabulary of Crow's HTTP parser (\<open>http_parser_merged.h\<close>): its states and error codes, the
  character tables, the parser's own fields, and \<open>parse_url_char\<close>. A parser that carries more data
  (\<open>HTTPParser\<close>) extends the record, as it derives from the struct in the code.
\<close>

unbundle bit_operations_syntax

section \<open>States\<close>

datatype pstate =
    s_dead | s_start_req | s_req_method | s_req_spaces_before_url | s_req_schema |
    s_req_schema_slash | s_req_schema_slash_slash | s_req_server_start | s_req_server |
    s_req_server_with_at | s_req_path | s_req_query_string_start | s_req_query_string |
    s_req_http_start | s_req_http_H | s_req_http_HT | s_req_http_HTT | s_req_http_HTTP |
    s_req_http_I | s_req_http_IC | s_req_http_major | s_req_http_dot | s_req_http_minor |
    s_req_http_end | s_req_line_almost_done | s_header_field_start | s_header_field |
    s_header_value_discard_ws | s_header_value_discard_ws_almost_done |
    s_header_value_discard_lws | s_header_value_start | s_header_value | s_header_value_lws |
    s_header_almost_done | s_chunk_size_start | s_chunk_size | s_chunk_parameters |
    s_chunk_size_almost_done | s_headers_almost_done | s_headers_done | s_chunk_data |
    s_chunk_data_almost_done | s_chunk_data_done | s_body_identity | s_body_identity_eof |
    s_message_done

fun state_value :: "pstate \<Rightarrow> nat" where
  "state_value s_dead = 1"
| "state_value s_start_req = 2"
| "state_value s_req_method = 3"
| "state_value s_req_spaces_before_url = 4"
| "state_value s_req_schema = 5"
| "state_value s_req_schema_slash = 6"
| "state_value s_req_schema_slash_slash = 7"
| "state_value s_req_server_start = 8"
| "state_value s_req_server = 9"
| "state_value s_req_server_with_at = 10"
| "state_value s_req_path = 11"
| "state_value s_req_query_string_start = 12"
| "state_value s_req_query_string = 13"
| "state_value s_req_http_start = 14"
| "state_value s_req_http_H = 15"
| "state_value s_req_http_HT = 16"
| "state_value s_req_http_HTT = 17"
| "state_value s_req_http_HTTP = 18"
| "state_value s_req_http_I = 19"
| "state_value s_req_http_IC = 20"
| "state_value s_req_http_major = 21"
| "state_value s_req_http_dot = 22"
| "state_value s_req_http_minor = 23"
| "state_value s_req_http_end = 24"
| "state_value s_req_line_almost_done = 25"
| "state_value s_header_field_start = 26"
| "state_value s_header_field = 27"
| "state_value s_header_value_discard_ws = 28"
| "state_value s_header_value_discard_ws_almost_done = 29"
| "state_value s_header_value_discard_lws = 30"
| "state_value s_header_value_start = 31"
| "state_value s_header_value = 32"
| "state_value s_header_value_lws = 33"
| "state_value s_header_almost_done = 34"
| "state_value s_chunk_size_start = 35"
| "state_value s_chunk_size = 36"
| "state_value s_chunk_parameters = 37"
| "state_value s_chunk_size_almost_done = 38"
| "state_value s_headers_almost_done = 39"
| "state_value s_headers_done = 40"
| "state_value s_chunk_data = 41"
| "state_value s_chunk_data_almost_done = 42"
| "state_value s_chunk_data_done = 43"
| "state_value s_body_identity = 44"
| "state_value s_body_identity_eof = 45"
| "state_value s_message_done = 46"

definition parsing_header :: "pstate \<Rightarrow> bool" where
  "parsing_header s \<longleftrightarrow> state_value s \<le> state_value s_headers_done"

datatype header_state =
    h_general | h_C | h_CO | h_CON | h_matching_connection | h_matching_proxy_connection |
    h_matching_content_length | h_matching_transfer_encoding | h_matching_upgrade |
    h_connection | h_content_length | h_content_length_num | h_content_length_ws |
    h_transfer_encoding | h_upgrade | h_matching_transfer_encoding_token_start |
    h_matching_transfer_encoding_chunked | h_matching_transfer_encoding_token |
    h_matching_connection_keep_alive | h_matching_connection_close |
    h_transfer_encoding_chunked | h_connection_keep_alive | h_connection_close

datatype http_errno =
    CHPE_OK | CHPE_CB_message_begin | CHPE_CB_url | CHPE_CB_header_field |
    CHPE_CB_header_value | CHPE_CB_headers_complete | CHPE_CB_body |
    CHPE_CB_message_complete | CHPE_CB_status | CHPE_INVALID_EOF_STATE |
    CHPE_HEADER_OVERFLOW | CHPE_CLOSED_CONNECTION | CHPE_INVALID_VERSION |
    CHPE_INVALID_STATUS | CHPE_INVALID_METHOD | CHPE_INVALID_URL | CHPE_INVALID_HOST |
    CHPE_INVALID_PORT | CHPE_INVALID_PATH | CHPE_INVALID_QUERY_STRING |
    CHPE_INVALID_FRAGMENT | CHPE_LF_EXPECTED | CHPE_INVALID_HEADER_TOKEN |
    CHPE_INVALID_CONTENT_LENGTH | CHPE_UNEXPECTED_CONTENT_LENGTH | CHPE_INVALID_CHUNK_SIZE |
    CHPE_INVALID_CONSTANT | CHPE_INVALID_INTERNAL_STATE | CHPE_STRICT | CHPE_UNKNOWN |
    CHPE_INVALID_TRANSFER_ENCODING

fun http_errno_name :: "http_errno \<Rightarrow> string" where
  "http_errno_name CHPE_OK = ''CHPE_OK''"
| "http_errno_name CHPE_CB_message_begin = ''CHPE_CB_message_begin''"
| "http_errno_name CHPE_CB_url = ''CHPE_CB_url''"
| "http_errno_name CHPE_CB_header_field = ''CHPE_CB_header_field''"
| "http_errno_name CHPE_CB_header_value = ''CHPE_CB_header_value''"
| "http_errno_name CHPE_CB_headers_complete = ''CHPE_CB_headers_complete''"
| "http_errno_name CHPE_CB_body = ''CHPE_CB_body''"
| "http_errno_name CHPE_CB_message_complete = ''CHPE_CB_message_complete''"
| "http_errno_name CHPE_CB_status = ''CHPE_CB_status''"
| "http_errno_name CHPE_INVALID_EOF_STATE = ''CHPE_INVALID_EOF_STATE''"
| "http_errno_name CHPE_HEADER_OVERFLOW = ''CHPE_HEADER_OVERFLOW''"
| "http_errno_name CHPE_CLOSED_CONNECTION = ''CHPE_CLOSED_CONNECTION''"
| "http_errno_name CHPE_INVALID_VERSION = ''CHPE_INVALID_VERSION''"
| "http_errno_name CHPE_INVALID_STATUS = ''CHPE_INVALID_STATUS''"
| "http_errno_name CHPE_INVALID_METHOD = ''CHPE_INVALID_METHOD''"
| "http_errno_name CHPE_INVALID_URL = ''CHPE_INVALID_URL''"
| "http_errno_name CHPE_INVALID_HOST = ''CHPE_INVALID_HOST''"
| "http_errno_name CHPE_INVALID_PORT = ''CHPE_INVALID_PORT''"
| "http_errno_name CHPE_INVALID_PATH = ''CHPE_INVALID_PATH''"
| "http_errno_name CHPE_INVALID_QUERY_STRING = ''CHPE_INVALID_QUERY_STRING''"
| "http_errno_name CHPE_INVALID_FRAGMENT = ''CHPE_INVALID_FRAGMENT''"
| "http_errno_name CHPE_LF_EXPECTED = ''CHPE_LF_EXPECTED''"
| "http_errno_name CHPE_INVALID_HEADER_TOKEN = ''CHPE_INVALID_HEADER_TOKEN''"
| "http_errno_name CHPE_INVALID_CONTENT_LENGTH = ''CHPE_INVALID_CONTENT_LENGTH''"
| "http_errno_name CHPE_UNEXPECTED_CONTENT_LENGTH = ''CHPE_UNEXPECTED_CONTENT_LENGTH''"
| "http_errno_name CHPE_INVALID_CHUNK_SIZE = ''CHPE_INVALID_CHUNK_SIZE''"
| "http_errno_name CHPE_INVALID_CONSTANT = ''CHPE_INVALID_CONSTANT''"
| "http_errno_name CHPE_INVALID_INTERNAL_STATE = ''CHPE_INVALID_INTERNAL_STATE''"
| "http_errno_name CHPE_STRICT = ''CHPE_STRICT''"
| "http_errno_name CHPE_UNKNOWN = ''CHPE_UNKNOWN''"
| "http_errno_name CHPE_INVALID_TRANSFER_ENCODING = ''CHPE_INVALID_TRANSFER_ENCODING''"

fun http_errno_description :: "http_errno \<Rightarrow> string" where
  "http_errno_description CHPE_OK = ''success''"
| "http_errno_description CHPE_CB_message_begin = ''the on_message_begin callback failed''"
| "http_errno_description CHPE_CB_url = ''the '' @ [CHR 0x22] @ ''on_url'' @ [CHR 0x22] @ '' callback failed''"
| "http_errno_description CHPE_CB_header_field = ''the '' @ [CHR 0x22] @ ''on_header_field'' @ [CHR 0x22] @ '' callback failed''"
| "http_errno_description CHPE_CB_header_value = ''the '' @ [CHR 0x22] @ ''on_header_value'' @ [CHR 0x22] @ '' callback failed''"
| "http_errno_description CHPE_CB_headers_complete = ''the '' @ [CHR 0x22] @ ''on_headers_complete'' @ [CHR 0x22] @ '' callback failed''"
| "http_errno_description CHPE_CB_body = ''the '' @ [CHR 0x22] @ ''on_body'' @ [CHR 0x22] @ '' callback failed''"
| "http_errno_description CHPE_CB_message_complete = ''the '' @ [CHR 0x22] @ ''on_message_complete'' @ [CHR 0x22] @ '' callback failed''"
| "http_errno_description CHPE_CB_status = ''the '' @ [CHR 0x22] @ ''on_status'' @ [CHR 0x22] @ '' callback failed''"
| "http_errno_description CHPE_INVALID_EOF_STATE = ''stream ended at an unexpected time''"
| "http_errno_description CHPE_HEADER_OVERFLOW = ''too many header bytes seen; overflow detected''"
| "http_errno_description CHPE_CLOSED_CONNECTION = ''data received after completed connection: close message''"
| "http_errno_description CHPE_INVALID_VERSION = ''invalid HTTP version''"
| "http_errno_description CHPE_INVALID_STATUS = ''invalid HTTP status code''"
| "http_errno_description CHPE_INVALID_METHOD = ''invalid HTTP method''"
| "http_errno_description CHPE_INVALID_URL = ''invalid URL''"
| "http_errno_description CHPE_INVALID_HOST = ''invalid host''"
| "http_errno_description CHPE_INVALID_PORT = ''invalid port''"
| "http_errno_description CHPE_INVALID_PATH = ''invalid path''"
| "http_errno_description CHPE_INVALID_QUERY_STRING = ''invalid query string''"
| "http_errno_description CHPE_INVALID_FRAGMENT = ''invalid fragment''"
| "http_errno_description CHPE_LF_EXPECTED = ''LF character expected''"
| "http_errno_description CHPE_INVALID_HEADER_TOKEN = ''invalid character in header''"
| "http_errno_description CHPE_INVALID_CONTENT_LENGTH = ''invalid character in content-length header''"
| "http_errno_description CHPE_UNEXPECTED_CONTENT_LENGTH = ''unexpected content-length header''"
| "http_errno_description CHPE_INVALID_CHUNK_SIZE = ''invalid character in chunk size header''"
| "http_errno_description CHPE_INVALID_CONSTANT = ''invalid constant string''"
| "http_errno_description CHPE_INVALID_INTERNAL_STATE = ''encountered unexpected internal state''"
| "http_errno_description CHPE_STRICT = ''strict mode assertion failed''"
| "http_errno_description CHPE_UNKNOWN = ''an unknown error occurred''"
| "http_errno_description CHPE_INVALID_TRANSFER_ENCODING = ''request has invalid transfer-encoding''"

section \<open>The parser's fields\<close>

text \<open>The bits of \<open>flags\<close>.\<close>

record pflags =
  f_chunked :: bool
  f_connection_keep_alive :: bool
  f_connection_close :: bool
  f_trailing :: bool
  f_upgrade :: bool
  f_skipbody :: bool
  f_contentlength :: bool

definition no_flags :: pflags where
  "no_flags = \<lparr>f_chunked = False, f_connection_keep_alive = False, f_connection_close = False,
     f_trailing = False, f_upgrade = False, f_skipbody = False, f_contentlength = False\<rparr>"

record http_parser =
  flags :: pflags
  state :: pstate
  header_state :: header_state
  index :: nat
  uses_transfer_encoding :: bool
  allow_chunked_length :: bool
  lenient_http_headers :: bool
  saved_nread :: u32
  content_length :: u64
  qs_point :: u64
  http_major :: u8
  http_minor :: u8
  pmethod :: http_method
  http_errno :: http_errno
  upgrade :: bool

text \<open>\<open>memset\<close> makes every field 0; the method 0 is \<open>DELETE\<close>, the header state 0 is \<open>h_general\<close>.\<close>

definition http_parser_init :: "'a http_parser_scheme \<Rightarrow> 'a http_parser_scheme" where
  "http_parser_init p = p\<lparr>flags := no_flags, state := s_start_req, header_state := h_general, index := 0,
     uses_transfer_encoding := False, allow_chunked_length := False, lenient_http_headers := False,
     saved_nread := 0, content_length := 0, qs_point := 0, http_major := 0, http_minor := 0,
     pmethod := M_Delete, http_errno := CHPE_OK, upgrade := False\<rparr>"

definition http_body_is_final :: "'a http_parser_scheme \<Rightarrow> bool" where
  "http_body_is_final p \<longleftrightarrow> state p = s_message_done"

text \<open>The matcher's index has five bits.\<close>

definition next_index :: "nat \<Rightarrow> nat" where
  "next_index i = (i + 1) mod 32"

section \<open>Characters\<close>

definition bval :: "char \<Rightarrow> nat" where
  "bval c = of_char c"

definition CR :: char where "CR = CHR 0x0D"
definition LF :: char where "LF = CHR 0x0A"
definition TAB :: char where "TAB = CHR 0x09"

text \<open>\<open>(unsigned char)(c | 0x20)\<close>.\<close>

definition lower :: "char \<Rightarrow> char" where
  "lower c = char_of (bval c OR 32)"

definition is_alpha :: "char \<Rightarrow> bool" where
  "is_alpha c \<longleftrightarrow> bval CHR ''a'' \<le> bval (lower c) \<and> bval (lower c) \<le> bval CHR ''z''"

definition is_num :: "char \<Rightarrow> bool" where
  "is_num c \<longleftrightarrow> 48 \<le> bval c \<and> bval c \<le> 57"

definition is_upper :: "char \<Rightarrow> bool" where
  "is_upper c \<longleftrightarrow> 65 \<le> bval c \<and> bval c \<le> 90"

definition is_mark :: "char \<Rightarrow> bool" where
  "is_mark c \<longleftrightarrow> c \<in> set ''-_.!~*()'' \<or> c = CHR 0x27"

definition is_userinfo_char :: "char \<Rightarrow> bool" where
  "is_userinfo_char c \<longleftrightarrow> is_alpha c \<or> is_num c \<or> is_mark c \<or> c \<in> set ''%;:&=+$,''"

definition is_header_char :: "char \<Rightarrow> bool" where
  "is_header_char c \<longleftrightarrow> c = CR \<or> c = LF \<or> bval c = 9 \<or> (31 < bval c \<and> bval c \<noteq> 127)"

text \<open>The bit table of URL characters: the rows that the code writes out, and zero rows behind.\<close>

definition normal_url_char :: "nat list" where
  "normal_url_char = map (\<lambda>row. foldr (OR) row 0)
     [[0, 0, 0, 0, 0, 0, 0, 0],
      [0, 0, 0, 0, 0, 0, 0, 0],
      [0, 0, 0, 0, 0, 0, 0, 0],
      [0, 0, 0, 0, 0, 0, 0, 0],
      [0, 2, 4, 0, 16, 32, 64, 128],
      [1, 2, 4, 8, 16, 32, 64, 128],
      [1, 2, 4, 8, 16, 32, 64, 128],
      [1, 2, 4, 8, 16, 32, 64, 0],
      [1, 2, 4, 8, 16, 32, 64, 128],
      [1, 2, 4, 8, 16, 32, 64, 128],
      [1, 2, 4, 8, 16, 32, 64, 128],
      [1, 2, 4, 8, 16, 32, 64, 128],
      [1, 2, 4, 8, 16, 32, 64, 128],
      [1, 2, 4, 8, 16, 32, 64, 128],
      [1, 2, 4, 8, 16, 32, 64, 128],
      [1, 2, 4, 8, 16, 32, 64, 0]] @ replicate 16 0"

definition is_url_char :: "char \<Rightarrow> bool" where
  "is_url_char c \<longleftrightarrow> bit (normal_url_char ! (bval c div 8)) (bval c mod 8)"

text \<open>The table of tokens, which also maps to lower case; the bytes from 128 on are not tokens.\<close>

definition tokens :: "nat list" where
  "tokens =
     [0, 0, 0, 0, 0, 0, 0, 0, 0, 0, 0, 0, 0, 0, 0, 0, 0, 0, 0, 0, 0, 0, 0, 0, 0, 0, 0, 0, 0, 0,
      0, 0, 0, 33, 0, 35, 36, 37, 38, 39, 0, 0, 42, 43, 0, 45, 46, 0, 48, 49, 50, 51, 52, 53,
      54, 55, 56, 57, 0, 0, 0, 0, 0, 0, 0, 97, 98, 99, 100, 101, 102, 103, 104, 105, 106, 107,
      108, 109, 110, 111, 112, 113, 114, 115, 116, 117, 118, 119, 120, 121, 122, 0, 0, 0, 94,
      95, 96, 97, 98, 99, 100, 101, 102, 103, 104, 105, 106, 107, 108, 109, 110, 111, 112, 113,
      114, 115, 116, 117, 118, 119, 120, 121, 122, 0, 124, 0, 126, 0] @ replicate 128 0"

definition token :: "char \<Rightarrow> char" where
  "token c = char_of (tokens ! bval c)"

text \<open>
  The table of hexadecimal digits has initialisers for 128 of its 256 entries; the others are 0,
  not -1.
\<close>

definition unhex :: "int list" where
  "unhex =
     [-1, -1, -1, -1, -1, -1, -1, -1, -1, -1, -1, -1, -1, -1, -1, -1, -1, -1, -1, -1, -1, -1,
      -1, -1, -1, -1, -1, -1, -1, -1, -1, -1, -1, -1, -1, -1, -1, -1, -1, -1, -1, -1, -1, -1,
      -1, -1, -1, -1, 0, 1, 2, 3, 4, 5, 6, 7, 8, 9, -1, -1, -1, -1, -1, -1, -1, 10, 11, 12, 13,
      14, 15, -1, -1, -1, -1, -1, -1, -1, -1, -1, -1, -1, -1, -1, -1, -1, -1, -1, -1, -1, -1,
      -1, -1, -1, -1, -1, -1, 10, 11, 12, 13, 14, 15, -1, -1, -1, -1, -1, -1, -1, -1, -1, -1,
      -1, -1, -1, -1, -1, -1, -1, -1, -1, -1, -1, -1, -1, -1, -1] @ replicate 128 0"

definition unhex_val :: "char \<Rightarrow> int" where
  "unhex_val c = unhex ! bval c"

section \<open>\<open>parse_url_char\<close>\<close>

text \<open>
  The next state, and a new query-string point. A question mark is measured from \<open>url_mark\<close>; without
  the mark the difference of the two pointers is \<open>UB\<close>, which is \<open>None\<close>.
\<close>

definition url_query :: "nat option \<Rightarrow> nat \<Rightarrow> (pstate \<times> u64 option) option" where
  "url_query url_mark p =
     (case url_mark of None \<Rightarrow> None | Some m \<Rightarrow> Some (s_req_query_string_start, Some (of_nat (p - m))))"

definition url_server :: "char \<Rightarrow> nat option \<Rightarrow> nat \<Rightarrow> (pstate \<times> u64 option) option" where
  "url_server ch url_mark p =
     (if ch = CHR ''/'' then Some (s_req_path, None)
      else if ch = CHR ''?'' then url_query url_mark p
      else if ch = CHR ''@'' then Some (s_req_server_with_at, None)
      else if is_userinfo_char ch \<or> ch = CHR ''['' \<or> ch = CHR '']'' then Some (s_req_server, None)
      else Some (s_dead, None))"

definition parse_url_char :: "pstate \<Rightarrow> char \<Rightarrow> nat option \<Rightarrow> nat \<Rightarrow> (pstate \<times> u64 option) option" where
  "parse_url_char s ch url_mark p =
     (if ch = CHR '' '' \<or> ch = CR \<or> ch = LF then Some (s_dead, None)
      else if ch = TAB \<or> ch = CHR 0x0C then Some (s_dead, None)
      else (case s of
        s_req_spaces_before_url \<Rightarrow>
          Some (if ch = CHR ''/'' \<or> ch = CHR ''*'' then s_req_path
                else if is_alpha ch then s_req_schema else s_dead, None)
      | s_req_schema \<Rightarrow>
          Some (if is_alpha ch then s else if ch = CHR '':'' then s_req_schema_slash else s_dead, None)
      | s_req_schema_slash \<Rightarrow> Some (if ch = CHR ''/'' then s_req_schema_slash_slash else s_dead, None)
      | s_req_schema_slash_slash \<Rightarrow> Some (if ch = CHR ''/'' then s_req_server_start else s_dead, None)
      | s_req_server_with_at \<Rightarrow>
          (if ch = CHR ''@'' then Some (s_dead, None) else url_server ch url_mark p)
      | s_req_server_start \<Rightarrow> url_server ch url_mark p
      | s_req_server \<Rightarrow> url_server ch url_mark p
      | s_req_path \<Rightarrow>
          (if is_url_char ch then Some (s, None)
           else if ch = CHR ''?'' then url_query url_mark p else Some (s_dead, None))
      | s_req_query_string_start \<Rightarrow>
          Some (if is_url_char ch then s_req_query_string
                else if ch = CHR ''?'' then s_req_query_string else s_dead, None)
      | s_req_query_string \<Rightarrow>
          Some (if is_url_char ch then s_req_query_string
                else if ch = CHR ''?'' then s_req_query_string else s_dead, None)
      | _ \<Rightarrow> Some (s_dead, None)))"

section \<open>Methods\<close>

text \<open>The method that a first byte starts, and the switches to another method with the same prefix.\<close>

definition first_methods :: "(char \<times> http_method) list" where
  "first_methods =
     [(CHR ''A'', M_Acl), (CHR ''B'', M_Bind), (CHR ''C'', M_Connect), (CHR ''D'', M_Delete),
      (CHR ''G'', M_Get), (CHR ''H'', M_Head), (CHR ''L'', M_Lock), (CHR ''M'', M_MkCol),
      (CHR ''N'', M_Notify), (CHR ''O'', M_Options), (CHR ''P'', M_Post),
      (CHR ''R'', M_Report), (CHR ''S'', M_Subscribe), (CHR ''T'', M_Trace),
      (CHR ''U'', M_Unlock)]"

definition method_switches :: "((http_method \<times> nat \<times> char) \<times> http_method) list" where
  "method_switches =
     [((M_Post, 1, CHR ''U''), M_Put), ((M_Post, 1, CHR ''A''), M_Patch),
      ((M_Post, 1, CHR ''R''), M_Propfind), ((M_Put, 2, CHR ''R''), M_Purge),
      ((M_Connect, 1, CHR ''H''), M_Checkout), ((M_Connect, 2, CHR ''P''), M_Copy),
      ((M_MkCol, 1, CHR ''O''), M_Move), ((M_MkCol, 1, CHR ''E''), M_Merge),
      ((M_MkCol, 1, CHR ''-''), M_MSearch), ((M_MkCol, 2, CHR ''A''), M_MkActivity),
      ((M_MkCol, 3, CHR ''A''), M_MkCalendar), ((M_Subscribe, 1, CHR ''E''), M_Search),
      ((M_Subscribe, 1, CHR ''O''), M_Source), ((M_Report, 2, CHR ''B''), M_Rebind),
      ((M_Propfind, 4, CHR ''P''), M_Proppatch), ((M_Lock, 1, CHR ''I''), M_Link),
      ((M_Unlock, 2, CHR ''S''), M_Unsubscribe), ((M_Unlock, 2, CHR ''B''), M_Unbind),
      ((M_Unlock, 3, CHR ''I''), M_Unlink)]"

section \<open>The tables, read as predicates\<close>

lemma bval_less [simp]: "bval c < 256"
  by (simp add: bval_def)

lemma all_chars: "(\<forall>c. Q (bval c)) \<longleftrightarrow> list_all Q [0..<256]"
proof
  assume "list_all Q [0..<256]"
  then show "\<forall>c. Q (bval c)" using bval_less by (simp add: list_all_iff)
next
  assume *: "\<forall>c. Q (bval c)"
  have "Q n" if "n < 256" for n
    using * [rule_format, of "char_of n"] that by (simp add: bval_def)
  then show "list_all Q [0..<256]" by (simp add: list_all_iff)
qed

lemma length_tables [simp]:
  "length normal_url_char = 32" "length tokens = 256" "length unhex = 256"
  by (simp_all add: normal_url_char_def tokens_def unhex_def)

text \<open>The bit table as a range of bytes; the evaluator uses this form.\<close>

lemma normal_url_char_eval:
  "normal_url_char = [0, 0, 0, 0, 246, 255, 255, 127, 255, 255, 255, 255, 255, 255, 255, 127] @ replicate 16 0"
  by (simp add: normal_url_char_def)

lemma upto_256: "[0..<256] = 0 # 1 # [2..<256]"
  by (simp add: upt_conv_Cons numeral_2_eq_2)

lemma is_url_char_iff [code]:
  "is_url_char c \<longleftrightarrow> (let n = bval c in 33 \<le> n \<and> n \<le> 126 \<and> n \<noteq> 35 \<and> n \<noteq> 63)"
proof -
  have "\<forall>c. bit (normal_url_char ! (bval c div 8)) (bval c mod 8) =
      (33 \<le> bval c \<and> bval c \<le> 126 \<and> bval c \<noteq> 35 \<and> bval c \<noteq> 63)"
    by (subst all_chars)
      (simp only: upto_256 upt_rec_numeral, simp add: normal_url_char_eval nth_append bit_Suc_0_iff)
  then show ?thesis by (simp add: is_url_char_def Let_def)
qed

end
