(* ===== verification/Http_Execute.thy ===== *)
theory Http_Execute
  imports Http_Parser
begin

text \<open>
  \<open>http_parser_execute\<close>: one function per group of states of the code's \<open>switch\<close>, each the body of its
  cases, and the loop over the buffer. The callbacks are the functions of a record \<open>settings\<close>, which
  get and return the whole parser, derived fields included.

  A step ends the way the code leaves the \<open>switch\<close>: with \<open>break\<close> (\<open>Next\<close>: the next byte), \<open>goto
  reexecute\<close> (\<open>Again\<close>), \<open>goto error\<close> (\<open>Failed\<close>) or a \<open>return\<close> out of a macro (\<open>Return\<close>). \<open>Stuck\<close> is a
  failed assertion, a read outside a string or the difference of pointers into different objects, \<open>Lost\<close>
  a callback that has no meaning itself (its \<open>None\<close>).
\<close>

section \<open>Callbacks, local variables, and ways out\<close>

datatype mark = Header_field | Header_value | Url | Body

record 'p settings =
  max_header_size :: u32
  on_message_begin :: "'p \<Rightarrow> (int \<times> 'p) option"
  on_url :: "string \<Rightarrow> 'p \<Rightarrow> (int \<times> 'p) option"
  on_header_field :: "string \<Rightarrow> 'p \<Rightarrow> (int \<times> 'p) option"
  on_header_value :: "string \<Rightarrow> 'p \<Rightarrow> (int \<times> 'p) option"
  on_headers_complete :: "'p \<Rightarrow> (int \<times> 'p) option"
  on_body :: "string \<Rightarrow> 'p \<Rightarrow> (int \<times> 'p) option"
  on_message_complete :: "'p \<Rightarrow> (int \<times> 'p) option"

text \<open>The static variable, unless \<open>http_parser_set_max_header_size\<close> changes it.\<close>

definition CROW_HTTP_MAX_HEADER_SIZE :: u32 where
  "CROW_HTTP_MAX_HEADER_SIZE = 80 * 1024"

definition http_parser_set_max_header_size :: "u32 \<Rightarrow> 'p settings \<Rightarrow> 'p settings" where
  "http_parser_set_max_header_size n S = S\<lparr>max_header_size := n\<rparr>"

fun on_data :: "'p settings \<Rightarrow> mark \<Rightarrow> string \<Rightarrow> 'p \<Rightarrow> (int \<times> 'p) option" where
  "on_data S Header_field = on_header_field S"
| "on_data S Header_value = on_header_value S"
| "on_data S Url = on_url S"
| "on_data S Body = on_body S"

fun data_error :: "mark \<Rightarrow> http_errno" where
  "data_error Header_field = CHPE_CB_header_field"
| "data_error Header_value = CHPE_CB_header_value"
| "data_error Url = CHPE_CB_url"
| "data_error Body = CHPE_CB_body"

text \<open>The local variables of the function; a mark is an offset into the buffer.\<close>

record 'p locals =
  par :: 'p
  pos :: nat
  nread :: u32
  marks :: "mark \<Rightarrow> nat option"
  url_start_mark :: "nat option"

datatype 'p step_result = Next "'p locals" | Again "'p locals" | Failed "'p locals" | Return nat "'p locals" | Stuck | Lost

type_synonym 'a pl = "'a http_parser_scheme locals"
type_synonym 'a ps = "'a http_parser_scheme step_result"
type_synonym 'a pset = "'a http_parser_scheme settings"

definition upd :: "('p \<Rightarrow> 'p) \<Rightarrow> 'p locals \<Rightarrow> 'p locals" where
  "upd f x = x\<lparr>par := f (par x)\<rparr>"

definition goto :: "pstate \<Rightarrow> 'a pl \<Rightarrow> 'a pl" where
  "goto s x = x\<lparr>par := (par x)\<lparr>state := s\<rparr>\<rparr>"

definition set_errno :: "http_errno \<Rightarrow> 'a pl \<Rightarrow> 'a pl" where
  "set_errno e x = x\<lparr>par := (par x)\<lparr>saved_nread := nread x, http_errno := e\<rparr>\<rparr>"

definition fail :: "http_errno \<Rightarrow> 'a pl \<Rightarrow> 'a ps" where
  "fail e x = Failed (set_errno e x)"

definition strict_check :: "bool \<Rightarrow> 'a pl \<Rightarrow> ('a pl \<Rightarrow> 'a ps) \<Rightarrow> 'a ps" where
  "strict_check cond x k = (if cond then fail CHPE_STRICT x else k x)"

text \<open>A notification: \<open>er\<close> is what the macro returns when the callback fails or pauses.\<close>

definition notify ::
    "('a http_parser_scheme \<Rightarrow> (int \<times> 'a http_parser_scheme) option) \<Rightarrow> http_errno \<Rightarrow> nat \<Rightarrow> 'a pl \<Rightarrow> ('a pl \<Rightarrow> 'a ps) \<Rightarrow> 'a ps" where
  "notify cb ecode er x k =
     (if http_errno (par x) \<noteq> CHPE_OK then Stuck
      else (case cb (par x) of None \<Rightarrow> Lost | Some (r, p') \<Rightarrow>
        (let x1 = x\<lparr>par := p'\<rparr>; x2 = (if r \<noteq> 0 then set_errno ecode x1 else x1)
         in if http_errno (par x2) \<noteq> CHPE_OK then Return er x2 else k x2)))"

definition slice :: "string \<Rightarrow> nat \<Rightarrow> nat \<Rightarrow> string" where
  "slice data a len = take len (drop a data)"

definition callback_data ::
    "'a pset \<Rightarrow> string \<Rightarrow> mark \<Rightarrow> nat \<Rightarrow> nat \<Rightarrow> 'a pl \<Rightarrow> ('a pl \<Rightarrow> 'a ps) \<Rightarrow> 'a ps" where
  "callback_data S data m stop er x k =
     (if http_errno (par x) \<noteq> CHPE_OK then Stuck
      else (case marks x m of
        None \<Rightarrow> k x
      | Some a \<Rightarrow>
          (case on_data S m (slice data a (stop - a)) (par x) of None \<Rightarrow> Lost | Some (r, p') \<Rightarrow>
            (let x1 = x\<lparr>par := p'\<rparr>; x2 = (if r \<noteq> 0 then set_errno (data_error m) x1 else x1)
             in if http_errno (par x2) \<noteq> CHPE_OK then Return er x2
                else k (x2\<lparr>marks := (marks x2)(m := None)\<rparr>)))))"

definition set_mark :: "mark \<Rightarrow> 'p locals \<Rightarrow> 'p locals" where
  "set_mark m x = (if marks x m = None then x\<lparr>marks := (marks x)(m := Some (pos x))\<rparr> else x)"

definition set_url_start :: "'p locals \<Rightarrow> 'p locals" where
  "set_url_start x = (if url_start_mark x = None then x\<lparr>url_start_mark := Some (pos x)\<rparr> else x)"

definition count_header :: "'a pset \<Rightarrow> nat \<Rightarrow> 'a pl \<Rightarrow> ('a pl \<Rightarrow> 'a ps) \<Rightarrow> 'a ps" where
  "count_header S v x k =
     (let x1 = x\<lparr>nread := nread x + of_nat v\<rparr>
      in if nread x1 > max_header_size S then fail CHPE_HEADER_OVERFLOW x1 else k x1)"

section \<open>The request line\<close>

definition step_dead :: "char \<Rightarrow> 'a pl \<Rightarrow> 'a ps" where
  "step_dead ch x = (if ch = CR \<or> ch = LF then Next x else fail CHPE_CLOSED_CONNECTION x)"

definition step_start_req :: "'a pset \<Rightarrow> char \<Rightarrow> 'a pl \<Rightarrow> 'a ps" where
  "step_start_req S ch x =
     (if ch = CR \<or> ch = LF then Next x
      else
        (let x1 = upd (\<lambda>q. q\<lparr>flags := no_flags, uses_transfer_encoding := False, content_length := -1\<rparr>) x
         in if \<not> is_alpha ch then fail CHPE_INVALID_METHOD x1
            else
              (let x2 = upd (\<lambda>q. q\<lparr>pmethod := M_Delete, index := 1\<rparr>) x1
               in case map_of first_methods ch of
                    None \<Rightarrow> fail CHPE_INVALID_METHOD x2
                  | Some m \<Rightarrow>
                      notify (on_message_begin S) CHPE_CB_message_begin (pos x + 1)
                        (upd (\<lambda>q. q\<lparr>pmethod := m, state := s_req_method\<rparr>) x2) Next)))"

definition step_method :: "char \<Rightarrow> 'a pl \<Rightarrow> 'a ps" where
  "step_method ch x =
     (if ch = CHR 0x00 then fail CHPE_INVALID_METHOD x
      else
        (let m = pmethod (par x); i = index (par x);
             bump = upd (\<lambda>q. q\<lparr>index := next_index (index q)\<rparr>)
         in case at (method_strings ! method_value m) i of
              None \<Rightarrow> Stuck
            | Some c \<Rightarrow>
                (if ch = CHR '' '' \<and> c = CHR 0x00 then Next (bump (goto s_req_spaces_before_url x))
                 else if ch = c then Next (bump x)
                 else if is_upper ch \<or> ch = CHR ''-'' then
                   (case map_of method_switches (m, i, ch) of
                      None \<Rightarrow> fail CHPE_INVALID_METHOD x
                    | Some m' \<Rightarrow> Next (bump (upd (\<lambda>q. q\<lparr>pmethod := m'\<rparr>) x)))
                 else fail CHPE_INVALID_METHOD x)))"

text \<open>The next state from \<open>parse_url_char\<close>, and the failure when it is \<open>s_dead\<close>.\<close>

definition step_url_char :: "char \<Rightarrow> 'a pl \<Rightarrow> 'a ps" where
  "step_url_char ch x =
     (case parse_url_char (state (par x)) ch (url_start_mark x) (pos x) of
        None \<Rightarrow> Stuck
      | Some (s, qs) \<Rightarrow>
          (let x1 = upd (\<lambda>q. q\<lparr>state := s, qs_point := (case qs of None \<Rightarrow> qs_point q | Some v \<Rightarrow> v)\<rparr>) x
           in if s = s_dead then fail CHPE_INVALID_URL x1 else Next x1))"

definition step_spaces_before_url :: "char \<Rightarrow> 'a pl \<Rightarrow> 'a ps" where
  "step_spaces_before_url ch x =
     (if ch = CHR '' '' then Next x
      else
        (let x1 = set_url_start (set_mark Url x);
             x2 = (if pmethod (par x1) = M_Connect then goto s_req_server_start x1 else x1)
         in step_url_char ch x2))"

definition step_schema :: "char \<Rightarrow> 'a pl \<Rightarrow> 'a ps" where
  "step_schema ch x =
     (if ch = CHR '' '' \<or> ch = CR \<or> ch = LF then fail CHPE_INVALID_URL x else step_url_char ch x)"

definition step_url :: "'a pset \<Rightarrow> string \<Rightarrow> char \<Rightarrow> 'a pl \<Rightarrow> 'a ps" where
  "step_url S data ch x =
     (if ch = CHR '' '' then callback_data S data Url (pos x) (pos x + 1) (goto s_req_http_start x) Next
      else if ch = CR \<or> ch = LF then
        (if pmethod (par x) \<noteq> M_Get then fail CHPE_INVALID_VERSION (goto s_dead x)
         else callback_data S data Url (pos x) (pos x + 1)
                (goto (if ch = CR then s_req_line_almost_done else s_header_field_start)
                  (upd (\<lambda>q. q\<lparr>http_major := 0, http_minor := 9\<rparr>) x)) Next)
      else step_url_char ch x)"

definition step_http_start :: "char \<Rightarrow> 'a pl \<Rightarrow> 'a ps" where
  "step_http_start ch x =
     (if ch = CHR '' '' then Next x
      else if ch = CHR ''H'' then Next (goto s_req_http_H x)
      else if ch = CHR ''I'' \<and> pmethod (par x) = M_Source then Next (goto s_req_http_I x)
      else fail CHPE_INVALID_CONSTANT x)"

definition digit_value :: "char \<Rightarrow> nat" where
  "digit_value ch = bval ch - 48"

definition step_http :: "char \<Rightarrow> 'a pl \<Rightarrow> 'a ps" where
  "step_http ch x =
     (case state (par x) of
        s_req_http_H \<Rightarrow> strict_check (ch \<noteq> CHR ''T'') x (\<lambda>x. Next (goto s_req_http_HT x))
      | s_req_http_HT \<Rightarrow> strict_check (ch \<noteq> CHR ''T'') x (\<lambda>x. Next (goto s_req_http_HTT x))
      | s_req_http_HTT \<Rightarrow> strict_check (ch \<noteq> CHR ''P'') x (\<lambda>x. Next (goto s_req_http_HTTP x))
      | s_req_http_I \<Rightarrow> strict_check (ch \<noteq> CHR ''C'') x (\<lambda>x. Next (goto s_req_http_IC x))
      | s_req_http_IC \<Rightarrow> strict_check (ch \<noteq> CHR ''E'') x (\<lambda>x. Next (goto s_req_http_HTTP x))
      | s_req_http_HTTP \<Rightarrow> strict_check (ch \<noteq> CHR ''/'') x (\<lambda>x. Next (goto s_req_http_major x))
      | s_req_http_major \<Rightarrow>
          (if \<not> is_num ch then fail CHPE_INVALID_VERSION x
           else Next (goto s_req_http_dot (upd (\<lambda>q. q\<lparr>http_major := of_nat (digit_value ch)\<rparr>) x)))
      | s_req_http_dot \<Rightarrow>
          (if ch \<noteq> CHR ''.'' then fail CHPE_INVALID_VERSION x else Next (goto s_req_http_minor x))
      | s_req_http_minor \<Rightarrow>
          (if \<not> is_num ch then fail CHPE_INVALID_VERSION x
           else Next (goto s_req_http_end (upd (\<lambda>q. q\<lparr>http_minor := of_nat (digit_value ch)\<rparr>) x)))
      | s_req_http_end \<Rightarrow>
          (if ch = CR then Next (goto s_req_line_almost_done x)
           else if ch = LF then Next (goto s_header_field_start x)
           else fail CHPE_INVALID_VERSION x)
      | s_req_line_almost_done \<Rightarrow>
          (if ch \<noteq> LF then fail CHPE_LF_EXPECTED x else Next (goto s_header_field_start x))
      | _ \<Rightarrow> Stuck)"

section \<open>Header fields\<close>

definition step_header_field_start :: "char \<Rightarrow> 'a pl \<Rightarrow> 'a ps" where
  "step_header_field_start ch x =
     (if ch = CR then Next (goto s_headers_almost_done x)
      else if ch = LF then Again (goto s_headers_almost_done x)
      else
        (let c = token ch
         in if c = CHR 0x00 then fail CHPE_INVALID_HEADER_TOKEN x
            else Next (upd (\<lambda>q. q\<lparr>index := 0, state := s_header_field,
                   header_state :=
                     (if c = CHR ''c'' then h_C
                      else if c = CHR ''p'' then h_matching_proxy_connection
                      else if c = CHR ''t'' then h_matching_transfer_encoding
                      else if c = CHR ''u'' then h_matching_upgrade
                      else h_general)\<rparr>) (set_mark Header_field x))))"

text \<open>
  The matching of a name, one byte per call: the next index, and the next header state. The literal is
  read at the index only when the index is not behind its terminator.
\<close>

definition match_name :: "string \<Rightarrow> header_state \<Rightarrow> header_state \<Rightarrow> header_state \<Rightarrow> char \<Rightarrow> nat \<Rightarrow> nat \<times> header_state" where
  "match_name name this done_state otherwise c i =
     (let j = next_index i
      in (j, if j > length name \<or> at name j \<noteq> Some c then otherwise
             else if j = length name - 1 then done_state else this))"

text \<open>The inner loop of \<open>h_general\<close>: over token bytes up to \<open>pe\<close>.\<close>

function skip_tokens :: "string \<Rightarrow> nat \<Rightarrow> nat \<Rightarrow> nat" where
  "skip_tokens data p pe =
     (if p + 1 < pe \<and> token (data ! (p + 1)) \<noteq> CHR 0x00 then skip_tokens data (p + 1) pe else p)"
  by pat_completeness auto
termination
  by (relation "measure (\<lambda>(data, p, pe). pe - p)") auto

declare skip_tokens.simps [simp del]

definition field_char :: "'a pset \<Rightarrow> string \<Rightarrow> nat \<Rightarrow> char \<Rightarrow> char \<Rightarrow> 'a http_parser_scheme \<Rightarrow> (nat \<times> 'a http_parser_scheme) option" where
  "field_char S data p ch c q =
     (let i = index q;
          plain = (\<lambda>h. Some (p, q\<lparr>index := next_index i, header_state := h\<rparr>));
          matching = (\<lambda>name done_state. case match_name name (header_state q) done_state h_general c i of
            (j, h) \<Rightarrow> q\<lparr>index := j, header_state := h\<rparr>)
      in case header_state q of
           h_general \<Rightarrow> Some (skip_tokens data p (p + min (length data - p) (unat (max_header_size S))), q)
         | h_C \<Rightarrow> plain (if c = CHR ''o'' then h_CO else h_general)
         | h_CO \<Rightarrow> plain (if c = CHR ''n'' then h_CON else h_general)
         | h_CON \<Rightarrow> plain (if c = CHR ''n'' then h_matching_connection
                          else if c = CHR ''t'' then h_matching_content_length else h_general)
         | h_matching_connection \<Rightarrow> Some (p, matching ''connection'' h_connection)
         | h_matching_proxy_connection \<Rightarrow> Some (p, matching ''proxy-connection'' h_connection)
         | h_matching_content_length \<Rightarrow> Some (p, matching ''content-length'' h_content_length)
         | h_matching_transfer_encoding \<Rightarrow>
             (let q' = matching ''transfer-encoding'' h_transfer_encoding
              in Some (p, if header_state q' = h_transfer_encoding then q'\<lparr>uses_transfer_encoding := True\<rparr> else q'))
         | h_matching_upgrade \<Rightarrow> Some (p, matching ''upgrade'' h_upgrade)
         | h_connection \<Rightarrow> Some (p, if ch \<noteq> CHR '' '' then q\<lparr>header_state := h_general\<rparr> else q)
         | h_content_length \<Rightarrow> Some (p, if ch \<noteq> CHR '' '' then q\<lparr>header_state := h_general\<rparr> else q)
         | h_transfer_encoding \<Rightarrow> Some (p, if ch \<noteq> CHR '' '' then q\<lparr>header_state := h_general\<rparr> else q)
         | h_upgrade \<Rightarrow> Some (p, if ch \<noteq> CHR '' '' then q\<lparr>header_state := h_general\<rparr> else q)
         | _ \<Rightarrow> None)"

lemma skip_tokens_ge: "p \<le> skip_tokens data p pe"
proof (induction data p pe rule: skip_tokens.induct)
  case (1 data p pe)
  then show ?case by (subst skip_tokens.simps) auto
qed

lemma field_char_ge: "field_char S data p ch c q = Some (p', q') \<Longrightarrow> p \<le> p'"
  by (auto simp: field_char_def Let_def skip_tokens_ge split: header_state.splits prod.splits)

text \<open>The loop over the bytes of a field name, from \<open>p\<close> to the first byte that is no token.\<close>

function field_loop :: "'a pset \<Rightarrow> string \<Rightarrow> nat \<Rightarrow> 'a http_parser_scheme \<Rightarrow> (nat \<times> 'a http_parser_scheme) option" where
  "field_loop S data p q =
     (if length data \<le> p then Some (p, q)
      else if token (data ! p) = CHR 0x00 then Some (p, q)
      else (case field_char S data p (data ! p) (token (data ! p)) q of
              None \<Rightarrow> None
            | Some (p', q') \<Rightarrow> field_loop S data (p' + 1) q'))"
  by pat_completeness auto
termination
  by (relation "measure (\<lambda>(S, data, p, q). length data - p)") (auto dest!: field_char_ge)

declare field_loop.simps [simp del]

definition step_header_field :: "'a pset \<Rightarrow> string \<Rightarrow> 'a pl \<Rightarrow> 'a ps" where
  "step_header_field S data x =
     (let start = pos x
      in case field_loop S data start (par x) of
           None \<Rightarrow> Stuck
         | Some (p, q) \<Rightarrow>
             (let x1 = x\<lparr>par := q, pos := p\<rparr>
              in if p = length data then
                   (let x2 = x1\<lparr>pos := p - 1\<rparr> in count_header S (p - 1 - start) x2 Next)
                 else
                   count_header S (p - start) x1
                     (\<lambda>x2. if data ! p = CHR '':'' then
                             callback_data S data Header_field p (p + 1) (goto s_header_value_discard_ws x2) Next
                           else fail CHPE_INVALID_HEADER_TOKEN x2)))"

section \<open>Header values\<close>

definition step_header_value_start :: "char \<Rightarrow> 'a pl \<Rightarrow> 'a ps" where
  "step_header_value_start ch x =
     (let x1 = upd (\<lambda>q. q\<lparr>state := s_header_value, index := 0\<rparr>) (set_mark Header_value x);
          c = lower ch; q = par x1;
          to = (\<lambda>h. Next (upd (\<lambda>q. q\<lparr>header_state := h\<rparr>) x1))
      in case header_state q of
           h_upgrade \<Rightarrow>
             Next (upd (\<lambda>q. q\<lparr>flags := (flags q)\<lparr>f_upgrade := True\<rparr>, header_state := h_general\<rparr>) x1)
         | h_transfer_encoding \<Rightarrow>
             to (if c = CHR ''c'' then h_matching_transfer_encoding_chunked else h_matching_transfer_encoding_token)
         | h_matching_transfer_encoding_token_start \<Rightarrow> Next x1
         | h_content_length \<Rightarrow>
             (if \<not> is_num ch then fail CHPE_INVALID_CONTENT_LENGTH x1
              else if f_contentlength (flags q) then fail CHPE_UNEXPECTED_CONTENT_LENGTH x1
              else Next (upd (\<lambda>q. q\<lparr>flags := (flags q)\<lparr>f_contentlength := True\<rparr>,
                     content_length := of_nat (digit_value ch), header_state := h_content_length_num\<rparr>) x1))
         | h_content_length_ws \<Rightarrow> Next x1
         | h_connection \<Rightarrow>
             (if c = CHR ''k'' then to h_matching_connection_keep_alive
              else if c = CHR ''c'' then to h_matching_connection_close
              else if c = CHR '' '' \<or> c = TAB then Next x1
              else to h_general)
         | _ \<Rightarrow> to h_general)"

definition step_discard_ws :: "char \<Rightarrow> 'a pl \<Rightarrow> 'a ps" where
  "step_discard_ws ch x =
     (if ch = CHR '' '' \<or> ch = TAB then Next x
      else if ch = CR then Next (goto s_header_value_discard_ws_almost_done x)
      else if ch = LF then Next (goto s_header_value_discard_lws x)
      else step_header_value_start ch x)"

text \<open>
  The inner loop of \<open>h_general\<close>: the position at which it stops, one before a line end, at \<open>pe\<close>, or
  (on the left) at a byte that no header may have.
\<close>

function scan_general :: "string \<Rightarrow> bool \<Rightarrow> nat \<Rightarrow> nat \<Rightarrow> nat + nat" where
  "scan_general data lenient p pe =
     (if pe \<le> p then Inr p
      else if data ! p = CR \<or> data ! p = LF then Inr (p - 1)
      else if \<not> lenient \<and> \<not> is_header_char (data ! p) then Inl p
      else scan_general data lenient (p + 1) pe)"
  by pat_completeness auto
termination
  by (relation "measure (\<lambda>(data, lenient, p, pe). pe - p)") auto

declare scan_general.simps [simp del]

text \<open>
  One turn of the loop over a value, on the state \<open>h\<close> that the code keeps in a local variable: the
  next position, state and parser, a failure, or an assertion that fails (\<open>None\<close>).
\<close>

definition value_char ::
    "'a pset \<Rightarrow> string \<Rightarrow> header_state \<Rightarrow> nat \<Rightarrow> char \<Rightarrow> 'a pl
       \<Rightarrow> ('a ps + (header_state \<times> nat \<times> 'a pl)) option" where
  "value_char S data h p ch x =
     (let c = lower ch; lenient = lenient_http_headers (par x); q = par x;
          stay = (\<lambda>h'. Some (Inr (h', p, x)));
          bad = (\<lambda>h'. Some (Inl (Failed (upd (\<lambda>q. q\<lparr>header_state := h'\<rparr>)
                  (set_errno CHPE_INVALID_CONTENT_LENGTH (x\<lparr>pos := p\<rparr>))))));
          matching = (\<lambda>name done_state otherwise. case match_name name h done_state otherwise c (index q) of
            (j, h') \<Rightarrow> Some (Inr (h', p, upd (\<lambda>q. q\<lparr>index := j\<rparr>) x)));
          number =
            (if ch = CHR '' '' then stay h_content_length_ws
             else if \<not> is_num ch then bad h_content_length_num
             else if (-1 - 10) div 10 < content_length q then bad h_content_length_num
             else Some (Inr (h_content_length_num, p,
                    upd (\<lambda>q. q\<lparr>content_length := content_length q * 10 + of_nat (digit_value ch)\<rparr>) x)))
      in case h of
           h_general \<Rightarrow>
             (case scan_general data lenient p (p + min (length data - p) (unat (max_header_size S))) of
                Inl p' \<Rightarrow> Some (Inl (fail CHPE_INVALID_HEADER_TOKEN (x\<lparr>pos := p'\<rparr>)))
              | Inr p' \<Rightarrow> Some (Inr (h, if p' = length data then p' - 1 else p', x)))
         | h_connection \<Rightarrow> None
         | h_transfer_encoding \<Rightarrow> None
         | h_content_length \<Rightarrow> (if ch = CHR '' '' then stay h else number)
         | h_content_length_num \<Rightarrow> number
         | h_content_length_ws \<Rightarrow> (if ch = CHR '' '' then stay h else bad h)
         | h_matching_transfer_encoding_token_start \<Rightarrow>
             stay (if c = CHR ''c'' then h_matching_transfer_encoding_chunked
                   else if token c \<noteq> CHR 0x00 then h_matching_transfer_encoding_token
                   else if c = CHR '' '' \<or> c = TAB then h else h_general)
         | h_matching_transfer_encoding_chunked \<Rightarrow>
             matching ''chunked'' h_transfer_encoding_chunked h_matching_transfer_encoding_token
         | h_matching_transfer_encoding_token \<Rightarrow>
             (if ch = CHR '','' then
                Some (Inr (h_matching_transfer_encoding_token_start, p, upd (\<lambda>q. q\<lparr>index := 0\<rparr>) x))
              else stay h)
         | h_matching_connection_keep_alive \<Rightarrow> matching ''keep-alive'' h_connection_keep_alive h_general
         | h_matching_connection_close \<Rightarrow> matching ''close'' h_connection_close h_general
         | h_transfer_encoding_chunked \<Rightarrow>
             stay (if ch \<noteq> CHR '' '' then h_matching_transfer_encoding_token else h)
         | h_connection_keep_alive \<Rightarrow> stay (if ch \<noteq> CHR '' '' then h_general else h)
         | h_connection_close \<Rightarrow> stay (if ch \<noteq> CHR '' '' then h_general else h)
         | _ \<Rightarrow> Some (Inr (h_general, p, goto s_header_value x)))"

text \<open>\<open>p\<close> may step back by one in \<open>h_general\<close>, but not when the byte at \<open>p\<close> is no line end.\<close>

lemma scan_general_ge:
  "scan_general data lenient p pe = Inr p' \<Longrightarrow> data ! p \<noteq> CR \<Longrightarrow> data ! p \<noteq> LF \<Longrightarrow> p \<le> p'"
proof (induction data lenient p pe rule: scan_general.induct)
  case (1 data lenient p pe)
  show ?case
  proof (cases "data ! (p + 1) = CR \<or> data ! (p + 1) = LF")
    case True
    with 1 show ?thesis
      by (subst (asm) scan_general.simps, subst (asm) (2) scan_general.simps) (auto split: if_splits)
  next
    case False
    with 1 show ?thesis by (subst (asm) scan_general.simps) (auto split: if_splits)
  qed
qed

lemma scan_general_le: "scan_general data lenient p pe = Inr p' \<Longrightarrow> p \<le> pe \<Longrightarrow> p' \<le> pe"
proof (induction data lenient p pe rule: scan_general.induct)
  case (1 data lenient p pe)
  then show ?case by (subst (asm) scan_general.simps) (auto split: if_splits)
qed

lemma value_char_ge:
  assumes "value_char S data h p ch x = Some (Inr (h', p', x'))"
    and "p < length data" "ch = data ! p" "ch \<noteq> CR" "ch \<noteq> LF"
  shows "p \<le> p'" "p' < length data"
proof -
  show "p \<le> p'" using assms
    by (auto simp: value_char_def Let_def split: header_state.splits prod.splits sum.splits if_splits
        dest!: scan_general_ge)
  show "p' < length data" using assms
    by (auto simp: value_char_def Let_def split: header_state.splits prod.splits sum.splits if_splits
        dest!: scan_general_le)
qed

text \<open>The loop over the bytes of a value, which began at \<open>start\<close>.\<close>

function value_loop :: "'a pset \<Rightarrow> string \<Rightarrow> nat \<Rightarrow> header_state \<Rightarrow> nat \<Rightarrow> 'a pl \<Rightarrow> 'a ps" where
  "value_loop S data start h p x =
     (let leave = (\<lambda>h p x.
            let x1 = upd (\<lambda>q. q\<lparr>header_state := h\<rparr>) x; p1 = (if p = length data then p - 1 else p)
            in count_header S (p1 - start) (x1\<lparr>pos := p1\<rparr>) Next)
      in if length data \<le> p then leave h p x
         else
           (let ch = data ! p
            in if ch = CR then
                 callback_data S data Header_value p (p + 1)
                   (upd (\<lambda>q. q\<lparr>state := s_header_almost_done, header_state := h\<rparr>) (x\<lparr>pos := p\<rparr>))
                   (leave h p)
               else if ch = LF then
                 count_header S (p - start) (goto s_header_almost_done (x\<lparr>pos := p\<rparr>))
                   (\<lambda>x1. callback_data S data Header_value p p (upd (\<lambda>q. q\<lparr>header_state := h\<rparr>) x1) Again)
               else if \<not> lenient_http_headers (par x) \<and> \<not> is_header_char ch then
                 fail CHPE_INVALID_HEADER_TOKEN (x\<lparr>pos := p\<rparr>)
               else
                 (case value_char S data h p ch x of
                    None \<Rightarrow> Stuck
                  | Some (Inl r) \<Rightarrow> r
                  | Some (Inr (h', p', x')) \<Rightarrow> value_loop S data start h' (p' + 1) x')))"
  by pat_completeness auto
termination
  by (relation "measure (\<lambda>(S, data, start, h, p, x). length data - p)")
    (auto dest!: value_char_ge(1))

declare value_loop.simps [simp del]

definition step_header_value :: "'a pset \<Rightarrow> string \<Rightarrow> 'a pl \<Rightarrow> 'a ps" where
  "step_header_value S data x = value_loop S data (pos x) (header_state (par x)) (pos x) x"

definition step_header_almost_done :: "char \<Rightarrow> 'a pl \<Rightarrow> 'a ps" where
  "step_header_almost_done ch x =
     (if ch \<noteq> LF then fail CHPE_LF_EXPECTED x else Next (goto s_header_value_lws x))"

definition step_header_value_lws :: "char \<Rightarrow> 'a pl \<Rightarrow> 'a ps" where
  "step_header_value_lws ch x =
     (if ch = CHR '' '' \<or> ch = TAB then
        (let x1 = (if header_state (par x) = h_content_length_num
                   then upd (\<lambda>q. q\<lparr>header_state := h_content_length_ws\<rparr>) x else x)
         in Again (goto s_header_value_start x1))
      else
        (let x1 = upd (\<lambda>q. q\<lparr>flags :=
               (case header_state q of
                  h_connection_keep_alive \<Rightarrow> (flags q)\<lparr>f_connection_keep_alive := True\<rparr>
                | h_connection_close \<Rightarrow> (flags q)\<lparr>f_connection_close := True\<rparr>
                | h_transfer_encoding_chunked \<Rightarrow> (flags q)\<lparr>f_chunked := True\<rparr>
                | _ \<Rightarrow> flags q)\<rparr>) x
         in Again (goto s_header_field_start x1)))"

definition step_discard_ws_almost_done :: "char \<Rightarrow> 'a pl \<Rightarrow> 'a ps" where
  "step_discard_ws_almost_done ch x =
     strict_check (ch \<noteq> LF) x (\<lambda>x. Next (goto s_header_value_discard_lws x))"

definition step_discard_lws :: "'a pset \<Rightarrow> string \<Rightarrow> char \<Rightarrow> 'a pl \<Rightarrow> 'a ps" where
  "step_discard_lws S data ch x =
     (if ch = CHR '' '' \<or> ch = TAB then Next (goto s_header_value_discard_ws x)
      else callback_data S data Header_value (pos x) (pos x)
             (goto s_header_field_start (set_mark Header_value x)) Again)"

section \<open>The end of the headers\<close>

definition step_headers_almost_done :: "'a pset \<Rightarrow> char \<Rightarrow> 'a pl \<Rightarrow> 'a ps" where
  "step_headers_almost_done S ch x =
     strict_check (ch \<noteq> LF) x (\<lambda>x.
       let q = par x
       in if f_trailing (flags q) then
            notify (on_message_complete S) CHPE_CB_message_complete (pos x + 1) (goto s_start_req x) Next
          else if uses_transfer_encoding q \<and> f_contentlength (flags q) \<and>
                  (if f_chunked (flags q) then \<not> allow_chunked_length q else \<not> lenient_http_headers q) then
            fail CHPE_UNEXPECTED_CONTENT_LENGTH x
          else
            (let x1 = upd (\<lambda>q. q\<lparr>state := s_headers_done, upgrade := f_upgrade (flags q) \<or> pmethod q = M_Connect\<rparr>) x
             in case on_headers_complete S (par x1) of None \<Rightarrow> Lost | Some (r, q1) \<Rightarrow>
                  (let x2 = x1\<lparr>par := q1\<rparr>;
                       skip = upd (\<lambda>q. q\<lparr>flags := (flags q)\<lparr>f_skipbody := True\<rparr>\<rparr>)
                   in if r \<notin> {0, 1, 2} then Return (pos x) (set_errno CHPE_CB_headers_complete x2)
                      else
                        (let x3 = (if r = 2 then skip (upd (\<lambda>q. q\<lparr>upgrade := True\<rparr>) x2)
                                   else if r = 1 then skip x2 else x2)
                         in if http_errno (par x3) \<noteq> CHPE_OK
                            then Return (pos x) (upd (\<lambda>q. q\<lparr>saved_nread := nread x3\<rparr>) x3)
                            else Again x3))))"

definition step_headers_done :: "'a pset \<Rightarrow> char \<Rightarrow> 'a pl \<Rightarrow> 'a ps" where
  "step_headers_done S ch x =
     strict_check (ch \<noteq> LF) x (\<lambda>x.
       let x1 = (upd (\<lambda>q. q\<lparr>saved_nread := 0\<rparr>) x)\<lparr>nread := 0\<rparr>; q = par x1;
           complete = notify (on_message_complete S) CHPE_CB_message_complete (pos x + 1) (goto s_start_req x1)
       in if upgrade q then
            complete (\<lambda>x2. Return (pos x2 + 1) (upd (\<lambda>q. q\<lparr>saved_nread := nread x2\<rparr>) x2))
          else if f_skipbody (flags q) then complete Next
          else if f_chunked (flags q) then Next (goto s_chunk_size_start x1)
          else if uses_transfer_encoding q then
            (if \<not> lenient_http_headers q
             then Return (pos x) (upd (\<lambda>q. q\<lparr>saved_nread := nread x1\<rparr>) (set_errno CHPE_INVALID_TRANSFER_ENCODING x1))
             else Next (goto s_body_identity_eof x1))
          else if content_length q = 0 then complete Next
          else if content_length q \<noteq> -1 then Next (goto s_body_identity x1)
          else complete Next)"

section \<open>Bodies\<close>

definition step_body_identity :: "'a pset \<Rightarrow> string \<Rightarrow> 'a pl \<Rightarrow> 'a ps" where
  "step_body_identity S data x =
     (let n = content_length (par x)
      in if n = 0 \<or> n = -1 then Stuck
         else
           (let to_read = min n (of_nat (length data - pos x));
                x1 = upd (\<lambda>q. q\<lparr>content_length := n - to_read\<rparr>) (set_mark Body x);
                x2 = x1\<lparr>pos := pos x + unat to_read - 1\<rparr>
            in if n - to_read = 0 then
                 callback_data S data Body (pos x2 + 1) (pos x2) (goto s_message_done x2) Again
               else Next x2))"

definition step_body_identity_eof :: "string \<Rightarrow> 'a pl \<Rightarrow> 'a ps" where
  "step_body_identity_eof data x = Next ((set_mark Body x)\<lparr>pos := length data - 1\<rparr>)"

definition step_message_done :: "'a pset \<Rightarrow> 'a pl \<Rightarrow> 'a ps" where
  "step_message_done S x =
     notify (on_message_complete S) CHPE_CB_message_complete (pos x + 1) (goto s_start_req x) Next"

text \<open>The assertions on \<open>F_CHUNKED\<close> are guards of the chunk states.\<close>

definition asserting :: "bool \<Rightarrow> 'p step_result \<Rightarrow> 'p step_result" where
  "asserting b k = (if b then k else Stuck)"

definition step_chunk_size_start :: "char \<Rightarrow> 'a pl \<Rightarrow> 'a ps" where
  "step_chunk_size_start ch x =
     asserting (nread x = 1 \<and> f_chunked (flags (par x)))
       (if unhex_val ch = -1 then fail CHPE_INVALID_CHUNK_SIZE x
        else Next (goto s_chunk_size (upd (\<lambda>q. q\<lparr>content_length := of_int (unhex_val ch)\<rparr>) x)))"

definition step_chunk_size :: "char \<Rightarrow> 'a pl \<Rightarrow> 'a ps" where
  "step_chunk_size ch x =
     asserting (f_chunked (flags (par x)))
       (if ch = CR then Next (goto s_chunk_size_almost_done x)
        else if unhex_val ch = -1 then
          (if ch = CHR '';'' \<or> ch = CHR '' '' then Next (goto s_chunk_parameters x)
           else fail CHPE_INVALID_CHUNK_SIZE x)
        else if (-1 - 16) div 16 < content_length (par x) then fail CHPE_INVALID_CONTENT_LENGTH x
        else Next (upd (\<lambda>q. q\<lparr>content_length := content_length q * 16 + of_int (unhex_val ch)\<rparr>) x))"

definition step_chunk_parameters :: "char \<Rightarrow> 'a pl \<Rightarrow> 'a ps" where
  "step_chunk_parameters ch x =
     asserting (f_chunked (flags (par x)))
       (if ch = CR then Next (goto s_chunk_size_almost_done x) else Next x)"

definition step_chunk_size_almost_done :: "char \<Rightarrow> 'a pl \<Rightarrow> 'a ps" where
  "step_chunk_size_almost_done ch x =
     asserting (f_chunked (flags (par x)))
       (strict_check (ch \<noteq> LF) x (\<lambda>x.
          let x1 = (upd (\<lambda>q. q\<lparr>saved_nread := 0\<rparr>) x)\<lparr>nread := 0\<rparr>
          in if content_length (par x1) = 0 then
               Next (goto s_header_field_start (upd (\<lambda>q. q\<lparr>flags := (flags q)\<lparr>f_trailing := True\<rparr>\<rparr>) x1))
             else Next (goto s_chunk_data x1)))"

definition step_chunk_data :: "string \<Rightarrow> 'a pl \<Rightarrow> 'a ps" where
  "step_chunk_data data x =
     (let n = content_length (par x)
      in asserting (f_chunked (flags (par x)) \<and> n \<noteq> 0 \<and> n \<noteq> -1)
           (let to_read = min n (of_nat (length data - pos x));
                x1 = upd (\<lambda>q. q\<lparr>content_length := n - to_read\<rparr>) (set_mark Body x);
                x2 = x1\<lparr>pos := pos x + unat to_read - 1\<rparr>
            in Next (if n - to_read = 0 then goto s_chunk_data_almost_done x2 else x2)))"

definition step_chunk_data_almost_done :: "'a pset \<Rightarrow> string \<Rightarrow> char \<Rightarrow> 'a pl \<Rightarrow> 'a ps" where
  "step_chunk_data_almost_done S data ch x =
     asserting (f_chunked (flags (par x)) \<and> content_length (par x) = 0)
       (strict_check (ch \<noteq> CR) x (\<lambda>x.
          callback_data S data Body (pos x) (pos x + 1) (goto s_chunk_data_done x) Next))"

definition step_chunk_data_done :: "char \<Rightarrow> 'a pl \<Rightarrow> 'a ps" where
  "step_chunk_data_done ch x =
     asserting (f_chunked (flags (par x)))
       (strict_check (ch \<noteq> LF) x (\<lambda>x.
          Next (goto s_chunk_size_start ((upd (\<lambda>q. q\<lparr>saved_nread := 0\<rparr>) x)\<lparr>nread := 0\<rparr>))))"

section \<open>The switch and the loop\<close>

definition step :: "'a pset \<Rightarrow> string \<Rightarrow> 'a pl \<Rightarrow> 'a ps" where
  "step S data x =
     (let ch = data ! pos x; s = state (par x)
      in if s = s_dead then step_dead ch x
         else if s = s_start_req then step_start_req S ch x
         else if s = s_req_method then step_method ch x
         else if s = s_req_spaces_before_url then step_spaces_before_url ch x
         else if s \<in> {s_req_schema, s_req_schema_slash, s_req_schema_slash_slash, s_req_server_start}
           then step_schema ch x
         else if s \<in> {s_req_server, s_req_server_with_at, s_req_path, s_req_query_string_start, s_req_query_string}
           then step_url S data ch x
         else if s = s_req_http_start then step_http_start ch x
         else if s = s_header_field_start then step_header_field_start ch x
         else if s = s_header_field then step_header_field S data x
         else if s = s_header_value_discard_ws then step_discard_ws ch x
         else if s = s_header_value_start then step_header_value_start ch x
         else if s = s_header_value then step_header_value S data x
         else if s = s_header_almost_done then step_header_almost_done ch x
         else if s = s_header_value_lws then step_header_value_lws ch x
         else if s = s_header_value_discard_ws_almost_done then step_discard_ws_almost_done ch x
         else if s = s_header_value_discard_lws then step_discard_lws S data ch x
         else if s = s_headers_almost_done then step_headers_almost_done S ch x
         else if s = s_headers_done then step_headers_done S ch x
         else if s = s_body_identity then step_body_identity S data x
         else if s = s_body_identity_eof then step_body_identity_eof data x
         else if s = s_message_done then step_message_done S x
         else if s = s_chunk_size_start then step_chunk_size_start ch x
         else if s = s_chunk_size then step_chunk_size ch x
         else if s = s_chunk_parameters then step_chunk_parameters ch x
         else if s = s_chunk_size_almost_done then step_chunk_size_almost_done ch x
         else if s = s_chunk_data then step_chunk_data data x
         else if s = s_chunk_data_almost_done then step_chunk_data_almost_done S data ch x
         else if s = s_chunk_data_done then step_chunk_data_done ch x
         else step_http ch x)"

text \<open>One byte: its count towards the size of the headers, and the switch.\<close>

definition byte_step :: "'a pset \<Rightarrow> string \<Rightarrow> 'a pl \<Rightarrow> 'a ps" where
  "byte_step S data x =
     (if parsing_header (state (par x)) then count_header S 1 x (step S data) else step S data x)"

text \<open>What the whole call gives: the bytes consumed and the parser, an execution without meaning, or one
  that a callback left without meaning.\<close>

datatype 'p run = Done nat 'p | Undefined | Callback_undefined

definition finish_error :: "'a pl \<Rightarrow> 'a http_parser_scheme run" where
  "finish_error x =
     (let x1 = (if http_errno (par x) = CHPE_OK then set_errno CHPE_UNKNOWN x else x)
      in Done (pos x1) ((par x1)\<lparr>saved_nread := nread x1\<rparr>))"

text \<open>The callbacks for the marks that are left when the buffer ends; at most one is.\<close>

fun leftover :: "'a pset \<Rightarrow> string \<Rightarrow> mark list \<Rightarrow> 'a pl \<Rightarrow> 'a ps" where
  "leftover S data [] x = Next x"
| "leftover S data (m # ms) x = callback_data S data m (length data) (length data) x (leftover S data ms)"

definition finish :: "'a pset \<Rightarrow> string \<Rightarrow> 'a pl \<Rightarrow> 'a http_parser_scheme run" where
  "finish S data x =
     (if length (filter (\<lambda>m. marks x m \<noteq> None) [Header_field, Header_value, Url, Body]) > 1 then Undefined
      else (case leftover S data [Header_field, Header_value, Url, Body] x of
              Next x1 \<Rightarrow> Done (length data) ((par x1)\<lparr>saved_nread := nread x1\<rparr>)
            | Return er x1 \<Rightarrow> Done er (par x1)
            | Lost \<Rightarrow> Callback_undefined
            | _ \<Rightarrow> Undefined))"

text \<open>
  The loop: \<open>again\<close> says that the switch is entered by \<open>goto reexecute\<close>, which does not count the byte.
\<close>

partial_function (option) exec_loop ::
    "'a pset \<Rightarrow> string \<Rightarrow> bool \<Rightarrow> 'a pl \<Rightarrow> 'a http_parser_scheme run option" where
  "exec_loop S data again x =
     (if \<not> again \<and> length data \<le> pos x then Some (finish S data x)
      else (case (if again then step S data x else byte_step S data x) of
              Next x1 \<Rightarrow> exec_loop S data False (x1\<lparr>pos := pos x1 + 1\<rparr>)
            | Again x1 \<Rightarrow> exec_loop S data True x1
            | Failed x1 \<Rightarrow> Some (finish_error x1)
            | Return er x1 \<Rightarrow> Some (Done er (par x1))
            | Stuck \<Rightarrow> Some Undefined
            | Lost \<Rightarrow> Some Callback_undefined))"

declare exec_loop.simps [code]

text \<open>The marks with which a call starts in the middle of a token; \<open>url_start_mark\<close> is never among them.\<close>

definition start_locals :: "'a http_parser_scheme \<Rightarrow> 'a pl" where
  "start_locals q =
     \<lparr>par = q, pos = 0, nread = saved_nread q,
      marks = (\<lambda>m. case m of
        Header_field \<Rightarrow> if state q = s_header_field then Some 0 else None
      | Header_value \<Rightarrow> if state q = s_header_value then Some 0 else None
      | Url \<Rightarrow> if state q \<in> {s_req_path, s_req_schema, s_req_schema_slash, s_req_schema_slash_slash,
                  s_req_server_start, s_req_server, s_req_server_with_at, s_req_query_string_start,
                  s_req_query_string} then Some 0 else None
      | Body \<Rightarrow> None),
      url_start_mark = None\<rparr>"

definition execute_eof :: "'a pset \<Rightarrow> 'a http_parser_scheme \<Rightarrow> 'a http_parser_scheme run" where
  "execute_eof S q =
     (let x = start_locals q
      in if state q = s_body_identity_eof then
           (case notify (on_message_complete S) CHPE_CB_message_complete 0 x Next of
              Next x1 \<Rightarrow> Done 0 (par x1)
            | Return er x1 \<Rightarrow> Done er (par x1)
            | Lost \<Rightarrow> Callback_undefined
            | _ \<Rightarrow> Undefined)
         else if state q \<in> {s_dead, s_start_req} then Done 0 q
         else Done 1 (par (set_errno CHPE_INVALID_EOF_STATE x)))"

definition http_parser_execute ::
    "'a pset \<Rightarrow> 'a http_parser_scheme \<Rightarrow> string \<Rightarrow> 'a http_parser_scheme run option" where
  "http_parser_execute S q data =
     (if http_errno q \<noteq> CHPE_OK then Some (Done 0 q)
      else if data = [] then Some (execute_eof S q)
      else exec_loop S data False (start_locals q))"

end
