(* ===== verification/Request_Parser.thy ===== *)
theory Request_Parser
  imports Http_Execute Query_String
begin

text \<open>
  \<open>HTTPParser\<close> (\<open>parser.h\<close>): the parser with the fields of the request it builds, its seven callbacks,
  \<open>feed\<close> and \<open>to_request\<close>. The handler (the connection) is the last field; the two functions of it that
  the callbacks call get the whole parser, because they read and move out its fields. A string that has
  been moved from is empty, as the library that the project builds with leaves it.
\<close>

section \<open>The parser\<close>

record 'h HTTPParser = http_parser +
  p_raw_url :: string
  p_url :: string
  header_building_state :: nat
  header_field :: string
  header_value :: string
  p_headers :: ci_map
  p_url_params :: query_string
  p_body :: string
  p_keep_alive :: bool
  p_close_connection :: bool
  handler :: 'h

type_synonym 'h callback = "'h HTTPParser \<Rightarrow> 'h HTTPParser option"

definition clear_parser :: "'h HTTPParser \<Rightarrow> 'h HTTPParser" where
  "clear_parser p = p\<lparr>qs_point := 0, http_major := 0, http_minor := 0, p_raw_url := [], p_url := [],
     header_building_state := 0, header_field := [], header_value := [], p_headers := [],
     p_url_params := qs_clear (p_url_params p), p_body := [], p_keep_alive := False,
     p_close_connection := False\<rparr>"

definition new_HTTPParser :: "'h \<Rightarrow> 'h HTTPParser" where
  "new_HTTPParser h = http_parser_init
     \<lparr>flags = no_flags, state = s_start_req, header_state = h_general, index = 0,
      uses_transfer_encoding = False, allow_chunked_length = False, lenient_http_headers = False,
      saved_nread = 0, content_length = 0, qs_point = 0, http_major = 0, http_minor = 0,
      pmethod = M_Delete, http_errno = CHPE_OK, upgrade = False,
      p_raw_url = [], p_url = [], header_building_state = 0, header_field = [], header_value = [],
      p_headers = [], p_url_params = empty_query_string, p_body = [], p_keep_alive = False,
      p_close_connection = False, handler = h\<rparr>"

section \<open>Callbacks\<close>

definition cb_message_begin :: "'h HTTPParser \<Rightarrow> (int \<times> 'h HTTPParser) option" where
  "cb_message_begin p = Some (0, clear_parser p)"

definition cb_url :: "string \<Rightarrow> 'h HTTPParser \<Rightarrow> (int \<times> 'h HTTPParser) option" where
  "cb_url d p = Some (0, p\<lparr>p_raw_url := p_raw_url p @ d\<rparr>)"

definition cb_header_field :: "string \<Rightarrow> 'h HTTPParser \<Rightarrow> (int \<times> 'h HTTPParser) option" where
  "cb_header_field d p = Some (0,
     if header_building_state p = 0 then
       (let p1 = (if header_value p \<noteq> []
                  then p\<lparr>p_headers := ci_emplace (header_field p) (header_value p) (p_headers p),
                         header_field := [], header_value := []\<rparr>
                  else p)
        in p1\<lparr>header_field := d, header_building_state := 1\<rparr>)
     else if header_building_state p = 1 then p\<lparr>header_field := header_field p @ d\<rparr>
     else p)"

definition cb_header_value :: "string \<Rightarrow> 'h HTTPParser \<Rightarrow> (int \<times> 'h HTTPParser) option" where
  "cb_header_value d p = Some (0,
     if header_building_state p = 0 then p\<lparr>header_value := header_value p @ d\<rparr>
     else if header_building_state p = 1 then p\<lparr>header_building_state := 0, header_value := d\<rparr>
     else p)"

definition set_connection_parameters :: "'h HTTPParser \<Rightarrow> 'h HTTPParser" where
  "set_connection_parameters p =
     (let v10 = (http_major p = 1 \<and> http_minor p = 0); v11 = (http_major p = 1 \<and> http_minor p = 1)
      in p\<lparr>p_keep_alive :=
             (if v10 then (if f_connection_keep_alive (flags p) then True else False)
              else if v11 then True else False),
           p_close_connection :=
             (if v10 then (if f_connection_keep_alive (flags p) then False else True)
              else if v11 then (if f_connection_close (flags p) then True else False) else False)\<rparr>)"

definition cb_headers_complete :: "'h callback \<Rightarrow> 'h HTTPParser \<Rightarrow> (int \<times> 'h HTTPParser) option" where
  "cb_headers_complete handle_header p =
     (let p1 = (if header_field p \<noteq> []
                then p\<lparr>p_headers := ci_emplace (header_field p) (header_value p) (p_headers p),
                       header_field := [], header_value := []\<rparr>
                else p)
      in map_option (Pair 0) (handle_header (set_connection_parameters p1)))"

definition cb_body :: "string \<Rightarrow> 'h HTTPParser \<Rightarrow> (int \<times> 'h HTTPParser) option" where
  "cb_body d p = Some (0, p\<lparr>p_body := p_body p @ d\<rparr>)"

text \<open>\<open>substr(0, n)\<close> clamps \<open>n\<close>.\<close>

definition cb_message_complete :: "'h callback \<Rightarrow> 'h HTTPParser \<Rightarrow> (int \<times> 'h HTTPParser) option" where
  "cb_message_complete handle p =
     (let p1 = p\<lparr>p_url := (if qs_point p \<noteq> 0 then take (unat (qs_point p)) (p_raw_url p) else p_raw_url p)\<rparr>
      in case query_string_of (p_raw_url p1) of
           None \<Rightarrow> None
         | Some q \<Rightarrow> map_option (Pair 0) (handle (p1\<lparr>p_url_params := q\<rparr>)))"

definition parser_settings :: "'h callback \<Rightarrow> 'h callback \<Rightarrow> 'h HTTPParser settings" where
  "parser_settings handle_header handle =
     \<lparr>max_header_size = CROW_HTTP_MAX_HEADER_SIZE, on_message_begin = cb_message_begin, on_url = cb_url,
      on_header_field = cb_header_field, on_header_value = cb_header_value,
      on_headers_complete = cb_headers_complete handle_header, on_body = cb_body,
      on_message_complete = cb_message_complete handle\<rparr>"

section \<open>Feeding, and the request\<close>

text \<open>Whether the buffer was consumed without an error, and the parser; \<open>None\<close> has no meaning.\<close>

definition feed :: "'h callback \<Rightarrow> 'h callback \<Rightarrow> string \<Rightarrow> 'h HTTPParser \<Rightarrow> (bool \<times> 'h HTTPParser) option" where
  "feed handle_header handle buffer p =
     (case http_parser_execute (parser_settings handle_header handle) p buffer of
        Some (Done nparsed p') \<Rightarrow>
          Some (if http_errno p' \<noteq> CHPE_OK then False else nparsed = length buffer, p')
      | _ \<Rightarrow> None)"

definition done_parsing :: "'h callback \<Rightarrow> 'h callback \<Rightarrow> 'h HTTPParser \<Rightarrow> (bool \<times> 'h HTTPParser) option" where
  "done_parsing handle_header handle p = feed handle_header handle [] p"

text \<open>
  \<open>to_request\<close> is \<open>const\<close>, so that its \<open>std::move\<close> copies: the parser keeps its fields.
\<close>

definition to_request :: "'io \<Rightarrow> 'h HTTPParser \<Rightarrow> (query_string, 'io) request" where
  "to_request service p =
     make_request (pmethod p) (p_raw_url p) (p_url p) (p_url_params p) (p_headers p) (p_body p)
       (http_major p) (http_minor p) (p_keep_alive p) (p_close_connection p) (upgrade p) service"

end
