(* ===== verification/Task_Timer.thy ===== *)
theory Task_Timer
  imports Prelude
begin

text \<open>
  The timer that closes idle connections (\<open>task_timer.h\<close>): a map from identifiers to a time and a task,
  which a deadline timer of Boost.Asio goes through once a second. The map is the list of its entries in
  the order of the keys, which is the order the loop visits them in; the clock is an argument, in
  nanoseconds. A task is a name (of the connection it belongs to): running the expired tasks gives the
  list of the names in the order of the calls.

  The interface a connection uses is the locale \<open>deadlines\<close>; the timer is its interpretation.
\<close>

section \<open>The timer\<close>

record 'k task_timer =
  tasks :: "(u64 \<times> int \<times> 'k) list"
  highest_id :: u64
  default_timeout :: u8
  armed :: bool

definition seconds :: "u8 \<Rightarrow> int" where
  "seconds n = uint n * 1000000000"

definition new_task_timer :: "'k task_timer" where
  "new_task_timer = \<lparr>tasks = [], highest_id = 0, default_timeout = 5, armed = True\<rparr>"

definition set_default_timeout :: "u8 \<Rightarrow> 'k task_timer \<Rightarrow> 'k task_timer" where
  "set_default_timeout n t = t\<lparr>default_timeout := n\<rparr>"

text \<open>\<open>map::erase\<close>, and \<open>map::insert\<close>, which leaves an entry with the same key alone.\<close>

fun erase_task :: "u64 \<Rightarrow> (u64 \<times> 'e) list \<Rightarrow> (u64 \<times> 'e) list" where
  "erase_task i [] = []"
| "erase_task i ((j, e) # ts) = (if i = j then ts else (j, e) # erase_task i ts)"

fun insert_task :: "u64 \<Rightarrow> 'e \<Rightarrow> (u64 \<times> 'e) list \<Rightarrow> (u64 \<times> 'e) list" where
  "insert_task i e [] = [(i, e)]"
| "insert_task i e ((j, f) # ts) =
     (if i < j then (i, e) # (j, f) # ts
      else if i = j then (j, f) # ts
      else (j, f) # insert_task i e ts)"

definition cancel :: "u64 \<Rightarrow> 'k task_timer \<Rightarrow> 'k task_timer" where
  "cancel i t = t\<lparr>tasks := erase_task i (tasks t)\<rparr>"

definition schedule_in :: "u8 \<Rightarrow> 'k \<Rightarrow> int \<Rightarrow> 'k task_timer \<Rightarrow> u64 \<times> 'k task_timer" where
  "schedule_in timeout k now t =
     (let i = highest_id t + 1
      in (i, t\<lparr>highest_id := i, tasks := insert_task i (now + seconds timeout, k) (tasks t)\<rparr>))"

definition schedule :: "'k \<Rightarrow> int \<Rightarrow> 'k task_timer \<Rightarrow> u64 \<times> 'k task_timer" where
  "schedule k now t = schedule_in (default_timeout t) k now t"

text \<open>The loop over the entries calls the expired tasks and notes their identifiers.\<close>

fun run_expired :: "int \<Rightarrow> (u64 \<times> int \<times> 'k) list \<Rightarrow> 'k list \<times> u64 list" where
  "run_expired current_time [] = ([], [])"
| "run_expired current_time ((i, at, k) # ts) =
     (case run_expired current_time ts of (ks, finished) \<Rightarrow>
        if at < current_time then (k # ks, i # finished) else (ks, finished))"

definition process_tasks :: "int \<Rightarrow> 'k task_timer \<Rightarrow> 'k list \<times> 'k task_timer" where
  "process_tasks current_time t =
     (case run_expired current_time (tasks t) of (ks, finished) \<Rightarrow>
        (let t1 = t\<lparr>tasks := foldl (\<lambda>ts i. erase_task i ts) (tasks t) finished\<rparr>
         in (ks, if tasks t1 = [] then t1\<lparr>highest_id := 0\<rparr> else t1)))"

definition tick_handler :: "bool \<Rightarrow> int \<Rightarrow> 'k task_timer \<Rightarrow> 'k list \<times> 'k task_timer" where
  "tick_handler ec now t =
     (let t0 = t\<lparr>armed := False\<rparr>
      in if ec then ([], t0) else (case process_tasks now t0 of (ks, t1) \<Rightarrow> (ks, t1\<lparr>armed := True\<rparr>)))"

section \<open>The interface of a connection\<close>

text \<open>
  What a client with one deadline at a time relies on: a cancelled identifier is gone, a new task is
  under the identifier that is returned if it is there at all, and nothing else appears; a round calls
  tasks that are there, and adds none.
\<close>

locale deadlines =
  fixes drop_task :: "'i \<Rightarrow> 't \<Rightarrow> 't"
    and add_task :: "'k \<Rightarrow> int \<Rightarrow> 't \<Rightarrow> 'i \<times> 't"
    and fire :: "bool \<Rightarrow> int \<Rightarrow> 't \<Rightarrow> 'k list \<times> 't"
    and live :: "'t \<Rightarrow> ('i \<times> 'k) set"
    and wf :: "'t \<Rightarrow> bool"
  assumes drop_live: "wf t \<Longrightarrow> live (drop_task i t) = {x \<in> live t. fst x \<noteq> i}"
    and drop_wf: "wf t \<Longrightarrow> wf (drop_task i t)"
    and add_live: "wf t \<Longrightarrow> add_task k now t = (i, t') \<Longrightarrow> live t' \<subseteq> insert (i, k) (live t)"
    and add_wf: "wf t \<Longrightarrow> add_task k now t = (i, t') \<Longrightarrow> wf t'"
    and fire_live: "wf t \<Longrightarrow> fire ec now t = (ks, t') \<Longrightarrow> live t' \<subseteq> live t \<and> set ks \<subseteq> snd ` live t"
    and fire_wf: "wf t \<Longrightarrow> fire ec now t = (ks, t') \<Longrightarrow> wf t'"
begin

text \<open>The tasks of a client \<open>k\<close> are at most the one with the identifier \<open>i\<close>.\<close>

definition only :: "'k \<Rightarrow> 'i \<Rightarrow> 't \<Rightarrow> bool" where
  "only k i t \<longleftrightarrow> (\<forall>x\<in>live t. snd x = k \<longrightarrow> fst x = i)"

definition without :: "'k \<Rightarrow> 't \<Rightarrow> bool" where
  "without k t \<longleftrightarrow> (\<forall>x\<in>live t. snd x \<noteq> k)"

lemma drop_own: "wf t \<Longrightarrow> only k i t \<Longrightarrow> without k (drop_task i t)"
  by (auto simp: only_def without_def drop_live)

lemma without_only: "without k t \<Longrightarrow> only k i t"
  by (auto simp: only_def without_def)

lemma drop_without: "wf t \<Longrightarrow> without k t \<Longrightarrow> without k (drop_task i t)"
  by (auto simp: without_def drop_live)

lemma drop_only: "wf t \<Longrightarrow> only k i t \<Longrightarrow> only k i (drop_task j t)"
  by (auto simp: only_def drop_live)

lemma restart:
  assumes "wf t" "only k i t" "add_task k now (drop_task i t) = (j, t')"
  shows "only k j t'"
  using drop_own [OF assms(1,2)] add_live [OF drop_wf [OF assms(1)] assms(3)]
  by (auto simp: only_def without_def)

lemma add_other:
  assumes "wf t" "add_task k' now t = (j, t')" "k' \<noteq> k"
  shows "only k i t \<Longrightarrow> only k i t'" "without k t \<Longrightarrow> without k t'"
  using add_live [OF assms(1,2)] assms(3) by (auto simp: only_def without_def)

lemma fire_own:
  assumes "wf t" "fire ec now t = (ks, t')"
  shows "only k i t \<Longrightarrow> only k i t'" "without k t \<Longrightarrow> without k t' \<and> k \<notin> set ks"
  using fire_live [OF assms] by (auto simp: only_def without_def)

end

section \<open>The order of the entries\<close>

definition sorted_tasks :: "'k task_timer \<Rightarrow> bool" where
  "sorted_tasks t \<longleftrightarrow> sorted_wrt (<) (map fst (tasks t))"

definition live_tasks :: "'k task_timer \<Rightarrow> (u64 \<times> 'k) set" where
  "live_tasks t = {(i, k). \<exists>at. (i, at, k) \<in> set (tasks t)}"

lemma set_erase_task: "sorted_wrt (<) (map fst ts) \<Longrightarrow> set (erase_task i ts) = {x \<in> set ts. fst x \<noteq> i}"
  by (induction ts) (auto split: if_splits, fastforce)

lemma sorted_erase_task: "sorted_wrt (<) (map fst ts) \<Longrightarrow> sorted_wrt (<) (map fst (erase_task i ts))"
  by (induction ts) (auto simp: set_erase_task)

lemma set_insert_task: "set (insert_task i e ts) \<subseteq> insert (i, e) (set ts)"
  by (induction ts) (auto split: if_splits)

lemma insert_task_fresh: "i \<notin> fst ` set ts \<Longrightarrow> set (insert_task i e ts) = insert (i, e) (set ts)"
  by (induction ts) (auto split: if_splits)

lemma sorted_insert_task:
  "sorted_wrt (<) (map fst ts) \<Longrightarrow> sorted_wrt (<) (map fst (insert_task i e ts))"
proof (induction ts)
  case (Cons x ts)
  obtain j f where x: "x = (j, f)" by (cases x)
  have "fst y = i \<or> y \<in> set ts" if "y \<in> set (insert_task i e ts)" for y
    using set_insert_task [of i e ts] that by auto
  with Cons show ?case by (fastforce simp: x)
qed simp

section \<open>Lemmas on the run of the expired tasks\<close>

lemma run_expired_filter:
  "run_expired now ts = (map (\<lambda>(i, at, k). k) (filter (\<lambda>(i, at, k). at < now) ts),
     map fst (filter (\<lambda>(i, at, k). at < now) ts))"
  by (induction ts) auto

lemma erase_task_filter: "sorted_wrt (<) (map fst ts) \<Longrightarrow> erase_task i ts = filter (\<lambda>x. fst x \<noteq> i) ts"
  by (induction ts) (auto intro!: filter_True [symmetric])

lemma erase_tasks:
  "sorted_wrt (<) (map fst ts) \<Longrightarrow> foldl (\<lambda>ts i. erase_task i ts) ts is = filter (\<lambda>x. fst x \<notin> set is) ts"
proof (induction "is" arbitrary: ts)
  case (Cons i "is")
  have "filter (\<lambda>x. fst x \<notin> set is) (erase_task i ts) = filter (\<lambda>x. fst x \<notin> set (i # is)) ts"
    using Cons.prems by (simp add: erase_task_filter conj_commute)
  then show ?case using Cons.IH [OF sorted_erase_task [OF Cons.prems]] by simp
qed simp

lemma keep_unexpired:
  fixes ts :: "(u64 \<times> int \<times> 'k) list"
  assumes "sorted_wrt (<) (map fst ts)"
  shows "filter (\<lambda>x. fst x \<notin> set (map fst (filter (\<lambda>(i, at, k). at < now) ts))) ts =
    filter (\<lambda>(i, at, k). \<not> at < now) ts"
proof (rule filter_cong [OF refl])
  fix x assume x: "x \<in> set ts"
  have "distinct (map fst ts)" using assms by (simp add: strict_sorted_iff)
  then have "inj_on fst (set ts)" by (simp add: distinct_map)
  then show "(fst x \<notin> set (map fst (filter (\<lambda>(i, at, k). at < now) ts))) = (case x of (i, at, k) \<Rightarrow> \<not> at < now)"
    using x by (auto dest: inj_onD)
qed

lemma process_tasks_eq:
  assumes "sorted_tasks t"
  shows "fst (process_tasks now t) = map (\<lambda>(i, at, k). k) (filter (\<lambda>(i, at, k). at < now) (tasks t))"
    and "tasks (snd (process_tasks now t)) = filter (\<lambda>(i, at, k). \<not> at < now) (tasks t)"
proof -
  note s = assms [unfolded sorted_tasks_def]
  show "fst (process_tasks now t) = map (\<lambda>(i, at, k). k) (filter (\<lambda>(i, at, k). at < now) (tasks t))"
    by (simp add: process_tasks_def run_expired_filter Let_def)
  have "foldl (\<lambda>ts i. erase_task i ts) (tasks t) (map fst (filter (\<lambda>(i, at, k). at < now) (tasks t))) =
      filter (\<lambda>(i, at, k). \<not> at < now) (tasks t)"
    using erase_tasks [OF s] keep_unexpired [OF s] by simp
  then show "tasks (snd (process_tasks now t)) = filter (\<lambda>(i, at, k). \<not> at < now) (tasks t)"
    by (simp add: process_tasks_def run_expired_filter Let_def)
qed

text \<open>The timer provides the interface.\<close>

lemma map_filter_sorted: "sorted_wrt (<) (map fst ts) \<Longrightarrow> sorted_wrt (<) (map fst (filter P ts))"
  by (induction ts) auto

interpretation dl: deadlines cancel schedule tick_handler live_tasks sorted_tasks
proof
  fix t t' :: "'a task_timer" and i k now
  show "sorted_tasks t \<Longrightarrow> live_tasks (cancel i t) = {x \<in> live_tasks t. fst x \<noteq> i}"
    by (auto simp: live_tasks_def sorted_tasks_def cancel_def set_erase_task)
  show "sorted_tasks t \<Longrightarrow> sorted_tasks (cancel i t)"
    by (simp add: sorted_tasks_def cancel_def sorted_erase_task)
  show "schedule k now t = (i, t') \<Longrightarrow> live_tasks t' \<subseteq> insert (i, k) (live_tasks t)"
    using set_insert_task [of i "(now + seconds (default_timeout t), k)" "tasks t"]
    by (auto simp: live_tasks_def schedule_def schedule_in_def Let_def)
  show "sorted_tasks t \<Longrightarrow> schedule k now t = (i, t') \<Longrightarrow> sorted_tasks t'"
    by (auto simp: sorted_tasks_def schedule_def schedule_in_def Let_def sorted_insert_task)
  show "sorted_tasks t \<Longrightarrow> tick_handler ec now t = (ks, t') \<Longrightarrow>
      live_tasks t' \<subseteq> live_tasks t \<and> set ks \<subseteq> snd ` live_tasks t" for ec ks
    using process_tasks_eq [of "t\<lparr>armed := False\<rparr>" now]
    by (cases "process_tasks now (t\<lparr>armed := False\<rparr>)")
      (force simp: tick_handler_def Let_def sorted_tasks_def live_tasks_def split: if_splits)
  show "sorted_tasks t \<Longrightarrow> tick_handler ec now t = (ks, t') \<Longrightarrow> sorted_tasks t'" for ec ks
    using process_tasks_eq [of "t\<lparr>armed := False\<rparr>" now]
    by (cases "process_tasks now (t\<lparr>armed := False\<rparr>)")
      (auto simp: tick_handler_def Let_def sorted_tasks_def map_filter_sorted split: if_splits)
qed

section \<open>Properties\<close>

text \<open>C35: A round of the timer calls exactly the tasks whose time is past, each once and in the order of
  their identifiers, and keeps exactly the others; nothing runs when the wait was cancelled. An
  identifier that is issued while the counter has not reached its end is one that no task has, and the
  task is stored under it with the time of the clock plus the timeout.\<close>

theorem timer_runs_expired:
  assumes "sorted_tasks t" "\<forall>x\<in>set (tasks t). fst x \<le> highest_id t" "highest_id t < -1"
  shows "fst (tick_handler False now t) = map (\<lambda>(i, at, k). k) (filter (\<lambda>(i, at, k). at < now) (tasks t)) \<and>
    tasks (snd (tick_handler False now t)) = filter (\<lambda>(i, at, k). \<not> at < now) (tasks t) \<and>
    fst (tick_handler True now t) = [] \<and> tasks (snd (tick_handler True now t)) = tasks t \<and>
    fst (schedule k now t) \<notin> fst ` set (tasks t) \<and>
    set (tasks (snd (schedule k now t))) =
      insert (fst (schedule k now t), now + seconds (default_timeout t), k) (set (tasks t))"
proof -
  have s: "sorted_tasks (t\<lparr>armed := False\<rparr>)" using assms(1) by (simp add: sorted_tasks_def)
  have "highest_id t < highest_id t + 1"
    using assms(3) by (auto simp: not_le [symmetric] inc_less_eq_iff)
  then have "highest_id t + 1 \<notin> fst ` set (tasks t)" using assms(2) by fastforce
  then show ?thesis
    using process_tasks_eq [OF s, of now]
    by (simp add: tick_handler_def case_prod_beta schedule_def schedule_in_def Let_def insert_task_fresh)
qed

theorem timer_runs_expired_witness:
  "fst (tick_handler False 7000000000 (snd (schedule ''b'' 5000000000 (snd (schedule ''a'' 0 new_task_timer))))) = [''a'']"
  using timer_runs_expired [of "snd (schedule ''b'' 5000000000 (snd (schedule ''a'' 0 new_task_timer)))" 7000000000]
  by (simp add: sorted_tasks_def schedule_def schedule_in_def new_task_timer_def seconds_def word_le_nat_alt
      word_less_nat_alt unat_minus_1)

text \<open>An identifier that a client keeps after its task has run can cancel the task of another client:
  when no task is left the counter starts again at 1.\<close>

lemma timer_id_reused:
  "let (i, t1) = schedule ''a'' 0 new_task_timer;
       (ks, t2) = tick_handler False 6000000000 t1;
       (j, t3) = schedule ''b'' 6000000000 t2
   in ks = [''a''] \<and> j = i \<and> live_tasks t3 = {(j, ''b'')} \<and> live_tasks (cancel i t3) = {}"
  by (simp add: schedule_def schedule_in_def new_task_timer_def tick_handler_def process_tasks_def seconds_def
      cancel_def live_tasks_def)

end
