(* ===== verification/Connection.thy ===== *)
theory Connection
  imports Request_Parser Task_Timer
begin

text \<open>
  A connection (\<open>http_connection.h\<close>): a socket, the parser with the request it builds, the response and
  the flags that say which asynchronous operations are under way. The connection is the handler of its
  parser, so that the whole object is a parser whose field \<open>handler\<close> is the rest of it.

  Boost.Asio and the operating system are the events of the model: a read or a write that ends, a round
  of the timer, calls that other connections make to the shared timer. An operation in flight borrows
  memory of the connection; using it twice or freeing it while it is borrowed, and any use of a deleted
  connection, is \<open>UB\<close>. What a handler run needs from outside (the router, the clock, the file system,
  whether a synchronous write succeeds) is the record \<open>server\<close>. The application has no middleware, and
  the build compresses nothing.
\<close>

section \<open>State\<close>

record socket_adaptor =
  sock_open :: bool
  shut_read :: bool
  shut_write :: bool

definition close_socket :: "socket_adaptor \<Rightarrow> socket_adaptor" where
  "close_socket a = a\<lparr>sock_open := False\<rparr>"

definition shutdown_readwrite :: "socket_adaptor \<Rightarrow> socket_adaptor" where
  "shutdown_readwrite a = a\<lparr>shut_read := True, shut_write := True\<rparr>"

definition shutdown_read :: "socket_adaptor \<Rightarrow> socket_adaptor" where
  "shutdown_read a = a\<lparr>shut_read := True\<rparr>"

definition shutdown_write :: "socket_adaptor \<Rightarrow> socket_adaptor" where
  "shutdown_write a = a\<lparr>shut_write := True\<rparr>"

text \<open>A buffer points into a string of its own or to the two halves of a header of the response.\<close>

datatype const_buffer = Text string | Header_key "string \<times> string" | Header_val "string \<times> string"

fun bytes :: "const_buffer \<Rightarrow> string" where
  "bytes (Text s) = s"
| "bytes (Header_key e) = fst e"
| "bytes (Header_val e) = snd e"

fun borrowed :: "const_buffer \<Rightarrow> (string \<times> string) list" where
  "borrowed (Text s) = []"
| "borrowed (Header_key e) = [e]"
| "borrowed (Header_val e) = [e]"

text \<open>\<open>complete_request_handler_\<close>: empty, the function that does nothing, or \<open>complete_request\<close>.\<close>

datatype completion = No_handler | Do_nothing | Complete_request

type_synonym crow_request = "(query_string, unit) request"

record connection =
  adaptor :: socket_adaptor
  c_req :: crow_request
  c_res :: response
  on_complete :: completion
  c_close_connection :: bool
  buffers :: "const_buffer list"
  content_length_str :: string
  date_str :: string
  res_body_copy :: string
  task_id :: u64
  is_reading :: bool
  is_writing :: bool
  need_to_call_after_handlers :: bool
  need_to_start_read_after_complete :: bool
  c_add_keep_alive :: bool
  timer :: "nat task_timer"
  me :: nat
  queue_length :: u32
  read_op :: bool
  write_op :: "const_buffer list option"
  wire :: string
  started :: bool
  held :: bool
  deleted :: bool

text \<open>
  \<open>router\<close>: the response that the handler of a route leaves, and whether it has called \<open>end\<close>;
  \<open>upgrade_router\<close>: the same for a request to another protocol. \<open>remote\<close> is the address of the peer,
  unless asking for it throws; \<open>stack_bytes\<close> is what an uninitialised array of 16384 bytes holds.
\<close>

record server =
  router :: "crow_request \<Rightarrow> response \<Rightarrow> response \<times> bool"
  upgrade_router :: "crow_request \<Rightarrow> response \<Rightarrow> response \<times> bool"
  server_name :: string
  cached_date :: string
  stream_threshold :: nat
  remote :: "string option"
  clock :: int
  read_file :: "string \<Rightarrow> string option"
  stack_bytes :: string
  sends :: bool

type_synonym conn = "connection HTTPParser"

text \<open>A new connection of the timer's client number \<open>n\<close>.\<close>

definition new_connection :: "nat \<Rightarrow> nat task_timer \<Rightarrow> u32 \<Rightarrow> connection" where
  "new_connection n t queue =
     \<lparr>adaptor = \<lparr>sock_open = True, shut_read = False, shut_write = False\<rparr>,
      c_req = empty_request empty_query_string (), c_res = new_response, on_complete = No_handler,
      c_close_connection = False, buffers = [], content_length_str = [], date_str = [], res_body_copy = [],
      task_id = 0, is_reading = False, is_writing = False, need_to_call_after_handlers = False,
      need_to_start_read_after_complete = False, c_add_keep_alive = False, timer = t, me = n,
      queue_length = queue, read_op = False, write_op = None, wire = [], started = False, held = False,
      deleted = False\<rparr>"

section \<open>Timer and destruction\<close>

definition cancel_deadline_timer :: "connection \<Rightarrow> connection" where
  "cancel_deadline_timer c = c\<lparr>timer := cancel (task_id c) (timer c)\<rparr>"

definition start_deadline :: "server \<Rightarrow> connection \<Rightarrow> connection" where
  "start_deadline env c =
     (let c1 = cancel_deadline_timer c
      in case schedule (me c1) (clock env) (timer c1) of (i, t) \<Rightarrow> c1\<lparr>task_id := i, timer := t\<rparr>)"

text \<open>The destructor, and the destructor of the socket.\<close>

definition destroy_connection :: "connection \<Rightarrow> connection" where
  "destroy_connection c =
     (cancel_deadline_timer (c\<lparr>on_complete := No_handler\<rparr>))\<lparr>adaptor := close_socket (adaptor c), deleted := True\<rparr>"

definition check_destroy :: "connection \<Rightarrow> connection" where
  "check_destroy c =
     (if \<not> is_reading c \<and> \<not> is_writing c
      then destroy_connection (c\<lparr>queue_length := queue_length c - 1\<rparr>) else c)"

definition alive :: "connection \<Rightarrow> connection outcome" where
  "alive c = (if deleted c then UB else Ret c)"

section \<open>Reads and writes\<close>

definition set_res :: "response \<Rightarrow> connection \<Rightarrow> connection outcome" where
  "set_res r c =
     (case write_op c of
        Some bs \<Rightarrow> (if set (concat (map borrowed bs)) \<subseteq> set (headers r) then Ret (c\<lparr>c_res := r\<rparr>) else UB)
      | None \<Rightarrow> Ret (c\<lparr>c_res := r\<rparr>))"

definition do_read :: "connection \<Rightarrow> connection outcome" where
  "do_read c = (if read_op c then UB else Ret (c\<lparr>is_reading := True, read_op := True\<rparr>))"

definition do_write :: "connection \<Rightarrow> connection outcome" where
  "do_write c =
     (if write_op c \<noteq> None then UB else Ret (c\<lparr>is_writing := True, write_op := Some (buffers c)\<rparr>))"

text \<open>A synchronous write; when it fails, \<open>check_destroy\<close> finds \<open>is_writing\<close> set, and the call throws.\<close>

definition do_write_sync :: "server \<Rightarrow> string \<Rightarrow> connection \<Rightarrow> connection outcome" where
  "do_write_sync env bs c =
     (if write_op c \<noteq> None then UB
      else if sends env then Ret (c\<lparr>wire := wire c @ bs\<rparr>)
      else Throw System_error)"

definition close_after_write :: "connection \<Rightarrow> connection" where
  "close_after_write c =
     (if c_close_connection c
      then check_destroy (c\<lparr>adaptor := close_socket (shutdown_readwrite (adaptor c))\<rparr>) else c)"

text \<open>After a synchronous response: \<open>res.end()\<close>, whose handler is empty by then, and the clean-up.\<close>

definition finish_sync :: "connection \<Rightarrow> connection outcome" where
  "finish_sync c =
     bind_outcome (alive (close_after_write (c\<lparr>is_writing := False\<rparr>)))
       (\<lambda>c1. bind_outcome (set_res (clear (end_response (c_res c1))) c1) (\<lambda>c2. Ret (c2\<lparr>buffers := []\<rparr>)))"

section \<open>The response on the wire\<close>

definition crlf :: string where
  "crlf = [CR, LF]"

definition statusCodes :: "(int \<times> string) list" where
  "statusCodes = map (\<lambda>(s, t). (status_code s, ''HTTP/1.1 '' @ t @ crlf))
     [(ST_CONTINUE, ''100 Continue''), (ST_SWITCHING_PROTOCOLS, ''101 Switching Protocols''),
      (ST_OK, ''200 OK''), (ST_CREATED, ''201 Created''), (ST_ACCEPTED, ''202 Accepted''),
      (ST_NON_AUTHORITATIVE_INFORMATION, ''203 Non-Authoritative Information''),
      (ST_NO_CONTENT, ''204 No Content''), (ST_RESET_CONTENT, ''205 Reset Content''),
      (ST_PARTIAL_CONTENT, ''206 Partial Content''),
      (ST_MULTIPLE_CHOICES, ''300 Multiple Choices''), (ST_MOVED_PERMANENTLY, ''301 Moved Permanently''),
      (ST_FOUND, ''302 Found''), (ST_SEE_OTHER, ''303 See Other''), (ST_NOT_MODIFIED, ''304 Not Modified''),
      (ST_TEMPORARY_REDIRECT, ''307 Temporary Redirect''), (ST_PERMANENT_REDIRECT, ''308 Permanent Redirect''),
      (ST_BAD_REQUEST, ''400 Bad Request''), (ST_UNAUTHORIZED, ''401 Unauthorized''), (ST_FORBIDDEN, ''403 Forbidden''),
      (ST_NOT_FOUND, ''404 Not Found''), (ST_METHOD_NOT_ALLOWED, ''405 Method Not Allowed''),
      (ST_PROXY_AUTHENTICATION_REQUIRED, ''407 Proxy Authentication Required''), (ST_CONFLICT, ''409 Conflict''),
      (ST_GONE, ''410 Gone''), (ST_PAYLOAD_TOO_LARGE, ''413 Payload Too Large''),
      (ST_UNSUPPORTED_MEDIA_TYPE, ''415 Unsupported Media Type''),
      (ST_RANGE_NOT_SATISFIABLE, ''416 Range Not Satisfiable''), (ST_EXPECTATION_FAILED, ''417 Expectation Failed''),
      (ST_PRECONDITION_REQUIRED, ''428 Precondition Required''), (ST_TOO_MANY_REQUESTS, ''429 Too Many Requests''),
      (ST_UNAVAILABLE_FOR_LEGAL_REASONS, ''451 Unavailable For Legal Reasons''),
      (ST_INTERNAL_SERVER_ERROR, ''500 Internal Server Error''), (ST_NOT_IMPLEMENTED, ''501 Not Implemented''),
      (ST_BAD_GATEWAY, ''502 Bad Gateway''), (ST_SERVICE_UNAVAILABLE, ''503 Service Unavailable''),
      (ST_GATEWAY_TIMEOUT, ''504 Gateway Timeout''), (ST_VARIANT_ALSO_NEGOTIATES, ''506 Variant Also Negotiates'')]"

text \<open>
  The status line, the headers of the response in the order the map lists them, and the headers that are
  added unless the response has them. The body of an error without one is the reason.
\<close>

definition header_buffers :: "ci_map \<Rightarrow> const_buffer list" where
  "header_buffers hs = concat (map (\<lambda>kv. [Header_key kv, Text '': '', Header_val kv, Text crlf]) hs)"

definition settle_status :: "response \<Rightarrow> string \<times> response" where
  "settle_status r0 =
     (let r1 = (if map_of statusCodes (code r0) = None then r0\<lparr>code := 500\<rparr> else r0);
          line = the (map_of statusCodes (code r1))
      in (line, if 400 \<le> code r1 \<and> body r1 = [] then r1\<lparr>body := drop 9 line\<rparr> else r1))"

definition prepare_buffers :: "server \<Rightarrow> connection \<Rightarrow> connection" where
  "prepare_buffers env c =
     (let c0 = c\<lparr>on_complete := No_handler\<rparr>
      in if \<not> sock_open (adaptor c0) then c0
         else
           (case settle_status (c_res c0) of (line, r2) \<Rightarrow>
             (let b0 = Text line # header_buffers (headers r2);
                  own_length = (\<not> manual_length_header r2 \<and> ci_count ''content-length'' (headers r2) = 0);
                  c1 = c0\<lparr>c_res := r2\<rparr>;
                  c2 = (if own_length then c1\<lparr>content_length_str := show_nat (length (body r2))\<rparr> else c1);
                  b1 = (if own_length then b0 @ [Text ''Content-Length: '', Text (content_length_str c2), Text crlf] else b0);
                  b2 = (if ci_count ''server'' (headers r2) = 0
                        then b1 @ [Text ''Server: '', Text (server_name env), Text crlf] else b1);
                  own_date = (ci_count ''date'' (headers r2) = 0);
                  c3 = (if own_date then c2\<lparr>date_str := cached_date env\<rparr> else c2);
                  b3 = (if own_date then b2 @ [Text ''Date: '', Text (date_str c3), Text crlf] else b2);
                  b4 = (if c_add_keep_alive c3 then b3 @ [Text ''Connection: Keep-Alive'', Text crlf] else b3)
              in c3\<lparr>buffers := b4 @ [Text crlf]\<rparr>)))"

text \<open>
  The file in blocks: \<open>read\<close> overwrites the front of the array with what is left of the file, and the
  whole array is sent.
\<close>

function static_loop :: "server \<Rightarrow> string \<Rightarrow> string \<Rightarrow> connection \<Rightarrow> connection outcome" where
  "static_loop env file buf c =
     (if file = [] then Ret c
      else
        (let chunk = take 16384 file; buf1 = chunk @ drop (length chunk) buf
         in bind_outcome (do_write_sync env buf1 c) (static_loop env (drop 16384 file) buf1)))"
  by pat_completeness auto
termination
  by (relation "measure (\<lambda>(env, file, buf, c). length file)") auto

declare static_loop.simps [simp del]

definition do_write_static :: "server \<Rightarrow> connection \<Rightarrow> connection outcome" where
  "do_write_static env c =
     bind_outcome (do_write_sync env (concat (map bytes (buffers c))) (c\<lparr>is_writing := True\<rparr>))
       (\<lambda>c1. bind_outcome
          (if statResult (file_info (c_res c1)) = 0
           then (case read_file env (c_str (sf_path (file_info (c_res c1)))) of
                   None \<Rightarrow> Ret c1
                 | Some file \<Rightarrow> static_loop env file (stack_bytes env) c1)
           else Ret c1)
          finish_sync)"

function stream_loop :: "server \<Rightarrow> string \<Rightarrow> connection \<Rightarrow> connection outcome" where
  "stream_loop env rest c =
     (if length rest > 16384
      then bind_outcome (do_write_sync env (take 16384 rest) c) (stream_loop env (drop 16384 rest))
      else do_write_sync env rest c)"
  by pat_completeness auto
termination
  by (relation "measure (\<lambda>(env, rest, c). length rest)") auto

declare stream_loop.simps [simp del]

definition do_write_general :: "server \<Rightarrow> connection \<Rightarrow> connection outcome" where
  "do_write_general env c =
     (if length (body (c_res c)) < stream_threshold env then
        (let copy = body (c_res c);
             c1 = c\<lparr>res_body_copy := copy, c_res := (c_res c)\<lparr>body := res_body_copy c\<rparr>,
                    buffers := buffers c @ [Text copy]\<rparr>
         in bind_outcome (do_write c1)
              (\<lambda>c2. if need_to_start_read_after_complete c2
                    then do_read (start_deadline env (c2\<lparr>need_to_start_read_after_complete := False\<rparr>))
                    else Ret c2))
      else
        bind_outcome (do_write_sync env (concat (map bytes (buffers c))) (c\<lparr>is_writing := True\<rparr>))
          (\<lambda>c1. bind_outcome
             (if body (c_res c1) \<noteq> []
              then bind_outcome (stream_loop env (body (c_res c1)) c1)
                     (\<lambda>c2. Ret (c2\<lparr>c_res := (c_res c2)\<lparr>body := []\<rparr>\<rparr>))
              else Ret c1)
             finish_sync))"

text \<open>\<open>find\<close> of a string in a string, as a test.\<close>

fun found_in :: "string \<Rightarrow> string \<Rightarrow> bool" where
  "found_in pat [] \<longleftrightarrow> pat = []"
| "found_in pat (c # s) \<longleftrightarrow> take (length pat) (c # s) = pat \<or> found_in pat s"

text \<open>A redirection to a path is made a redirection to the host the client named.\<close>

definition complete_location :: "connection \<Rightarrow> connection outcome" where
  "complete_location c =
     (let location = get_header_value (headers (c_res c)) ''Location''
      in if location \<noteq> [] \<and> \<not> found_in ''://'' location
         then set_res (set_header ''location''
                (''http://'' @ get_header_value (req_headers (c_req c)) ''Host'' @ location) (c_res c)) c
         else Ret c)"

definition complete_request :: "server \<Rightarrow> connection \<Rightarrow> connection outcome" where
  "complete_request env c =
     bind_outcome (complete_location (c\<lparr>need_to_call_after_handlers := False\<rparr>))
       (\<lambda>c1. let c2 = prepare_buffers env c1
             in if is_static_type (c_res c2) then do_write_static env c2 else do_write_general env c2)"

text \<open>\<open>response::end\<close> of the connection's response.\<close>

definition res_end :: "server \<Rightarrow> connection \<Rightarrow> connection outcome" where
  "res_end env c =
     (if completed (c_res c) then Ret c
      else bind_outcome (set_res (end_response (c_res c)) c)
             (\<lambda>c1. case on_complete c1 of Complete_request \<Rightarrow> complete_request env c1 | _ \<Rightarrow> Ret c1))"

text \<open>A handler gets the request and the response; one that does not end the response holds it.\<close>

definition call_router ::
    "server \<Rightarrow> (crow_request \<Rightarrow> response \<Rightarrow> response \<times> bool) \<Rightarrow> connection \<Rightarrow> connection outcome" where
  "call_router env f c =
     (case f (c_req c) (c_res c) of (r, ends) \<Rightarrow>
        bind_outcome (set_res r c) (\<lambda>c1. if ends then res_end env c1 else Ret (c1\<lparr>held := True\<rparr>)))"

section \<open>Requests\<close>

definition on_connection :: "(connection \<Rightarrow> connection outcome) \<Rightarrow> conn \<Rightarrow> conn outcome" where
  "on_connection f p = bind_outcome (f (handler p)) (\<lambda>c. Ret (p\<lparr>handler := c\<rparr>))"

definition handle_header :: "conn \<Rightarrow> connection \<Rightarrow> connection outcome" where
  "handle_header p c =
     (if http_major p = 1 \<and> http_minor p = 1 \<and> get_header_value (p_headers p) ''expect'' = ''100-continue''
      then do_write (c\<lparr>buffers := [Text (''HTTP/1.1 100 Continue'' @ crlf @ crlf)]\<rparr>)
      else Ret c)"

definition route :: "server \<Rightarrow> bool \<Rightarrow> connection \<Rightarrow> connection outcome" where
  "route env is_invalid_request c =
     (let c1 = c\<lparr>need_to_call_after_handlers := False\<rparr>
      in if is_invalid_request then complete_request env c1
         else
           (let c2 = c1\<lparr>on_complete := Do_nothing\<rparr>
            in if completed (c_res c2) then complete_request env c2
               else
                 bind_outcome
                   (call_router env (router env) (c2\<lparr>on_complete := Complete_request, need_to_call_after_handlers := True\<rparr>))
                   (\<lambda>c3. if c_add_keep_alive c3 then set_res (set_header ''connection'' ''Keep-Alive'' (c_res c3)) c3
                         else Ret c3)))"

definition handle :: "server \<Rightarrow> conn \<Rightarrow> connection \<Rightarrow> connection outcome" where
  "handle env p c =
     (case remote env of
        None \<Rightarrow> Throw System_error
      | Some address \<Rightarrow>
          (let rq = (to_request () p)\<lparr>remote_ip_address := address\<rparr>;
               c1 = (cancel_deadline_timer c)\<lparr>c_req := rq, c_add_keep_alive := keep_alive rq,
                      c_close_connection := close_connection rq\<rparr>;
               is_invalid_request = (check_version 1 1 rq \<and> ci_count ''host'' (req_headers rq) = 0)
           in bind_outcome
                (if is_invalid_request then set_res (assign (response_code 400) (c_res c1)) c1 else Ret c1)
                (\<lambda>c2. if check_version 1 1 rq \<and> req_upgrade rq \<and>
                         take 2 (get_header_value (req_headers rq) ''upgrade'') \<noteq> ''h2''
                      then call_router env (upgrade_router env) (c2\<lparr>c_close_connection := True\<rparr>)
                      else route env is_invalid_request c2)))"

text \<open>The two functions as callbacks of the parser: \<open>None\<close> when they throw or have no meaning.\<close>

definition normal :: "'a outcome \<Rightarrow> 'a option" where
  "normal x = (case x of Ret y \<Rightarrow> Some y | _ \<Rightarrow> None)"

definition header_callback :: "connection callback" where
  "header_callback p = normal (on_connection (handle_header p) p)"

definition message_callback :: "server \<Rightarrow> connection callback" where
  "message_callback env p = normal (on_connection (handle env p) p)"

section \<open>Events\<close>

datatype event =
    Start bool
  | Read_done bool string
  | Write_done bool nat
  | Tick bool
  | Other_cancel u64
  | Other_schedule nat
  | User_end response

definition start :: "server \<Rightarrow> bool \<Rightarrow> connection \<Rightarrow> connection outcome" where
  "start env ec c = (if ec then Ret (check_destroy c) else do_read (start_deadline env c))"

text \<open>The end of a connection in the completion handler of a read.\<close>

definition close_read :: "server \<Rightarrow> (connection \<Rightarrow> connection) \<Rightarrow> conn \<Rightarrow> conn outcome" where
  "close_read env adapt p =
     bind_outcome (of_option (done_parsing header_callback (message_callback env)
         (p\<lparr>handler := cancel_deadline_timer (handler p)\<rparr>)))
       (\<lambda>(_, p1). on_connection (\<lambda>c. Ret (check_destroy ((adapt c)\<lparr>is_reading := False\<rparr>))) p1)"

definition read_done :: "server \<Rightarrow> bool \<Rightarrow> string \<Rightarrow> conn \<Rightarrow> conn outcome" where
  "read_done env ec data p =
     bind_outcome (if ec then Ret (False, p) else of_option (feed header_callback (message_callback env) data p))
       (\<lambda>(ret, p1).
          let c = handler p1; error_while_reading = (ec \<or> \<not> (ret \<and> sock_open (adaptor c)))
          in if error_while_reading then
               close_read env (\<lambda>c. c\<lparr>adaptor := close_socket (shutdown_read (adaptor c))\<rparr>) p1
             else if c_close_connection c then close_read env (\<lambda>c. c) p1
             else if \<not> need_to_call_after_handlers c then on_connection (\<lambda>c. do_read (start_deadline env c)) p1
             else Ret (p1\<lparr>handler := c\<lparr>need_to_start_read_after_complete := True\<rparr>\<rparr>))"

text \<open>An asynchronous write ends when all its bytes are sent, or with an error after \<open>n\<close> of them.\<close>

definition write_done :: "bool \<Rightarrow> connection \<Rightarrow> connection outcome" where
  "write_done ec c =
     bind_outcome (set_res (clear (c_res c)) (c\<lparr>is_writing := False\<rparr>))
       (\<lambda>c1. let c2 = c1\<lparr>res_body_copy := []\<rparr>
             in Ret (if ec then check_destroy c2
                     else if c_close_connection c2
                     then check_destroy (c2\<lparr>adaptor := close_socket (shutdown_write (adaptor c2))\<rparr>) else c2))"

definition sent_bytes :: "bool \<Rightarrow> nat \<Rightarrow> const_buffer list \<Rightarrow> string" where
  "sent_bytes ec n bs = (if ec then take n (concat (map bytes bs)) else concat (map bytes bs))"

text \<open>The task of \<open>start_deadline\<close>.\<close>

definition deadline_task :: "connection \<Rightarrow> connection outcome" where
  "deadline_task c =
     bind_outcome (alive c)
       (\<lambda>c. Ret (if sock_open (adaptor c) then c\<lparr>adaptor := close_socket (shutdown_readwrite (adaptor c))\<rparr> else c))"

definition tick :: "server \<Rightarrow> bool \<Rightarrow> connection \<Rightarrow> connection outcome" where
  "tick env ec c =
     (case tick_handler ec (clock env) (timer c) of (ks, t) \<Rightarrow>
        (let c1 = c\<lparr>timer := t\<rparr> in if me c \<in> set ks then deadline_task c1 else Ret c1))"

definition enabled :: "event \<Rightarrow> connection \<Rightarrow> bool" where
  "enabled ev c = (case ev of
     Start ec \<Rightarrow> \<not> started c
   | Read_done ec data \<Rightarrow> read_op c \<and> data \<noteq> [] \<and> length data \<le> 4096
   | Write_done ec n \<Rightarrow> write_op c \<noteq> None
   | User_end r \<Rightarrow> held c
   | Other_schedule k \<Rightarrow> k \<noteq> me c
   | _ \<Rightarrow> True)"

definition apply_event :: "server \<Rightarrow> event \<Rightarrow> conn \<Rightarrow> conn outcome" where
  "apply_event env ev p = (case ev of
     Start ec \<Rightarrow> on_connection (\<lambda>c. start env ec (c\<lparr>started := True\<rparr>)) p
   | Read_done ec data \<Rightarrow>
       bind_outcome (on_connection alive p) (\<lambda>p. read_done env ec data (p\<lparr>handler := (handler p)\<lparr>read_op := False\<rparr>\<rparr>))
   | Write_done ec n \<Rightarrow>
       on_connection (\<lambda>c. bind_outcome (alive c)
         (\<lambda>c. write_done ec (c\<lparr>write_op := None, wire := wire c @ sent_bytes ec n (the (write_op c))\<rparr>))) p
   | Tick ec \<Rightarrow> on_connection (tick env ec) p
   | Other_cancel i \<Rightarrow> on_connection (\<lambda>c. Ret (c\<lparr>timer := cancel i (timer c)\<rparr>)) p
   | Other_schedule k \<Rightarrow> on_connection (\<lambda>c. Ret (c\<lparr>timer := snd (schedule k (clock env) (timer c))\<rparr>)) p
   | User_end r \<Rightarrow>
       on_connection (\<lambda>c. bind_outcome (alive (c\<lparr>held := False\<rparr>))
         (\<lambda>c. bind_outcome (set_res r c) (res_end env))) p)"

text \<open>A sequence of events, each with what the outside gives at that time.\<close>

fun run_events :: "(server \<times> event) list \<Rightarrow> conn \<Rightarrow> conn outcome" where
  "run_events [] p = Ret p"
| "run_events ((env, ev) # evs) p =
     (if enabled ev (handler p) then bind_outcome (apply_event env ev p) (run_events evs) else UB)"

end
