(* ===== verification/Parser_Invariant.thy ===== *)
theory Parser_Invariant
  imports Http_Execute
begin

text \<open>
  What \<open>http_parser_execute\<close> relies on and what it guarantees: the contract of the callbacks as the
  locale \<open>callbacks\<close>; every call ends (a rank of the states that \<open>goto reexecute\<close> runs down); and the
  invariant of the state machine, under which no assertion fails as long as the input has no NUL byte.
\<close>

section \<open>The contract of the callbacks\<close>

text \<open>The fields that a callback must leave alone: all but the query-string point and the version.\<close>

definition core where
  "core p = (flags p, state p, header_state p, index p, uses_transfer_encoding p, allow_chunked_length p,
     lenient_http_headers p, saved_nread p, content_length p, pmethod p, http_errno p, upgrade p)"

lemma coreD:
  assumes "core p' = core p"
  shows "flags p' = flags p" "state p' = state p" "header_state p' = header_state p" "index p' = index p"
    "uses_transfer_encoding p' = uses_transfer_encoding p" "allow_chunked_length p' = allow_chunked_length p"
    "lenient_http_headers p' = lenient_http_headers p" "content_length p' = content_length p"
    "pmethod p' = pmethod p" "http_errno p' = http_errno p" "upgrade p' = upgrade p"
    "saved_nread p' = saved_nread p"
  using assms by (simp_all add: core_def)

lemma notify_rule:
  assumes cb: "\<And>r p'. cb (par x) = Some (r, p') \<Longrightarrow> r = 0 \<and> core p' = core (par x)"
    and x: "http_errno (par x) = CHPE_OK" and P: "P Lost"
    and k: "\<And>p'. core p' = core (par x) \<Longrightarrow> P (k (x\<lparr>par := p'\<rparr>))"
  shows "P (notify cb e er x k)"
proof (cases "cb (par x)")
  case None
  with x P show ?thesis by (simp add: notify_def)
next
  case (Some rp)
  obtain r p' where rp: "rp = (r, p')" by (cases rp)
  from cb [OF Some [unfolded rp]] have "r = 0" and c: "core p' = core (par x)" by simp_all
  with Some rp x k [OF c] show ?thesis by (simp add: notify_def Let_def coreD [OF c])
qed

lemma data_rule:
  assumes cb: "\<And>d r p'. on_data S m d (par x) = Some (r, p') \<Longrightarrow> r = 0 \<and> core p' = core (par x)"
    and x: "http_errno (par x) = CHPE_OK" and P: "P Lost"
    and k: "\<And>p'. core p' = core (par x) \<Longrightarrow> P (k (x\<lparr>par := p', marks := (marks x)(m := None)\<rparr>))"
  shows "P (callback_data S data m stop er x k)"
proof (cases "marks x m")
  case None
  then have "x\<lparr>par := par x, marks := (marks x)(m := None)\<rparr> = x" by (simp add: fun_upd_idem)
  with None x k [of "par x"] show ?thesis by (simp add: callback_data_def)
next
  case (Some a)
  show ?thesis
  proof (cases "on_data S m (slice data a (stop - a)) (par x)")
    case None
    with Some x P show ?thesis by (simp add: callback_data_def)
  next
    case S: (Some rp)
    obtain r p' where rp: "rp = (r, p')" by (cases rp)
    from cb [OF S [unfolded rp]] have "r = 0" and c: "core p' = core (par x)" by simp_all
    with Some S rp x k [OF c] show ?thesis by (simp add: callback_data_def Let_def coreD [OF c])
  qed
qed

locale callbacks =
  fixes S :: "'a pset"
  assumes begin_keeps: "on_message_begin S p = Some (r, p') \<Longrightarrow> r = 0 \<and> core p' = core p"
    and headers_keeps: "on_headers_complete S p = Some (r, p') \<Longrightarrow> r = 0 \<and> core p' = core p"
    and complete_keeps: "on_message_complete S p = Some (r, p') \<Longrightarrow> r = 0 \<and> core p' = core p"
    and data_keeps: "on_data S m d p = Some (r, p') \<Longrightarrow> r = 0 \<and> core p' = core p"
begin

lemma notify_begin:
  "http_errno (par x) = CHPE_OK \<Longrightarrow> P Lost \<Longrightarrow> (\<And>p'. core p' = core (par x) \<Longrightarrow> P (k (x\<lparr>par := p'\<rparr>))) \<Longrightarrow>
    P (notify (on_message_begin S) e er x k)"
  by (rule notify_rule [where P = P]) (erule begin_keeps)

lemma notify_complete:
  "http_errno (par x) = CHPE_OK \<Longrightarrow> P Lost \<Longrightarrow> (\<And>p'. core p' = core (par x) \<Longrightarrow> P (k (x\<lparr>par := p'\<rparr>))) \<Longrightarrow>
    P (notify (on_message_complete S) e er x k)"
  by (rule notify_rule [where P = P]) (erule complete_keeps)

lemma callback_data_rule:
  "http_errno (par x) = CHPE_OK \<Longrightarrow> P Lost \<Longrightarrow>
    (\<And>p'. core p' = core (par x) \<Longrightarrow> P (k (x\<lparr>par := p', marks := (marks x)(m := None)\<rparr>))) \<Longrightarrow>
    P (callback_data S data m stop er x k)"
  by (rule data_rule [where P = P]) (erule data_keeps)

end

section \<open>Every call ends\<close>

text \<open>How often the \<open>switch\<close> may be entered again for the same byte.\<close>

fun rank :: "pstate \<Rightarrow> nat" where
  "rank s_header_value = 6"
| "rank s_header_value_discard_lws = 5"
| "rank s_header_value_lws = 5"
| "rank s_header_field_start = 4"
| "rank s_headers_almost_done = 3"
| "rank s_headers_done = 2"
| "rank s_body_identity = 1"
| "rank _ = 0"

text \<open>No byte is read twice by \<open>break\<close>, and \<open>goto reexecute\<close> stays in the buffer and lowers the rank.\<close>

definition moves :: "string \<Rightarrow> 'a pl \<Rightarrow> 'a ps \<Rightarrow> bool" where
  "moves data x r = (case r of
      Next x' \<Rightarrow> pos x \<le> pos x'
    | Again x' \<Rightarrow> pos x \<le> pos x' \<and> pos x' < length data \<and> rank (state (par x')) < rank (state (par x))
    | _ \<Rightarrow> True)"

lemma moves_simps [simp]:
  "moves data x (Next x') \<longleftrightarrow> pos x \<le> pos x'"
  "moves data x (Again x') \<longleftrightarrow> pos x \<le> pos x' \<and> pos x' < length data \<and> rank (state (par x')) < rank (state (par x))"
  "moves data x (Failed x')" "moves data x (Return n x')" "moves data x Stuck" "moves data x Lost"
  by (simp_all add: moves_def)

lemma moves_fail [simp]: "moves data x (fail e y)"
  by (simp add: fail_def)

lemma goto_simps [simp]:
  "pos (goto s x) = pos x" "nread (goto s x) = nread x" "marks (goto s x) = marks x"
  "url_start_mark (goto s x) = url_start_mark x" "par (goto s x) = (par x)\<lparr>state := s\<rparr>"
  by (simp_all add: goto_def)

lemma upd_simps [simp]:
  "pos (upd f x) = pos x" "nread (upd f x) = nread x" "marks (upd f x) = marks x"
  "url_start_mark (upd f x) = url_start_mark x" "par (upd f x) = f (par x)"
  by (simp_all add: upd_def)

lemma set_mark_simps [simp]:
  "pos (set_mark m x) = pos x" "nread (set_mark m x) = nread x" "par (set_mark m x) = par x"
  "url_start_mark (set_mark m x) = url_start_mark x"
  "marks (set_mark m x) m \<noteq> None" "m' \<noteq> m \<Longrightarrow> marks (set_mark m x) m' = marks x m'"
  by (simp_all add: set_mark_def)

lemma set_url_start_simps [simp]:
  "pos (set_url_start x) = pos x" "nread (set_url_start x) = nread x" "par (set_url_start x) = par x"
  "marks (set_url_start x) = marks x" "url_start_mark (set_url_start x) \<noteq> None"
  by (simp_all add: set_url_start_def)

lemma set_errno_simps [simp]:
  "pos (set_errno e x) = pos x" "http_errno (par (set_errno e x)) = e"
  by (simp_all add: set_errno_def)

lemma moves_count:
  "(nread x + of_nat v \<le> max_header_size S \<Longrightarrow> moves data y (k (x\<lparr>nread := nread x + of_nat v\<rparr>))) \<Longrightarrow>
    moves data y (count_header S v x k)"
  by (simp add: count_header_def Let_def)

text \<open>The inner loop over a field name goes forward.\<close>

lemma field_loop_ge: "field_loop S data p q = Some (p', q') \<Longrightarrow> p \<le> p'"
proof (induction S data p q rule: field_loop.induct)
  case (1 S data p q)
  show ?case
  proof (cases "length data \<le> p \<or> token (data ! p) = CHR 0x00")
    case True
    with 1(2) show ?thesis by (subst (asm) field_loop.simps) (auto split: if_splits)
  next
    case False
    with 1(2) obtain p1 q1 where f: "field_char S data p (data ! p) (token (data ! p)) q = Some (p1, q1)"
      "field_loop S data (p1 + 1) q1 = Some (p', q')"
      by (subst (asm) field_loop.simps) (auto split: option.splits)
    from 1(1) [OF _ _ f(1) refl f(2)] False field_char_ge [OF f(1)] show ?thesis by simp
  qed
qed

lemma value_char_failed:
  "value_char S data h p ch x = Some (Inl r) \<Longrightarrow> \<exists>x'. r = Failed x' \<and> http_errno (par x') \<noteq> CHPE_OK"
  by (auto simp: value_char_def Let_def fail_def split: header_state.splits sum.splits prod.splits if_splits)

text \<open>The two \<open>leave\<close> continuations of \<open>value_loop\<close>, and its cases as a rule.\<close>

definition leave_value :: "'a pset \<Rightarrow> string \<Rightarrow> nat \<Rightarrow> header_state \<Rightarrow> nat \<Rightarrow> 'a pl \<Rightarrow> 'a ps" where
  "leave_value S data start h p x =
     (let x1 = upd (\<lambda>q. q\<lparr>header_state := h\<rparr>) x; p1 = (if p = length data then p - 1 else p)
      in count_header S (p1 - start) (x1\<lparr>pos := p1\<rparr>) Next)"

lemma value_loop_unfold:
  "value_loop S data start h p x =
     (if length data \<le> p then leave_value S data start h p x
      else if data ! p = CR then
        callback_data S data Header_value p (p + 1)
          (upd (\<lambda>q. q\<lparr>state := s_header_almost_done, header_state := h\<rparr>) (x\<lparr>pos := p\<rparr>))
          (leave_value S data start h p)
      else if data ! p = LF then
        count_header S (p - start) (goto s_header_almost_done (x\<lparr>pos := p\<rparr>))
          (\<lambda>x1. callback_data S data Header_value p p (upd (\<lambda>q. q\<lparr>header_state := h\<rparr>) x1) Again)
      else if \<not> lenient_http_headers (par x) \<and> \<not> is_header_char (data ! p) then
        fail CHPE_INVALID_HEADER_TOKEN (x\<lparr>pos := p\<rparr>)
      else
        (case value_char S data h p (data ! p) x of
           None \<Rightarrow> Stuck
         | Some (Inl r) \<Rightarrow> r
         | Some (Inr (h', p', x')) \<Rightarrow> value_loop S data start h' (p' + 1) x'))"
  by (subst value_loop.simps) (simp add: leave_value_def [abs_def] Let_def cong: if_cong)

context callbacks
begin

lemma notify_moves:
  "(\<And>p'. core p' = core (par x) \<Longrightarrow> moves data y (k (x\<lparr>par := p'\<rparr>))) \<Longrightarrow>
    moves data y (notify (on_message_begin S) e er x k)"
  "(\<And>p'. core p' = core (par x) \<Longrightarrow> moves data y (k (x\<lparr>par := p'\<rparr>))) \<Longrightarrow>
    moves data y (notify (on_message_complete S) e er x k)"
proof -
  assume k: "\<And>p'. core p' = core (par x) \<Longrightarrow> moves data y (k (x\<lparr>par := p'\<rparr>))"
  show "moves data y (notify (on_message_begin S) e er x k)"
  proof (cases "http_errno (par x) = CHPE_OK")
    case True
    then show ?thesis by (rule notify_begin [where P = "moves data y"]) (simp_all add: k)
  qed (simp add: notify_def)
  show "moves data y (notify (on_message_complete S) e er x k)"
  proof (cases "http_errno (par x) = CHPE_OK")
    case True
    then show ?thesis by (rule notify_complete [where P = "moves data y"]) (simp_all add: k)
  qed (simp add: notify_def)
qed

lemma callback_data_moves:
  "(\<And>p'. state p' = state (par x) \<Longrightarrow> moves data y (k (x\<lparr>par := p', marks := (marks x)(m := None)\<rparr>))) \<Longrightarrow>
    moves data y (callback_data S data m stop er x k)"
proof -
  assume k: "\<And>p'. state p' = state (par x) \<Longrightarrow> moves data y (k (x\<lparr>par := p', marks := (marks x)(m := None)\<rparr>))"
  show ?thesis
  proof (cases "http_errno (par x) = CHPE_OK")
    case True
    then show ?thesis by (rule callback_data_rule [where P = "moves data y"]) (simp, rule k, erule coreD(2))
  qed (simp add: callback_data_def)
qed

lemma moves_step_header_field: "pos x < length data \<Longrightarrow> moves data x (step_header_field S data x)"
  unfolding step_header_field_def Let_def
  by (auto split: option.splits prod.splits intro!: moves_count callback_data_moves dest!: field_loop_ge)

lemma moves_leave_value:
  "pos y \<le> start \<Longrightarrow> start \<le> p \<Longrightarrow> start < length data \<Longrightarrow> moves data y (leave_value S data start h p x)"
  unfolding leave_value_def Let_def by (rule moves_count) auto

lemma moves_value_loop:
  assumes "pos y \<le> start" "start \<le> p" "start < length data" "rank (state (par y)) > 0"
  shows "moves data y (value_loop S data start h p x)"
  using assms(2)
proof (induction "length data - p" arbitrary: h p x rule: less_induct)
  case less
  show ?case
  proof (cases "p < length data")
    case False
    then show ?thesis using moves_leave_value [OF assms(1) less(2) assms(3)] by (simp add: value_loop_unfold)
  next
    case p: True
    consider "data ! p = CR" | "data ! p = LF" "data ! p \<noteq> CR"
      | "data ! p \<noteq> LF" "data ! p \<noteq> CR" by blast
    then show ?thesis
    proof cases
      case 1
      then show ?thesis using p assms less(2)
        by (subst value_loop_unfold) (auto intro!: callback_data_moves moves_leave_value)
    next
      case 2
      then show ?thesis using p assms less(2)
        by (subst value_loop_unfold) (auto intro!: callback_data_moves moves_count)
    next
      case 3
      show ?thesis
      proof (cases "value_char S data h p (data ! p) x")
        case None
        with 3 p show ?thesis by (subst value_loop_unfold) simp
      next
        case (Some v)
        show ?thesis
        proof (cases v)
          case (Inl r)
          with Some 3 p value_char_failed show ?thesis by (subst value_loop_unfold) fastforce
        next
          case (Inr t)
          obtain h' p' x' where t: "t = (h', p', x')" by (cases t) auto
          have le: "p \<le> p'" using value_char_ge(1) [OF Some [unfolded Inr t] p refl] 3 by simp
          have "moves data y (value_loop S data start h' (p' + 1) x')"
            by (rule less(1)) (use le p less(2) in auto)
          with Some Inr t 3 p show ?thesis by (subst value_loop_unfold) simp
        qed
      qed
    qed
  qed
qed

lemma moves_step_header_value:
  "pos x < length data \<Longrightarrow> state (par x) = s_header_value \<Longrightarrow> moves data x (step_header_value S data x)"
  unfolding step_header_value_def by (rule moves_value_loop) auto

lemma moves_step_url_char [intro]: "pos x \<le> pos y \<Longrightarrow> moves data x (step_url_char ch y)"
  by (auto simp: step_url_char_def Let_def split: option.splits prod.splits)

lemma moves_request_line:
  "moves data x (step_dead ch x)" "moves data x (step_method ch x)"
  "moves data x (step_schema ch x)" "moves data x (step_http_start ch x)"
  by (auto simp: step_dead_def step_method_def step_schema_def step_http_start_def Let_def split: option.splits)

lemma moves_step_http: "moves data x (step_http ch x)"
  unfolding step_http_def strict_check_def by (cases "state (par x)") simp_all

lemma moves_step_start_req: "moves data x (step_start_req S ch x)"
  by (auto simp: step_start_req_def Let_def split: option.splits intro!: notify_moves)

lemma moves_step_spaces: "moves data x (step_spaces_before_url ch x)"
  by (auto simp: step_spaces_before_url_def Let_def)

lemma moves_step_url: "moves data x (step_url S data ch x)"
  by (auto simp: step_url_def intro!: callback_data_moves)

lemma moves_headers:
  "pos x < length data \<Longrightarrow> state (par x) = s_header_field_start \<Longrightarrow> moves data x (step_header_field_start ch x)"
  "moves data x (step_header_almost_done ch x)"
  "pos x < length data \<Longrightarrow> state (par x) = s_header_value_lws \<Longrightarrow> moves data x (step_header_value_lws ch x)"
  "moves data x (step_discard_ws_almost_done ch x)"
  by (simp_all add: step_header_field_start_def step_header_almost_done_def step_header_value_lws_def
      step_discard_ws_almost_done_def strict_check_def Let_def)

lemma moves_step_header_value_start: "moves data x (step_header_value_start ch x)"
  by (simp add: step_header_value_start_def Let_def split: header_state.split)

lemma moves_step_discard_ws: "moves data x (step_discard_ws ch x)"
  by (simp add: step_discard_ws_def moves_step_header_value_start)

lemma moves_step_discard_lws:
  "pos x < length data \<Longrightarrow> state (par x) = s_header_value_discard_lws \<Longrightarrow> moves data x (step_discard_lws S data ch x)"
  by (auto simp: step_discard_lws_def intro!: callback_data_moves)

lemma moves_step_headers_almost_done:
  assumes "pos x < length data" "state (par x) = s_headers_almost_done"
  shows "moves data x (step_headers_almost_done S ch x)"
proof -
  have h: "state q1 = s_headers_done"
    if "on_headers_complete S ((par x)\<lparr>state := s_headers_done, upgrade := u\<rparr>) = Some (r, q1)" for r q1 u
    using coreD(2) [OF conjunct2 [OF headers_keeps [OF that]]] by simp
  show ?thesis using assms
    by (auto simp: step_headers_almost_done_def strict_check_def Let_def split: option.split prod.split
        intro!: notify_moves dest!: h)
qed

lemma moves_step_headers_done: "moves data x (step_headers_done S ch x)"
  by (auto simp: step_headers_done_def strict_check_def Let_def intro!: notify_moves)

end

text \<open>A body state consumes at least one byte, and stays in the buffer.\<close>

lemma to_read_bounds:
  fixes n :: u64
  assumes "n \<noteq> 0" "p < length data" "length data < 2 ^ 64"
  shows "0 < unat (min n (of_nat (length data - p)))" "unat (min n (of_nat (length data - p))) \<le> length data - p"
proof -
  have u: "unat (of_nat (length data - p) :: u64) = length data - p"
    using assms(2,3) by (simp add: unat_of_nat del: of_nat_diff)
  have m: "unat (min n (of_nat (length data - p))) = min (unat n) (length data - p)"
    unfolding min_def word_le_nat_alt u by (simp only: if_distrib [of unat] u)
  show "unat (min n (of_nat (length data - p))) \<le> length data - p" unfolding m by simp
  show "0 < unat (min n (of_nat (length data - p)))" unfolding m using assms(1,2) by (simp add: unat_gt_0)
qed

context callbacks
begin

lemma moves_step_body_identity:
  assumes "pos x < length data" "length data < 2 ^ 64" "state (par x) = s_body_identity"
  shows "moves data x (step_body_identity S data x)"
proof (cases "content_length (par x) = 0")
  case False
  note b = to_read_bounds [OF False assms(1,2)]
  have "pos x + unat (min (content_length (par x)) (of_nat (length data - pos x))) - 1 < length data"
    using b assms(1) by linarith
  moreover have "pos x \<le> pos x + unat (min (content_length (par x)) (of_nat (length data - pos x))) - 1"
    using b by linarith
  ultimately show ?thesis using assms(3)
    by (auto simp: step_body_identity_def Let_def simp del: of_nat_diff right_minus_eq intro!: callback_data_moves)
qed (simp add: step_body_identity_def Let_def)

lemma moves_step_chunk_data:
  assumes "pos x < length data" "length data < 2 ^ 64"
  shows "moves data x (step_chunk_data data x)"
proof (cases "content_length (par x) = 0")
  case False
  note b = to_read_bounds [OF False assms]
  have "pos x \<le> pos x + unat (min (content_length (par x)) (of_nat (length data - pos x))) - 1"
    using b by linarith
  then show ?thesis by (simp add: step_chunk_data_def asserting_def Let_def del: of_nat_diff right_minus_eq)
qed (simp add: step_chunk_data_def asserting_def Let_def)

lemma moves_bodies:
  "pos x < length data \<Longrightarrow> moves data x (step_body_identity_eof data x)"
  "moves data x (step_message_done S x)" "moves data x (step_chunk_size_start ch x)"
  "moves data x (step_chunk_size ch x)" "moves data x (step_chunk_parameters ch x)"
  "moves data x (step_chunk_size_almost_done ch x)" "moves data x (step_chunk_data_done ch x)"
  by (auto simp: step_body_identity_eof_def step_message_done_def step_chunk_size_start_def step_chunk_size_def
      step_chunk_parameters_def step_chunk_size_almost_done_def step_chunk_data_done_def asserting_def
      strict_check_def Let_def intro!: notify_moves)

lemma moves_step_chunk_data_almost_done: "moves data x (step_chunk_data_almost_done S data ch x)"
  by (auto simp: step_chunk_data_almost_done_def asserting_def strict_check_def intro!: callback_data_moves)

lemmas moves_steps = moves_request_line moves_step_http moves_step_start_req moves_step_spaces moves_step_url
  moves_headers moves_step_header_field moves_step_header_value moves_step_header_value_start moves_step_discard_ws
  moves_step_discard_lws moves_step_headers_almost_done moves_step_headers_done moves_step_body_identity
  moves_step_chunk_data moves_bodies moves_step_chunk_data_almost_done

lemma moves_step:
  assumes "pos x < length data" "length data < 2 ^ 64"
  shows "moves data x (step S data x)"
  unfolding step_def Let_def by (cases "state (par x)") (simp_all add: moves_steps assms [simplified] assms)

lemma moves_byte_step:
  assumes "pos x < length data" "length data < 2 ^ 64"
  shows "moves data x (byte_step S data x)"
proof -
  have "moves data x (step S data (x\<lparr>nread := n\<rparr>))" for n
    using moves_step [of "x\<lparr>nread := n\<rparr>" data] assms by (simp add: moves_def split: step_result.splits)
  then show ?thesis unfolding byte_step_def by (auto intro: moves_count moves_step assms)
qed

text \<open>The loop ends, whatever the callbacks do within their contract.\<close>

lemma exec_loop_ends:
  assumes "length data < 2 ^ 64"
  shows "(again \<Longrightarrow> pos x < length data) \<Longrightarrow> exec_loop S data again x \<noteq> None"
proof (induction "(length data - pos x, rank (state (par x)))" arbitrary: again x
    rule: wf_induct_rule [OF wf_lex_prod [OF wf_less_than wf_less_than]])
  case 1
  show ?case
  proof (cases "\<not> again \<and> length data \<le> pos x")
    case True
    then show ?thesis by (simp add: exec_loop.simps)
  next
    case False
    with 1(2) have p: "pos x < length data" by auto
    let ?r = "if again then step S data x else byte_step S data x"
    have m: "moves data x ?r" using moves_step [OF p assms] moves_byte_step [OF p assms] by simp
    show ?thesis
    proof (cases ?r)
      case (Next x')
      with m p have "length data - pos (x'\<lparr>pos := pos x' + 1\<rparr>) < length data - pos x" by simp
      then have "exec_loop S data False (x'\<lparr>pos := pos x' + 1\<rparr>) \<noteq> None" by (intro 1(1)) simp_all
      with False Next show ?thesis by (subst exec_loop.simps) simp
    next
      case (Again x')
      with m have "exec_loop S data True x' \<noteq> None" by (intro 1(1)) auto
      with False Again show ?thesis by (subst exec_loop.simps) simp
    qed (use False in \<open>subst exec_loop.simps, simp\<close>)+
  qed
qed

lemma execute_ends: "length data < 2 ^ 64 \<Longrightarrow> http_parser_execute S q data \<noteq> None"
  using exec_loop_ends [of data False] by (simp add: http_parser_execute_def)

end

end
