(* ===== verification/Parser_Safety.thy ===== *)
theory Parser_Safety
  imports Parser_Invariant
begin

text \<open>
  The invariant of the parser between the bytes of a call and between calls, and its preservation by
  every state: no assertion of \<open>http_parser_execute\<close> fails, and the header bytes of a message are
  bounded, as long as the input has no NUL byte and no call ends inside the part of a URL before its
  query.
\<close>

section \<open>The invariant\<close>

definition url_prefix_states :: "pstate set" where
  "url_prefix_states = {s_req_schema, s_req_schema_slash, s_req_schema_slash_slash, s_req_server_start,
     s_req_server, s_req_server_with_at, s_req_path}"

definition url_states :: "pstate set" where
  "url_states = url_prefix_states \<union> {s_req_query_string_start, s_req_query_string}"

definition value_states :: "pstate set" where
  "value_states = {s_header_value_start, s_header_value, s_header_almost_done, s_header_value_lws}"

definition chunk_states :: "pstate set" where
  "chunk_states = {s_chunk_size_start, s_chunk_size, s_chunk_parameters, s_chunk_size_almost_done,
     s_chunk_data, s_chunk_data_almost_done, s_chunk_data_done}"

definition body_states :: "pstate set" where
  "body_states = {s_body_identity, s_body_identity_eof, s_chunk_data, s_chunk_data_almost_done}"

definition field_states :: "header_state set" where
  "field_states = {h_general, h_C, h_CO, h_CON, h_matching_connection, h_matching_proxy_connection,
     h_matching_content_length, h_matching_transfer_encoding, h_matching_upgrade, h_connection,
     h_content_length, h_transfer_encoding, h_upgrade}"

text \<open>The matcher of a method, and the fields that a body or chunk state relies on.\<close>

definition parser_ok :: "'a http_parser_scheme \<Rightarrow> bool" where
  "parser_ok q \<longleftrightarrow> http_errno q = CHPE_OK \<and>
     (state q = s_req_method \<longrightarrow> index q \<le> length (method_strings ! method_value (pmethod q))) \<and>
     (state q = s_header_field \<longrightarrow> header_state q \<in> field_states) \<and>
     (state q \<in> value_states \<longrightarrow> header_state q \<noteq> h_connection \<and> header_state q \<noteq> h_transfer_encoding) \<and>
     (state q \<in> chunk_states \<longrightarrow> f_chunked (flags q)) \<and>
     (state q \<in> {s_body_identity, s_chunk_data} \<longrightarrow> content_length q \<noteq> 0 \<and> content_length q \<noteq> -1) \<and>
     (state q \<in> {s_chunk_size, s_chunk_parameters, s_chunk_size_almost_done} \<longrightarrow> content_length q \<noteq> -1) \<and>
     (state q = s_chunk_data_almost_done \<longrightarrow> content_length q = 0)"

text \<open>Between the bytes: the count of the headers, and which marks may be set.\<close>

definition count_ok :: "u32 \<Rightarrow> pstate \<Rightarrow> u32 \<Rightarrow> bool" where
  "count_ok limit s n \<longleftrightarrow> n \<le> limit \<and> (s = s_chunk_size_start \<longrightarrow> n = 0)"

definition marks_ok :: "pstate \<Rightarrow> (mark \<Rightarrow> nat option) \<Rightarrow> bool" where
  "marks_ok s ms \<longleftrightarrow> (s \<noteq> s_header_field \<longrightarrow> ms Header_field = None) \<and> (s \<noteq> s_header_value \<longrightarrow> ms Header_value = None) \<and>
     (s \<notin> url_states \<longrightarrow> ms Url = None) \<and> (s \<notin> body_states \<longrightarrow> ms Body = None)"

definition locals_ok :: "'a pl \<Rightarrow> bool" where
  "locals_ok x \<longleftrightarrow> parser_ok (par x) \<and> marks_ok (state (par x)) (marks x) \<and>
     (state (par x) \<in> url_prefix_states \<longrightarrow> url_start_mark x \<noteq> None)"

text \<open>Between calls.\<close>

definition resting :: "'a pset \<Rightarrow> 'a http_parser_scheme \<Rightarrow> bool" where
  "resting S q \<longleftrightarrow> parser_ok q \<and> count_ok (max_header_size S) (state q) (saved_nread q)"

text \<open>What a step may end with.\<close>

definition sound :: "'a pset \<Rightarrow> 'a ps \<Rightarrow> bool" where
  "sound S r = (case r of
      Next x \<Rightarrow> locals_ok x \<and> count_ok (max_header_size S) (state (par x)) (nread x)
    | Again x \<Rightarrow> locals_ok x \<and> nread x \<le> max_header_size S \<and> state (par x) \<noteq> s_chunk_size_start
    | Failed x \<Rightarrow> http_errno (par x) \<noteq> CHPE_OK
    | Return n x \<Rightarrow> http_errno (par x) \<noteq> CHPE_OK \<or> resting S (par x)
    | Stuck \<Rightarrow> False
    | Lost \<Rightarrow> True)"

lemma sound_simps [simp]:
  "sound S (Next x) \<longleftrightarrow> locals_ok x \<and> count_ok (max_header_size S) (state (par x)) (nread x)"
  "sound S (Again x) \<longleftrightarrow> locals_ok x \<and> nread x \<le> max_header_size S \<and> state (par x) \<noteq> s_chunk_size_start"
  "sound S (Failed x) \<longleftrightarrow> http_errno (par x) \<noteq> CHPE_OK"
  "sound S (Return n x) \<longleftrightarrow> http_errno (par x) \<noteq> CHPE_OK \<or> resting S (par x)"
  "\<not> sound S Stuck" "sound S Lost"
  by (simp_all add: sound_def)

lemma sound_fail [simp]: "sound S (fail e x) \<longleftrightarrow> e \<noteq> CHPE_OK"
  by (simp add: fail_def)

text \<open>What holds when the \<open>switch\<close> is entered.\<close>

definition entered :: "'a pset \<Rightarrow> 'a pl \<Rightarrow> bool" where
  "entered S x \<longleftrightarrow> locals_ok x \<and> nread x \<le> max_header_size S \<and> (state (par x) = s_chunk_size_start \<longrightarrow> nread x = 1)"

lemmas ok_defs = locals_ok_def parser_ok_def marks_ok_def count_ok_def entered_def
lemmas set_defs = url_prefix_states_def url_states_def value_states_def chunk_states_def body_states_def

section \<open>The request line\<close>

lemma sound_step_dead: "entered S x \<Longrightarrow> state (par x) = s_dead \<Longrightarrow> sound S (step_dead ch x)"
  by (simp add: step_dead_def ok_defs)

lemma first_methods_index: "map_of first_methods ch = Some m \<Longrightarrow> 1 \<le> length (method_strings ! method_value m)"
  by (auto simp: first_methods_def method_strings_def split: if_splits)

text \<open>A switch goes to a method with the same bytes up to and with the one at hand.\<close>

lemma method_switches_prefix:
  assumes "map_of method_switches (m, i, ch) = Some m'"
  shows "take (Suc i) (method_strings ! method_value m') = take i (method_strings ! method_value m) @ [ch]"
    "Suc i \<le> length (method_strings ! method_value m')"
proof -
  have "list_all (\<lambda>((m, i, ch), m').
      take (Suc i) (method_strings ! method_value m') = take i (method_strings ! method_value m) @ [ch] \<and>
      Suc i \<le> length (method_strings ! method_value m')) method_switches"
    by code_simp
  moreover have "((m, i, ch), m') \<in> set method_switches" using assms by (rule map_of_SomeD)
  ultimately show "take (Suc i) (method_strings ! method_value m') = take i (method_strings ! method_value m) @ [ch]"
    "Suc i \<le> length (method_strings ! method_value m')"
    by (auto simp: list_all_iff)
qed

lemma method_length: "length (method_strings ! method_value m) \<le> 11"
  by (cases m) (simp_all add: method_strings_def)

lemma sound_step_method:
  assumes "entered S x" "state (par x) = s_req_method"
  shows "sound S (step_method ch x)"
proof -
  let ?s = "method_strings ! method_value (pmethod (par x))" let ?i = "index (par x)"
  have i: "?i \<le> length ?s" using assms by (simp add: ok_defs)
  have n: "next_index ?i = Suc ?i" using i method_length [of "pmethod (par x)"] by (simp add: next_index_def)
  have c: "at ?s ?i = Some (if ?i < length ?s then ?s ! ?i else CHR 0x00)" using i by (auto simp: at_def)
  show ?thesis using assms n c method_switches_prefix(2) [of "pmethod (par x)" ?i ch]
    by (auto simp: step_method_def Let_def ok_defs set_defs split: option.splits if_splits)
qed

text \<open>The fields after a callback, as rewrite rules.\<close>

definition same where
  "same p' q \<longleftrightarrow> flags p' = flags q \<and> state p' = state q \<and> header_state p' = header_state q \<and> index p' = index q \<and>
     content_length p' = content_length q \<and> pmethod p' = pmethod q \<and> http_errno p' = http_errno q \<and>
     upgrade p' = upgrade q \<and> saved_nread p' = saved_nread q"

lemma core_same: "core p' = core q \<Longrightarrow> same p' q"
  by (simp add: core_def same_def)

context callbacks
begin

lemma notify_sound:
  assumes "http_errno (par x) = CHPE_OK"
  shows "(\<And>p'. same p' (par x) \<Longrightarrow> sound S (k (x\<lparr>par := p'\<rparr>))) \<Longrightarrow> sound S (notify (on_message_begin S) e er x k)"
    "(\<And>p'. same p' (par x) \<Longrightarrow> sound S (k (x\<lparr>par := p'\<rparr>))) \<Longrightarrow> sound S (notify (on_message_complete S) e er x k)"
proof -
  assume k: "\<And>p'. same p' (par x) \<Longrightarrow> sound S (k (x\<lparr>par := p'\<rparr>))"
  show "sound S (notify (on_message_begin S) e er x k)"
    by (rule notify_begin [where P = "sound S", OF assms]) (simp, rule k, erule core_same)
  show "sound S (notify (on_message_complete S) e er x k)"
    by (rule notify_complete [where P = "sound S", OF assms]) (simp, rule k, erule core_same)
qed

lemma data_sound:
  assumes "http_errno (par x) = CHPE_OK"
    and k: "\<And>p'. same p' (par x) \<Longrightarrow> sound S (k (x\<lparr>par := p', marks := (marks x)(m := None)\<rparr>))"
  shows "sound S (callback_data S data m stop er x k)"
  by (rule callback_data_rule [where P = "sound S", OF assms(1)]) (simp, rule k, erule core_same)

lemma sound_step_start_req:
  assumes "entered S x" "state (par x) = s_start_req"
  shows "sound S (step_start_req S ch x)"
  using assms first_methods_index [of ch]
  by (auto simp: step_start_req_def Let_def ok_defs set_defs same_def split: option.splits intro!: notify_sound)

end

text \<open>A URL byte.\<close>

lemma url_server_ok:
  "url_server ch um p = Some (s', qs) \<Longrightarrow>
    s' \<in> {s_req_path, s_req_query_string_start, s_req_server_with_at, s_req_server, s_dead}"
  by (auto simp: url_server_def url_query_def split: if_splits option.splits)

lemma url_server_defined: "um \<noteq> None \<Longrightarrow> url_server ch um p \<noteq> None"
  by (auto simp: url_server_def url_query_def)

text \<open>Where a byte of a URL leads.\<close>

fun url_succs :: "pstate \<Rightarrow> pstate set" where
  "url_succs s_req_spaces_before_url = {s_req_path, s_req_schema}"
| "url_succs s_req_schema = {s_req_schema, s_req_schema_slash}"
| "url_succs s_req_schema_slash = {s_req_schema_slash_slash}"
| "url_succs s_req_schema_slash_slash = {s_req_server_start}"
| "url_succs s_req_path = {s_req_path, s_req_query_string_start}"
| "url_succs s_req_query_string_start = {s_req_query_string}"
| "url_succs s_req_query_string = {s_req_query_string}"
| "url_succs _ = {s_req_path, s_req_query_string_start, s_req_server_with_at, s_req_server}"

lemma parse_url_char_succs:
  assumes "s \<in> insert s_req_spaces_before_url url_states" "s \<in> url_prefix_states \<Longrightarrow> um \<noteq> None"
  shows "\<exists>s' qs. parse_url_char s ch um p = Some (s', qs) \<and> (s' = s_dead \<or> s' \<in> url_succs s)"
proof (cases "ch = CHR '' '' \<or> ch = CR \<or> ch = LF \<or> ch = TAB \<or> ch = CHR 0x0C")
  case True
  then show ?thesis by (auto simp: parse_url_char_def)
next
  case False
  have srv: "\<exists>s' qs. url_server ch um p = Some (s', qs) \<and>
      (s' = s_dead \<or> s' \<in> {s_req_path, s_req_query_string_start, s_req_server_with_at, s_req_server})"
    if um: "um \<noteq> None"
  proof -
    obtain s' qs where u: "url_server ch um p = Some (s', qs)"
      using url_server_defined [OF um] by (metis not_Some_eq surj_pair)
    from url_server_ok [OF u] u show ?thesis by auto
  qed
  have q: "url_query um p = Some (s_req_query_string_start, Some (of_nat (p - the um)))" if "um \<noteq> None"
    using that by (auto simp: url_query_def)
  show ?thesis using assms False srv q
    unfolding url_states_def url_prefix_states_def
    by (elim insertE UnE emptyE) (simp_all add: parse_url_char_def)
qed

lemma sound_step_url_char:
  assumes ok: "http_errno (par x) = CHPE_OK" "nread x \<le> max_header_size S"
    and s: "state (par x) \<in> insert s_req_spaces_before_url url_states"
    and ms: "marks x Header_field = None" "marks x Header_value = None" "marks x Body = None"
    and u: "state (par x) \<in> insert s_req_spaces_before_url url_prefix_states \<Longrightarrow> url_start_mark x \<noteq> None"
  shows "sound S (step_url_char ch x)"
proof -
  from parse_url_char_succs [OF s] u obtain s' qs
    where p: "parse_url_char (state (par x)) ch (url_start_mark x) (pos x) = Some (s', qs)"
      and s': "s' = s_dead \<or> s' \<in> url_succs (state (par x))" by blast
  have c: "sound S (Next (upd (\<lambda>q. q\<lparr>state := s', qs_point := f q\<rparr>) x))" if "s' \<in> url_succs (state (par x))" for f
    using that s ok ms u unfolding url_states_def url_prefix_states_def
    by (elim insertE UnE emptyE) (auto simp: ok_defs set_defs)
  show ?thesis using p s' c [of "\<lambda>q. case qs of None \<Rightarrow> qs_point q | Some v \<Rightarrow> v"]
    by (auto simp: step_url_char_def Let_def)
qed

lemma set_url_start_Some [simp]: "\<exists>y. url_start_mark (set_url_start x) = Some y"
  using set_url_start_simps(5) [of x] by blast

lemma sound_step_spaces:
  assumes "entered S x" "state (par x) = s_req_spaces_before_url"
  shows "sound S (step_spaces_before_url ch x)"
proof (cases "ch = CHR '' ''")
  case True
  with assms show ?thesis by (simp add: step_spaces_before_url_def ok_defs set_defs)
next
  case False
  let ?x = "set_url_start (set_mark Url x)"
  have "sound S (step_url_char ch (if pmethod (par ?x) = M_Connect then goto s_req_server_start ?x else ?x))"
    using assms by (cases "pmethod (par ?x) = M_Connect"; intro sound_step_url_char) (simp_all add: ok_defs set_defs)
  with False show ?thesis by (simp add: step_spaces_before_url_def Let_def)
qed

text \<open>In a URL state only the mark of the URL is set.\<close>

lemma url_state_marks:
  assumes "entered S x" "state (par x) \<in> url_states"
  shows "marks x Header_field = None" "marks x Header_value = None" "marks x Body = None"
    "http_errno (par x) = CHPE_OK" "nread x \<le> max_header_size S"
    "state (par x) \<in> url_prefix_states \<Longrightarrow> url_start_mark x \<noteq> None"
  using assms(1) assms(2) [unfolded url_states_def url_prefix_states_def]
  by (elim insertE UnE emptyE; simp add: ok_defs set_defs)+

lemma sound_url_state:
  assumes "entered S x" "state (par x) \<in> url_states"
  shows "sound S (step_url_char ch x)"
  using url_state_marks [OF assms] assms(2)
  by (intro sound_step_url_char) (auto simp: url_states_def url_prefix_states_def)

lemma sound_step_schema:
  assumes "entered S x"
    and "state (par x) \<in> {s_req_schema, s_req_schema_slash, s_req_schema_slash_slash, s_req_server_start}"
  shows "sound S (step_schema ch x)"
proof -
  have "state (par x) \<in> url_states" using assms(2) by (auto simp: set_defs)
  from sound_url_state [OF assms(1) this] show ?thesis by (simp add: step_schema_def)
qed

lemma sound_step_http_start:
  "entered S x \<Longrightarrow> state (par x) = s_req_http_start \<Longrightarrow> sound S (step_http_start ch x)"
  by (simp add: step_http_start_def ok_defs set_defs)

definition http_states :: "pstate set" where
  "http_states = {s_req_http_H, s_req_http_HT, s_req_http_HTT, s_req_http_HTTP, s_req_http_I, s_req_http_IC,
     s_req_http_major, s_req_http_dot, s_req_http_minor, s_req_http_end, s_req_line_almost_done}"

lemma sound_step_http:
  assumes "entered S x" "state (par x) \<in> http_states"
  shows "sound S (step_http ch x)"
  using assms(2) unfolding http_states_def
  by (elim insertE emptyE) (use assms(1) in \<open>simp_all add: step_http_def strict_check_def ok_defs set_defs\<close>)

context callbacks
begin

lemma sound_step_url:
  assumes x: "entered S x" and "state (par x) \<in> {s_req_server, s_req_server_with_at, s_req_path,
    s_req_query_string_start, s_req_query_string}"
  shows "sound S (step_url S data ch x)"
proof -
  have u: "state (par x) \<in> url_states" using assms(2) by (auto simp: set_defs)
  note m = url_state_marks [OF x u]
  have d: "sound S (callback_data S data Url a b (goto s y) Next)"
    if "s \<in> {s_req_http_start, s_req_line_almost_done, s_header_field_start}"
      "marks y = marks x" "nread y = nread x" "http_errno (par y) = CHPE_OK" for s a b y
    using that(1) by (elim insertE emptyE; intro data_sound; simp add: that m ok_defs set_defs same_def)
  show ?thesis unfolding step_url_def
    using m by (auto intro!: d sound_url_state [OF x u])
qed

end

section \<open>Header fields\<close>

lemma sound_step_header_field_start:
  assumes "entered S x" "state (par x) = s_header_field_start"
  shows "sound S (step_header_field_start ch x)"
  using assms by (auto simp: step_header_field_start_def Let_def ok_defs set_defs field_states_def)

text \<open>The loop over a name changes the matcher only.\<close>

definition same_but_matcher where
  "same_but_matcher q' q \<longleftrightarrow> flags q' = flags q \<and> state q' = state q \<and> content_length q' = content_length q \<and>
     pmethod q' = pmethod q \<and> http_errno q' = http_errno q"

lemma field_char_ok:
  assumes "header_state q \<in> field_states"
  shows "\<exists>p' q'. field_char S data p ch c q = Some (p', q') \<and> header_state q' \<in> field_states \<and> same_but_matcher q' q"
  using assms unfolding field_states_def
  by (elim insertE emptyE)
    (simp_all add: field_char_def match_name_def Let_def same_but_matcher_def)

lemma field_loop_ok:
  "header_state q \<in> field_states \<Longrightarrow>
    \<exists>p' q'. field_loop S data p q = Some (p', q') \<and> header_state q' \<in> field_states \<and> same_but_matcher q' q"
proof (induction S data p q rule: field_loop.induct)
  case (1 S data p q)
  show ?case
  proof (cases "length data \<le> p \<or> token (data ! p) = CHR 0x00")
    case True
    then show ?thesis using 1(2) by (subst field_loop.simps) (auto simp: same_but_matcher_def)
  next
    case False
    from field_char_ok [OF 1(2)] obtain p1 q1 where
      f: "field_char S data p (data ! p) (token (data ! p)) q = Some (p1, q1)"
      "header_state q1 \<in> field_states" "same_but_matcher q1 q" by blast
    from 1(1) [OF _ _ f(1) refl f(2)] False obtain p2 q2 where
      "field_loop S data (p1 + 1) q1 = Some (p2, q2)" "header_state q2 \<in> field_states" "same_but_matcher q2 q1"
      by auto
    with False f show ?thesis by (subst field_loop.simps) (auto simp: same_but_matcher_def)
  qed
qed

lemma count_sound:
  "(nread x + of_nat v \<le> max_header_size S \<Longrightarrow> sound S (k (x\<lparr>nread := nread x + of_nat v\<rparr>))) \<Longrightarrow>
    sound S (count_header S v x k)"
  by (simp add: count_header_def Let_def)

context callbacks
begin

lemma sound_step_header_field:
  assumes x: "entered S x" "state (par x) = s_header_field"
  shows "sound S (step_header_field S data x)"
proof -
  have "header_state (par x) \<in> field_states" using x by (simp add: ok_defs)
  from field_loop_ok [OF this] obtain p q where
    f: "field_loop S data (pos x) (par x) = Some (p, q)" "header_state q \<in> field_states" "same_but_matcher q (par x)"
    by blast
  from x f(2,3) show ?thesis
    by (auto simp: step_header_field_def f(1) Let_def same_but_matcher_def ok_defs set_defs same_def
        intro!: count_sound data_sound)
qed

end

section \<open>Header values\<close>

text \<open>\<open>c | 0x20\<close> sets one bit of the byte.\<close>

lemma lower_Char: "lower (Char b0 b1 b2 b3 b4 b5 b6 b7) = Char b0 b1 b2 b3 b4 True b6 b7"
  by (cases b0; cases b1; cases b2; cases b3; cases b4; cases b5; cases b6; cases b7)
    (simp_all add: lower_def bval_def char_of_def bit_Suc_0_iff numeral_2_eq_2 [symmetric] numeral_3_eq_3 [symmetric])

lemma lower_space:
  assumes "lower ch = CHR '' '' \<or> lower ch = TAB" "ch \<noteq> CHR '' ''"
  shows "ch = CHR 0x00"
  using assms by (cases ch) (auto simp: lower_Char TAB_def)

lemma sound_step_header_value_start:
  assumes x: "http_errno (par x) = CHPE_OK" "nread x \<le> max_header_size S"
    "marks x Header_field = None" "marks x Url = None" "marks x Body = None"
    and c: "header_state (par x) = h_connection \<Longrightarrow> ch \<noteq> CHR 0x00 \<and> ch \<noteq> CHR '' ''"
  shows "sound S (step_header_value_start ch x)"
proof (cases "header_state (par x) = h_connection")
  case True
  with lower_space [of ch] c have "lower ch \<noteq> CHR '' ''" "lower ch \<noteq> TAB" by auto
  with True x show ?thesis
    by (simp add: step_header_value_start_def Let_def ok_defs set_defs)
next
  case False
  with x show ?thesis
    by (cases "header_state (par x)") (simp_all add: step_header_value_start_def Let_def ok_defs set_defs)
qed

lemma sound_step_discard_ws:
  assumes x: "entered S x" "state (par x) = s_header_value_discard_ws" and ch: "ch \<noteq> CHR 0x00"
  shows "sound S (step_discard_ws ch x)"
proof -
  have "sound S (step_header_value_start ch x)" if "ch \<noteq> CHR '' ''"
    using x ch that by (intro sound_step_header_value_start) (simp_all add: ok_defs set_defs)
  with x show ?thesis by (simp add: step_discard_ws_def ok_defs set_defs)
qed

lemma sound_step_header_value_start_again:
  assumes x: "entered S x" "state (par x) = s_header_value_start"
  shows "sound S (step_header_value_start ch x)"
  using x by (intro sound_step_header_value_start) (simp_all add: ok_defs set_defs)

text \<open>The loop over a value: \<open>h\<close> is the state that the code keeps in a local variable.\<close>

definition in_value :: "'a pset \<Rightarrow> header_state \<Rightarrow> 'a pl \<Rightarrow> bool" where
  "in_value S h x \<longleftrightarrow> http_errno (par x) = CHPE_OK \<and> state (par x) = s_header_value \<and> nread x \<le> max_header_size S \<and>
     marks x Header_field = None \<and> marks x Url = None \<and> marks x Body = None \<and>
     h \<noteq> h_connection \<and> h \<noteq> h_transfer_encoding"

lemma value_char_ok:
  assumes "in_value S h x" "value_char S data h p ch x = Some (Inr (h', p', x'))"
  shows "in_value S h' x'"
  using assms
  by (cases h) (auto simp: in_value_def value_char_def match_name_def Let_def
      split: if_splits sum.splits prod.splits)

lemma value_char_defined:
  assumes "in_value S h x"
  shows "value_char S data h p ch x \<noteq> None"
  using assms by (cases h) (simp_all add: in_value_def value_char_def match_name_def Let_def split: sum.split)

lemma sound_leave_value:
  assumes "http_errno (par x) = CHPE_OK" "nread x \<le> max_header_size S"
    "marks x Header_field = None" "marks x Url = None" "marks x Body = None"
    "h \<noteq> h_connection" "h \<noteq> h_transfer_encoding"
    "state (par x) = s_header_value \<or> state (par x) = s_header_almost_done \<and> marks x Header_value = None"
  shows "sound S (leave_value S data start h p x)"
  using assms unfolding leave_value_def Let_def by (intro count_sound) (auto simp: ok_defs set_defs)

context callbacks
begin

lemma sound_value_loop:
  "in_value S h x \<Longrightarrow> start \<le> p \<Longrightarrow> sound S (value_loop S data start h p x)"
proof (induction "length data - p" arbitrary: h p x rule: less_induct)
  case less
  note v = less.prems(1) [unfolded in_value_def]
  show ?case
  proof (cases "p < length data")
    case False
    with v show ?thesis by (subst value_loop_unfold) (auto intro!: sound_leave_value)
  next
    case p: True
    consider "data ! p = CR" | "data ! p = LF" "data ! p \<noteq> CR" | "data ! p \<noteq> LF" "data ! p \<noteq> CR" by blast
    then show ?thesis
    proof cases
      case 1
      with v p show ?thesis
        by (subst value_loop_unfold) (auto simp: same_def intro!: data_sound sound_leave_value)
    next
      case 2
      with v p show ?thesis
        by (subst value_loop_unfold) (auto simp: same_def ok_defs set_defs intro!: count_sound data_sound)
    next
      case 3
      obtain w where w: "value_char S data h p (data ! p) x = Some w"
        using value_char_defined [OF less.prems(1)] by blast
      show ?thesis
      proof (cases w)
        case (Inl r)
        with w value_char_failed obtain x' where "r = Failed x'" "http_errno (par x') \<noteq> CHPE_OK" by blast
        with w Inl 3 p show ?thesis by (subst value_loop_unfold) simp
      next
        case (Inr t)
        obtain h' p' x' where t: "t = (h', p', x')" by (cases t) auto
        have le: "p \<le> p'" using value_char_ge(1) [OF w [unfolded Inr t] p refl] 3 by simp
        have "sound S (value_loop S data start h' (p' + 1) x')"
          by (rule less(1)) (use le p less.prems value_char_ok [OF less.prems(1) w [unfolded Inr t]] in auto)
        with w Inr t 3 p show ?thesis by (subst value_loop_unfold) simp
      qed
    qed
  qed
qed

lemma sound_step_header_value:
  assumes "entered S x" "state (par x) = s_header_value"
  shows "sound S (step_header_value S data x)"
  unfolding step_header_value_def using assms
  by (intro sound_value_loop) (simp_all add: in_value_def ok_defs set_defs)

lemma sound_step_discard_lws:
  assumes "entered S x" "state (par x) = s_header_value_discard_lws"
  shows "sound S (step_discard_lws S data ch x)"
  using assms by (auto simp: step_discard_lws_def ok_defs set_defs same_def intro!: data_sound)

end

lemma sound_step_header_almost_done:
  "entered S x \<Longrightarrow> state (par x) = s_header_almost_done \<Longrightarrow> sound S (step_header_almost_done ch x)"
  by (simp add: step_header_almost_done_def ok_defs set_defs)

lemma sound_step_header_value_lws:
  "entered S x \<Longrightarrow> state (par x) = s_header_value_lws \<Longrightarrow> sound S (step_header_value_lws ch x)"
  by (simp add: step_header_value_lws_def Let_def ok_defs set_defs)

lemma sound_step_discard_ws_almost_done:
  "entered S x \<Longrightarrow> state (par x) = s_header_value_discard_ws_almost_done \<Longrightarrow>
    sound S (step_discard_ws_almost_done ch x)"
  by (simp add: step_discard_ws_almost_done_def strict_check_def ok_defs set_defs)

section \<open>The end of the headers\<close>

context callbacks
begin

lemma sound_step_headers_almost_done:
  assumes "entered S x" "state (par x) = s_headers_almost_done"
  shows "sound S (step_headers_almost_done S ch x)"
proof -
  let ?q = "(par x)\<lparr>state := s_headers_done, upgrade := f_upgrade (flags (par x)) \<or> pmethod (par x) = M_Connect\<rparr>"
  have t: "sound S (notify (on_message_complete S) CHPE_CB_message_complete er (goto s_start_req x) Next)" for er
    using assms by (intro notify_sound) (auto simp: same_def ok_defs set_defs)
  show ?thesis
  proof (cases "on_headers_complete S ?q")
    case None
    with t show ?thesis by (simp add: step_headers_almost_done_def strict_check_def Let_def)
  next
    case (Some rq)
    obtain r q1 where rq: "rq = (r, q1)" by (cases rq)
    have "r = 0" and q1: "same q1 ?q" using headers_keeps [OF Some [unfolded rq]] core_same by auto
    moreover have "sound S (Again (x\<lparr>par := q1\<rparr>))"
      using q1 assms by (simp add: same_def ok_defs set_defs)
    moreover have "http_errno q1 = CHPE_OK" using q1 assms by (simp add: same_def ok_defs)
    ultimately show ?thesis using t Some rq
      by (simp add: step_headers_almost_done_def strict_check_def Let_def upd_def goto_def)
  qed
qed

lemma sound_step_headers_done:
  assumes "entered S x" "state (par x) = s_headers_done"
  shows "sound S (step_headers_done S ch x)"
  using assms
  by (auto simp: step_headers_done_def strict_check_def Let_def same_def ok_defs set_defs resting_def
      intro!: notify_sound)

end

section \<open>Bodies\<close>

lemma unhex_val_range: "unhex_val ch \<noteq> -1 \<Longrightarrow> 0 \<le> unhex_val ch \<and> unhex_val ch \<le> 15"
proof -
  have "list_all (\<lambda>v. v = -1 \<or> 0 \<le> v \<and> v \<le> 15) unhex"
    by (simp add: unhex_def) (simp add: list_all_iff)
  moreover have "unhex_val ch \<in> set unhex" by (simp add: unhex_val_def)
  ultimately show "unhex_val ch \<noteq> -1 \<Longrightarrow> ?thesis" by (auto simp: list_all_iff)
qed

text \<open>The overflow check of \<open>s_chunk_size\<close> keeps the length away from the value that means "no length".\<close>

lemma chunk_size_step:
  fixes n :: u64
  assumes "\<not> (-1 - 16) div 16 < n" "0 \<le> d" "d \<le> 15"
  shows "n * 16 + of_int d \<noteq> -1"
proof
  assume e: "n * 16 + of_int d = -1"
  have "n \<le> 1152921504606846974" using assms(1) by (simp add: not_less)
  then have n: "unat n \<le> 1152921504606846974" by (simp add: word_le_nat_alt)
  have "of_int d = (of_nat (nat d) :: u64)" using assms(2) by simp
  then have "unat (n * 16 + of_int d) = (unat n * 16 + nat d) mod 2 ^ 64"
    by (simp add: unat_word_ariths unat_of_nat mod_simps)
  also have "\<dots> = unat n * 16 + nat d" using n assms(3) by (intro mod_less) simp
  finally have "unat n * 16 + nat d = unat (-1 :: u64)" using e by simp
  then show False using n assms(3) by (simp add: unat_minus_1)
qed

lemma small_not_minus_one: "0 \<le> d \<Longrightarrow> d \<le> 15 \<Longrightarrow> (of_int d :: u64) \<noteq> -1"
  using chunk_size_step [of 0 d] by simp

lemma sound_chunks:
  assumes x: "entered S x"
  shows "state (par x) = s_chunk_size_start \<Longrightarrow> sound S (step_chunk_size_start ch x)"
    "state (par x) = s_chunk_size \<Longrightarrow> sound S (step_chunk_size ch x)"
    "state (par x) = s_chunk_parameters \<Longrightarrow> sound S (step_chunk_parameters ch x)"
    "state (par x) = s_chunk_size_almost_done \<Longrightarrow> sound S (step_chunk_size_almost_done ch x)"
    "state (par x) = s_chunk_data_done \<Longrightarrow> sound S (step_chunk_data_done ch x)"
proof -
  note r = unhex_val_range [of ch]
  show "sound S (step_chunk_size_start ch x)" if "state (par x) = s_chunk_size_start"
    using x that r small_not_minus_one [of "unhex_val ch"]
    by (auto simp: step_chunk_size_start_def asserting_def ok_defs set_defs)
  show "sound S (step_chunk_size ch x)" if "state (par x) = s_chunk_size"
    using x that r chunk_size_step [of "content_length (par x)" "unhex_val ch"]
    by (auto simp: step_chunk_size_def asserting_def ok_defs set_defs)
  show "sound S (step_chunk_parameters ch x)" if "state (par x) = s_chunk_parameters"
    using x that by (auto simp: step_chunk_parameters_def asserting_def ok_defs set_defs)
  show "sound S (step_chunk_size_almost_done ch x)" if "state (par x) = s_chunk_size_almost_done"
    using x that
    by (auto simp: step_chunk_size_almost_done_def asserting_def strict_check_def Let_def ok_defs set_defs)
  show "sound S (step_chunk_data_done ch x)" if "state (par x) = s_chunk_data_done"
    using x that by (auto simp: step_chunk_data_done_def asserting_def strict_check_def ok_defs set_defs)
qed

text \<open>What is left of a body is 0 or still a length.\<close>

lemma rest_of_body:
  fixes n :: u64
  assumes "n \<noteq> 0" "n \<noteq> -1"
  shows "n - min n r \<noteq> -1"
proof
  assume e: "n - min n r = -1"
  have "n - min n r \<le> n" by (metis min.cobounded1 word_sub_le)
  with e have "-1 \<le> n" by simp
  moreover have "n \<le> -1" by simp
  ultimately have "n = -1" by (rule antisym [rotated])
  with assms show False by simp
qed

lemma sound_step_chunk_data:
  assumes x: "entered S x" "state (par x) = s_chunk_data"
  shows "sound S (step_chunk_data data x)"
proof -
  have n: "content_length (par x) \<noteq> 0" "content_length (par x) \<noteq> -1" using x by (simp_all add: ok_defs)
  from rest_of_body [OF n, of "of_nat (length data - pos x)"] n x show ?thesis
    by (auto simp: step_chunk_data_def asserting_def Let_def ok_defs set_defs simp del: of_nat_diff right_minus_eq)
qed

lemma sound_step_body_identity_eof:
  "entered S x \<Longrightarrow> state (par x) = s_body_identity_eof \<Longrightarrow> sound S (step_body_identity_eof data x)"
  by (simp add: step_body_identity_eof_def ok_defs set_defs)

context callbacks
begin

lemma sound_step_body_identity:
  assumes x: "entered S x" "state (par x) = s_body_identity"
  shows "sound S (step_body_identity S data x)"
proof -
  have n: "content_length (par x) \<noteq> 0" "content_length (par x) \<noteq> -1" using x by (simp_all add: ok_defs)
  from rest_of_body [OF n, of "of_nat (length data - pos x)"] n x show ?thesis
    by (auto simp: step_body_identity_def Let_def same_def ok_defs set_defs simp del: of_nat_diff right_minus_eq
        intro!: data_sound)
qed

lemma sound_step_message_done:
  "entered S x \<Longrightarrow> state (par x) = s_message_done \<Longrightarrow> sound S (step_message_done S x)"
  by (auto simp: step_message_done_def same_def ok_defs set_defs intro!: notify_sound)

lemma sound_step_chunk_data_almost_done:
  "entered S x \<Longrightarrow> state (par x) = s_chunk_data_almost_done \<Longrightarrow> sound S (step_chunk_data_almost_done S data ch x)"
  by (auto simp: step_chunk_data_almost_done_def asserting_def strict_check_def same_def ok_defs set_defs
      intro!: data_sound)

lemmas sound_steps = sound_step_dead sound_step_start_req sound_step_method sound_step_spaces sound_step_schema
  sound_step_url sound_step_http_start sound_step_http sound_step_header_field_start sound_step_header_field
  sound_step_discard_ws sound_step_header_value_start_again sound_step_header_value sound_step_header_almost_done
  sound_step_header_value_lws sound_step_discard_ws_almost_done sound_step_discard_lws
  sound_step_headers_almost_done sound_step_headers_done sound_chunks sound_step_chunk_data
  sound_step_body_identity_eof sound_step_body_identity sound_step_message_done sound_step_chunk_data_almost_done

lemma sound_step:
  assumes "entered S x" "data ! pos x \<noteq> CHR 0x00"
  shows "sound S (step S data x)"
  unfolding step_def Let_def using assms
  by (cases "state (par x)") (simp_all add: sound_steps http_states_def)

end

section \<open>The loop\<close>

definition run_ok :: "'a pset \<Rightarrow> 'a http_parser_scheme run \<Rightarrow> bool" where
  "run_ok S r = (case r of
      Done n q \<Rightarrow> http_errno q = CHPE_OK \<longrightarrow> resting S q
    | Undefined \<Rightarrow> False
    | Callback_undefined \<Rightarrow> True)"

lemma run_ok_simps [simp]:
  "run_ok S (Done n q) \<longleftrightarrow> (http_errno q = CHPE_OK \<longrightarrow> resting S q)"
  "\<not> run_ok S Undefined" "run_ok S Callback_undefined"
  by (simp_all add: run_ok_def)

lemma run_ok_finish_error: "http_errno (par x) \<noteq> CHPE_OK \<Longrightarrow> run_ok S (finish_error x)"
  by (simp add: finish_error_def Let_def)

lemma few_marks:
  "marks_ok s ms \<Longrightarrow> length (filter (\<lambda>m. ms m \<noteq> None) [Header_field, Header_value, Url, Body]) \<le> 1"
  by (cases s) (simp_all add: marks_ok_def set_defs)

lemma marks_ok_clear: "marks_ok s ms \<Longrightarrow> marks_ok s (ms(m := None))"
  by (auto simp: marks_ok_def)

lemma locals_ok_same:
  "locals_ok x \<Longrightarrow> same p' (par x) \<Longrightarrow> locals_ok (x\<lparr>par := p', marks := (marks x)(m := None)\<rparr>)"
  by (simp add: locals_ok_def parser_ok_def same_def marks_ok_clear)

context callbacks
begin

lemma leftover_ok:
  "locals_ok x \<and> count_ok (max_header_size S) (state (par x)) (nread x) \<Longrightarrow>
    leftover S data ms x = Lost \<or>
    (\<exists>x'. leftover S data ms x = Next x' \<and> locals_ok x' \<and> count_ok (max_header_size S) (state (par x')) (nread x'))"
proof (induction ms arbitrary: x)
  case (Cons m ms)
  let ?P = "\<lambda>r. r = Lost \<or>
    (\<exists>x'. r = Next x' \<and> locals_ok x' \<and> count_ok (max_header_size S) (state (par x')) (nread x'))"
  have "http_errno (par x) = CHPE_OK" using Cons.prems by (simp add: ok_defs)
  then have "?P (callback_data S data m (length data) (length data) x (leftover S data ms))"
  proof (rule callback_data_rule [where P = ?P])
    fix p' :: "'a http_parser_scheme" assume "core p' = core (par x)"
    note s = core_same [OF this]
    show "?P (leftover S data ms (x\<lparr>par := p', marks := (marks x)(m := None)\<rparr>))"
      using Cons.prems s by (intro Cons.IH) (simp add: locals_ok_same, simp add: same_def)
  qed simp
  then show ?case by simp
qed simp

lemma run_ok_finish:
  assumes "locals_ok x" "count_ok (max_header_size S) (state (par x)) (nread x)"
  shows "run_ok S (finish S data x)"
proof -
  let ?ms = "[Header_field, Header_value, Url, Body]"
  have "length (filter (\<lambda>m. marks x m \<noteq> None) ?ms) \<le> 1"
    using assms(1) by (intro few_marks [of "state (par x)"]) (simp add: locals_ok_def)
  then have f: "finish S data x = (case leftover S data ?ms x of
      Next x1 \<Rightarrow> Done (length data) ((par x1)\<lparr>saved_nread := nread x1\<rparr>)
    | Return er x1 \<Rightarrow> Done er (par x1)
    | Lost \<Rightarrow> Callback_undefined
    | _ \<Rightarrow> Undefined)"
    unfolding finish_def by (simp only: linorder_not_less [symmetric] if_False not_not)
  from leftover_ok [OF conjI [OF assms], of data ?ms] show ?thesis unfolding f
    by (elim disjE exE conjE) (simp_all add: resting_def locals_ok_def parser_ok_def del: leftover.simps)
qed

lemma sound_byte_step:
  assumes "locals_ok x" "count_ok (max_header_size S) (state (par x)) (nread x)" "data ! pos x \<noteq> CHR 0x00"
  shows "sound S (byte_step S data x)"
proof (cases "parsing_header (state (par x))")
  case True
  have "sound S (step S data (x\<lparr>nread := nread x + of_nat 1\<rparr>))" if "nread x + of_nat 1 \<le> max_header_size S"
    using assms that by (intro sound_step) (auto simp: entered_def locals_ok_def count_ok_def)
  with True show ?thesis by (simp only: byte_step_def if_True) (rule count_sound)
next
  case False
  then have "state (par x) \<noteq> s_chunk_size_start" by (auto simp: parsing_header_def)
  with assms have "sound S (step S data x)" by (intro sound_step) (auto simp: entered_def count_ok_def)
  with False show ?thesis by (simp add: byte_step_def)
qed

lemma exec_loop_sound:
  assumes len: "length data < 2 ^ 64" and nul: "CHR 0x00 \<notin> set data"
  shows "(again \<Longrightarrow> pos x < length data) \<Longrightarrow> locals_ok x \<Longrightarrow>
    (if again then nread x \<le> max_header_size S \<and> state (par x) \<noteq> s_chunk_size_start
     else count_ok (max_header_size S) (state (par x)) (nread x)) \<Longrightarrow>
    \<exists>r. exec_loop S data again x = Some r \<and> run_ok S r"
proof (induction "(length data - pos x, rank (state (par x)))" arbitrary: again x
    rule: wf_induct_rule [OF wf_lex_prod [OF wf_less_than wf_less_than]])
  case 1
  show ?case
  proof (cases "\<not> again \<and> length data \<le> pos x")
    case True
    then show ?thesis using 1(3,4) by (subst exec_loop.simps) (simp add: run_ok_finish)
  next
    case False
    with 1(2) have p: "pos x < length data" by auto
    then have c: "data ! pos x \<noteq> CHR 0x00" using nul by (metis nth_mem)
    let ?r = "if again then step S data x else byte_step S data x"
    have m: "moves data x ?r" using moves_step [OF p len] moves_byte_step [OF p len] by simp
    have s: "sound S ?r"
      using 1(3,4) c sound_step [of x data] sound_byte_step [of x data] by (auto simp: entered_def)
    show ?thesis
    proof (cases ?r)
      case (Next x')
      with m p have "length data - (pos x' + 1) < length data - pos x" by simp
      with s Next have "\<exists>r. exec_loop S data False (x'\<lparr>pos := pos x' + 1\<rparr>) = Some r \<and> run_ok S r"
        by (intro 1(1)) (simp_all add: locals_ok_def)
      with False Next show ?thesis by (subst exec_loop.simps) auto
    next
      case (Again x')
      with m s have "\<exists>r. exec_loop S data True x' = Some r \<and> run_ok S r" by (intro 1(1)) auto
      with False Again show ?thesis by (subst exec_loop.simps) auto
    next
      case (Failed x')
      with False s show ?thesis by (subst exec_loop.simps) (auto simp: run_ok_finish_error)
    next
      case (Return n x')
      with False s show ?thesis by (subst exec_loop.simps) auto
    next
      case Stuck
      with s show ?thesis by simp
    next
      case Lost
      with False show ?thesis by (subst exec_loop.simps) auto
    qed
  qed
qed

lemma locals_ok_start:
  "parser_ok q \<Longrightarrow> state q \<notin> url_prefix_states \<Longrightarrow> locals_ok (start_locals q)"
  by (auto simp: locals_ok_def start_locals_def marks_ok_def url_states_def url_prefix_states_def)

lemma execute_sound:
  assumes q: "resting S q" "state q \<notin> url_prefix_states" and "length data < 2 ^ 64" "CHR 0x00 \<notin> set data"
  shows "\<exists>r. http_parser_execute S q data = Some r \<and> run_ok S r"
proof -
  have e: "http_errno q = CHPE_OK" using q(1) by (simp add: resting_def parser_ok_def)
  have l: "locals_ok (start_locals q)" using q by (simp add: resting_def locals_ok_start)
  show ?thesis
  proof (cases "data = []")
    case False
    have "count_ok (max_header_size S) (state (par (start_locals q))) (nread (start_locals q))"
      using q(1) by (simp add: resting_def start_locals_def)
    with exec_loop_sound [OF assms(3,4), of False "start_locals q"] l False e show ?thesis
      by (simp add: http_parser_execute_def)
  next
    case True
    let ?P = "\<lambda>r. r = Lost \<or> (\<exists>x'. r = Next x' \<and> resting S (par x'))"
    have "?P (notify (on_message_complete S) CHPE_CB_message_complete 0 (start_locals q) Next)"
    proof (rule notify_complete [where P = ?P])
      fix p' :: "'a http_parser_scheme" assume "core p' = core (par (start_locals q))"
      from core_same [OF this] show "?P (Next ((start_locals q)\<lparr>par := p'\<rparr>))"
        using q(1) by (simp add: resting_def parser_ok_def same_def start_locals_def)
    qed (simp_all add: e start_locals_def)
    then have "run_ok S (execute_eof S q)"
      using q(1) by (auto simp: execute_eof_def Let_def)
    with True e show ?thesis by (simp add: http_parser_execute_def)
  qed
qed

end

end
