(* ===== verification/Parser_Theorems.thy ===== *)
theory Parser_Theorems
  imports Parser_Safety Request_Parser Url_Decode
begin

text \<open>
  The properties of the parser: it ends, no assertion fails, the methods it recognises are the methods by
  name, and the length of a chunk is the number its digits write.
\<close>

section \<open>\<open>HTTPParser\<close> keeps the contract\<close>

text \<open>The two functions of the handler leave the parser's own fields alone.\<close>

definition keeps_core :: "'h callback \<Rightarrow> bool" where
  "keeps_core f \<longleftrightarrow> (\<forall>p p'. f p = Some p' \<longrightarrow> core p' = core p)"

lemma callbacks_parser_settings:
  assumes "keeps_core handle_header" "keeps_core handle"
  shows "callbacks (parser_settings handle_header handle)"
proof
  show "r = 0 \<and> core p' = core p"
    if "on_data (parser_settings handle_header handle) m d p = Some (r, p')" for m d p r p'
    using that by (cases m)
      (auto simp: parser_settings_def cb_url_def cb_body_def cb_header_field_def cb_header_value_def core_def Let_def
        split: if_splits)
  show "r = 0 \<and> core p' = core p"
    if "on_headers_complete (parser_settings handle_header handle) p = Some (r, p')" for p r p'
    using that assms(1)
    by (auto simp: parser_settings_def cb_headers_complete_def set_connection_parameters_def keeps_core_def
        core_def Let_def split: if_splits)
  show "r = 0 \<and> core p' = core p"
    if "on_message_complete (parser_settings handle_header handle) p = Some (r, p')" for p r p'
    using that assms(2)
    by (auto simp: parser_settings_def cb_message_complete_def keeps_core_def core_def Let_def
        split: if_splits option.splits)
qed (auto simp: parser_settings_def cb_message_begin_def clear_parser_def core_def)

lemma resting_new: "resting (parser_settings hh h) (new_HTTPParser c)"
  by (simp add: resting_def new_HTTPParser_def http_parser_init_def parser_ok_def count_ok_def set_defs)

section \<open>Termination and safety\<close>

text \<open>C23: Every call of \<open>http_parser_execute\<close> returns, for any parser and any buffer, as long as the callbacks
  return and leave the parser's own fields alone.\<close>

theorem parser_terminates:
  assumes "callbacks S" "length data < 2 ^ 64"
  shows "http_parser_execute S q data \<noteq> None"
  using callbacks.execute_ends [OF assms] .

theorem parser_terminates_witness:
  "http_parser_execute (parser_settings Some Some) (new_HTTPParser ()) ''GET'' \<noteq> None"
  by (rule parser_terminates [OF callbacks_parser_settings]) (simp_all add: keeps_core_def)

text \<open>C24: No assertion of the parser fails, no table or literal is read out of bounds and no pointer
  difference is meaningless: a parser between two calls (a new one, or one that a call without an error
  left) that is not inside the part of a URL before its query accepts any buffer without a NUL byte, and
  is such a parser again when the call ends without an error; in particular, the count of header bytes
  never exceeds the limit.\<close>

theorem parser_safe:
  assumes "callbacks S" "resting S q" "state q \<notin> url_prefix_states"
    and "length data < 2 ^ 64" "CHR 0x00 \<notin> set data"
  shows "\<exists>r. http_parser_execute S q data = Some r \<and> run_ok S r"
  using callbacks.execute_sound [OF assms] .

theorem parser_safe_witness:
  "\<exists>r. http_parser_execute (parser_settings Some Some) (new_HTTPParser ()) ''GET'' = Some r \<and>
    run_ok (parser_settings Some Some) r"
  by (rule parser_safe [OF callbacks_parser_settings resting_new])
    (simp_all add: keeps_core_def new_HTTPParser_def http_parser_init_def set_defs)

section \<open>Methods\<close>

text \<open>The matcher of a method as a function of the bytes behind the first.\<close>

fun method_run :: "http_method \<Rightarrow> nat \<Rightarrow> string \<Rightarrow> http_method option" where
  "method_run m i [] = (if i = length (method_strings ! method_value m) then Some m else None)"
| "method_run m i (c # w) =
     (if at (method_strings ! method_value m) i = Some c then method_run m (Suc i) w
      else if is_upper c \<or> c = CHR ''-'' then
        (case map_of method_switches (m, i, c) of None \<Rightarrow> None | Some m' \<Rightarrow> method_run m' (Suc i) w)
      else None)"

lemma method_run_sound:
  "method_run m i w = Some m' \<Longrightarrow> i \<le> length (method_strings ! method_value m) \<Longrightarrow> CHR 0x00 \<notin> set w \<Longrightarrow>
    method_strings ! method_value m' = take i (method_strings ! method_value m) @ w"
proof (induction m i w rule: method_run.induct)
  case (2 m i c w)
  let ?s = "method_strings ! method_value m"
  show ?case
  proof (cases "at ?s i = Some c")
    case True
    with 2(4,5) have "i < length ?s" "?s ! i = c" by (auto simp: at_def split: if_splits)
    with True 2(1,3,5) show ?thesis by (simp add: take_Suc_conv_app_nth)
  next
    case False
    with 2(3) obtain m1 where m1: "map_of method_switches (m, i, c) = Some m1" "method_run m1 (Suc i) w = Some m'"
      by (auto split: if_splits option.splits)
    with False 2(2,3,5) method_switches_prefix [OF m1(1)] show ?thesis by (auto split: if_splits)
  qed
qed (simp split: if_splits)

lemma method_run_complete:
  "map_of first_methods (hd (method_strings ! method_value m)) = Some m1 \<Longrightarrow>
    method_run m1 1 (tl (method_strings ! method_value m)) = Some m"
  by (cases m) (simp_all add: method_strings_def first_methods_def method_switches_def at_def is_upper_def bval_def)

lemma first_method_known: "map_of first_methods (hd (method_strings ! method_value m)) \<noteq> None"
  by (cases m) (simp_all add: method_strings_def first_methods_def)

lemma first_methods_head: "map_of first_methods c = Some m \<Longrightarrow> take 1 (method_strings ! method_value m) = [c]"
  by (auto simp: first_methods_def method_strings_def split: if_splits)

text \<open>The loop on the bytes of a method, up to the space behind it.\<close>

definition in_method :: "'a pset \<Rightarrow> nat \<Rightarrow> 'a pl \<Rightarrow> bool" where
  "in_method S i x \<longleftrightarrow> http_errno (par x) = CHPE_OK \<and> state (par x) = s_req_method \<and> index (par x) = i \<and> pos x = i \<and>
     nread x = of_nat i \<and> marks x = (\<lambda>_. None) \<and> i \<le> length (method_strings ! method_value (pmethod (par x))) \<and>
     100 \<le> max_header_size S"

lemma small_word: "n < 100 \<Longrightarrow> 100 \<le> (w :: u32) \<Longrightarrow> (of_nat n :: u32) \<le> w"
  by (rule order_trans [of _ 100]) (simp_all add: word_le_nat_alt unat_of_nat)

lemma count_in_method:
  assumes "in_method S i x"
  shows "count_header S 1 x k = k (x\<lparr>nread := of_nat (Suc i)\<rparr>)"
proof -
  have "i < 99" using assms method_length [of "pmethod (par x)"] by (simp add: in_method_def)
  with assms small_word [of "Suc i" "max_header_size S"] have "1 + of_nat i \<le> max_header_size S"
    by (simp add: in_method_def)
  with assms show ?thesis by (simp add: count_header_def Let_def in_method_def leD add.commute)
qed

lemma exec_method:
  assumes "in_method S i x" "CHR '' '' \<notin> set w" "CHR 0x00 \<notin> set w" "drop i data = w @ '' ''" "i \<le> length data"
  shows "\<exists>n q. exec_loop S data False x = Some (Done n q) \<and>
    (case method_run (pmethod (par x)) i w of
       Some m \<Rightarrow> n = length data \<and> http_errno q = CHPE_OK \<and> state q = s_req_spaces_before_url \<and> pmethod q = m
     | None \<Rightarrow> http_errno q = CHPE_INVALID_METHOD)"
  using assms
proof (induction w arbitrary: i x)
  case Nil
  let ?s = "method_strings ! method_value (pmethod (par x))"
  note x = Nil.prems(1) [unfolded in_method_def]
  have len: "length data = Suc i" and d: "data ! i = CHR '' ''"
    using Nil.prems(4,5) by (auto dest: arg_cong [where f = length] simp: nth_via_drop)
  have sp: "CHR '' '' \<notin> set ?s \<and> CHR 0x00 \<notin> set ?s"
    by (cases "pmethod (par x)") (simp_all add: method_strings_def)
  have n: "next_index i = Suc i" using x method_length [of "pmethod (par x)"] by (simp add: next_index_def)
  note c = count_in_method [OF Nil.prems(1), of "step S data"]
  show ?case
  proof (cases "i = length ?s")
    case True
    then have "at ?s i = Some CHR 0x00" by (simp add: at_def)
    with True x len d n c show ?thesis
      by (subst exec_loop.simps)
        (simp add: byte_step_def parsing_header_def step_def step_method_def Let_def
          exec_loop.simps [of _ _ False] finish_def callback_data_def)
  next
    case False
    then have "i < length ?s" using x by simp
    moreover from this sp have "?s ! i \<noteq> CHR '' ''" "?s ! i \<noteq> CHR 0x00" by (metis nth_mem)+
    ultimately show ?thesis using False x len d n c
      by (subst exec_loop.simps)
        (simp add: byte_step_def parsing_header_def step_def step_method_def fail_def finish_error_def Let_def
          at_def is_upper_def bval_def)
  qed
next
  case (Cons c w)
  let ?m = "pmethod (par x)" let ?s = "method_strings ! method_value ?m"
  note x = Cons.prems(1) [unfolded in_method_def]
  have len: "i < length data" and d: "data ! i = c" "drop (Suc i) data = w @ '' ''"
    using Cons.prems(4) by (auto simp: nth_via_drop dest: drop_SucD drop_lessD) 
  have n: "next_index i = Suc i" using x method_length [of ?m] by (simp add: next_index_def)
  have cn: "c \<noteq> CHR '' ''" "c \<noteq> CHR 0x00" using Cons.prems(2,3) by auto
  have at_i: "at ?s i \<noteq> None" using x by (auto simp: at_def)
  have rest: "\<exists>n q. exec_loop S data False (y\<lparr>pos := Suc i\<rparr>) = Some (Done n q) \<and>
      (case method_run (pmethod (par y)) (Suc i) w of
         Some m \<Rightarrow> n = length data \<and> http_errno q = CHPE_OK \<and> state q = s_req_spaces_before_url \<and> pmethod q = m
       | None \<Rightarrow> http_errno q = CHPE_INVALID_METHOD)"
    if "in_method S (Suc i) (y\<lparr>pos := Suc i\<rparr>)" for y
    using Cons.IH [OF that] Cons.prems(2,3) d(2) len by simp
  show ?case
  proof (cases "at ?s i = Some c")
    case True
    have "i < length ?s" using True Cons.prems(3) x by (auto simp: at_def split: if_splits)
    then have "in_method S (Suc i) ((upd (\<lambda>q. q\<lparr>index := Suc i\<rparr>) (x\<lparr>nread := of_nat (Suc i)\<rparr>))\<lparr>pos := Suc i\<rparr>)"
      using x by (simp add: in_method_def)
    from rest [OF this] show ?thesis
      using True x n d len cn count_in_method [OF Cons.prems(1), of "step S data"]
      by (subst exec_loop.simps) (simp add: byte_step_def parsing_header_def step_def step_method_def Let_def upd_def)
  next
    case False
    show ?thesis
    proof (cases "(is_upper c \<or> c = CHR ''-'') \<and> map_of method_switches (?m, i, c) \<noteq> None")
      case True
      then obtain m' where m': "map_of method_switches (?m, i, c) = Some m'" by blast
      have "in_method S (Suc i) ((upd (\<lambda>q. q\<lparr>pmethod := m', index := Suc i\<rparr>) (x\<lparr>nread := of_nat (Suc i)\<rparr>))\<lparr>pos := Suc i\<rparr>)"
        using x method_switches_prefix(2) [OF m'] by (simp add: in_method_def)
      from rest [OF this] show ?thesis
        using True False m' x n d len at_i cn count_in_method [OF Cons.prems(1), of "step S data"]
        by (subst exec_loop.simps)
          (auto simp: byte_step_def parsing_header_def step_def step_method_def Let_def upd_def)
    next
      case F: False
      then show ?thesis
        using False x n d len at_i cn count_in_method [OF Cons.prems(1), of "step S data"]
        by (subst exec_loop.simps)
          (auto simp: byte_step_def parsing_header_def step_def step_method_def Let_def fail_def finish_error_def
            split: option.splits)
    qed
  qed
qed

lemma method_strings_inj:
  assumes "method_strings ! method_value m = method_strings ! method_value m'"
  shows "m = m'"
proof -
  have "method_value m < length method_strings" for m using method_value_less [of m] by (simp add: method_strings_def)
  moreover have "distinct method_strings" by (simp add: method_strings_def)
  ultimately have "method_value m = method_value m'" using assms by (simp add: nth_eq_iff_index_eq)
  then show ?thesis by (rule method_value_inj)
qed

lemma first_methods_alpha: "map_of first_methods c = Some m \<Longrightarrow> is_alpha c"
  by (auto simp: first_methods_def is_alpha_def lower_def bval_def split: if_splits)



section \<open>The length of a chunk\<close>

lemma unhex_hex_digit: "hex_digit c = Some d \<Longrightarrow> unhex_val c = int d \<and> d < 16 \<and> c \<noteq> CR"
proof -
  assume *: "hex_digit c = Some d"
  have t: "\<forall>n\<in>set [48..<58]. unhex ! n = int (n - 48)" "\<forall>n\<in>set [65..<71]. unhex ! n = int (n - 55)"
    "\<forall>n\<in>set [97..<103]. unhex ! n = int (n - 87)"
    by (simp_all add: unhex_def upt_rec_numeral)
  note t = t [unfolded set_upt]
  from * consider "bval c \<in> {48..<58}" "d = bval c - 48" | "bval c \<in> {65..<71}" "d = bval c - 55"
    | "bval c \<in> {97..<103}" "d = bval c - 87"
    by (auto simp: hex_digit_def byte_def bval_def split: if_splits)
  then have "unhex_val c = int d \<and> d < 16 \<and> bval c \<noteq> 13"
    unfolding unhex_val_def by cases (simp_all only: bspec [OF t(1)] bspec [OF t(2)] bspec [OF t(3)], auto)
  then show ?thesis by (auto simp: CR_def bval_def)
qed

definition hex_digits :: "string \<Rightarrow> bool" where
  "hex_digits w \<longleftrightarrow> list_all (\<lambda>c. hex_digit c \<noteq> None) w"

lemma hex_value_ge: "v \<le> hex_value v w"
proof (induction v w rule: hex_value.induct)
  case (2 acc c cs)
  then show ?case by (cases "hex_digit c") (auto intro: order_trans [of acc "16 * acc + d" for d])
qed simp

lemma chunk_guard:
  assumes "v < 18446744073709551600"
  shows "(-1 - 16) div 16 < (of_nat v :: u64) \<longleftrightarrow> 18446744073709551600 \<le> 16 * v"
proof -
  have "unat (of_nat v :: u64) = v" using assms by (simp add: unat_of_nat)
  then show ?thesis by (simp add: word_less_nat_alt) linarith
qed

definition in_chunk_size :: "'a pset \<Rightarrow> nat \<Rightarrow> string \<Rightarrow> nat \<Rightarrow> 'a pl \<Rightarrow> bool" where
  "in_chunk_size S i w v x \<longleftrightarrow> http_errno (par x) = CHPE_OK \<and> state (par x) = s_chunk_size \<and> f_chunked (flags (par x)) \<and>
     pos x = i \<and> marks x = (\<lambda>_. None) \<and> content_length (par x) = of_nat v \<and> v < 18446744073709551600 \<and>
     unat (nread x) + length w \<le> unat (max_header_size S)"

lemma count_ok_step:
  fixes n m :: u32
  assumes "unat n + Suc k \<le> unat m"
  shows "\<not> m < n + 1" "unat (n + 1) + k \<le> unat m"
proof -
  have "unat m < 2 ^ LENGTH(32)" by (rule unsigned_less)
  then have "unat n + 1 < 2 ^ 32" using assms by simp
  then have u: "unat (n + 1) = unat n + 1" by (simp add: unat_word_ariths)
  with assms show "\<not> m < n + 1" "unat (n + 1) + k \<le> unat m" by (simp_all add: word_less_nat_alt)
qed

lemma exec_chunk_size:
  assumes "in_chunk_size S i w v x" "hex_digits w" "drop i data = w" "i \<le> length data"
  shows "\<exists>n q. exec_loop S data False x = Some (Done n q) \<and>
    (if hex_value v w < 18446744073709551600
     then n = length data \<and> http_errno q = CHPE_OK \<and> state q = s_chunk_size \<and> unat (content_length q) = hex_value v w
     else http_errno q = CHPE_INVALID_CONTENT_LENGTH)"
  using assms
proof (induction w arbitrary: i v x)
  case Nil
  then have "i = length data" by simp
  with Nil.prems(1) show ?case
    by (subst exec_loop.simps) (simp add: in_chunk_size_def finish_def callback_data_def unat_of_nat)
next
  case (Cons c w)
  note x = Cons.prems(1) [unfolded in_chunk_size_def]
  obtain d where d: "hex_digit c = Some d" using Cons.prems(2) by (auto simp: hex_digits_def)
  note u = unhex_hex_digit [OF d]
  have len: "i < length data" and dc: "data ! i = c" "drop (Suc i) data = w"
    using Cons.prems(3) by (auto simp: nth_via_drop dest: drop_SucD drop_lessD)
  have n: "\<not> max_header_size S < nread x + 1" "unat (nread x + 1) + length w \<le> unat (max_header_size S)"
    using count_ok_step [of "nread x" "length w" "max_header_size S"] x by simp_all
  show ?case
  proof (cases "18446744073709551600 \<le> 16 * v")
    case True
    have "16 * v \<le> hex_value (16 * v + d) w" using hex_value_ge [of "16 * v + d" w] by simp
    with True x len dc n d u chunk_guard [of v] show ?thesis
      by (subst exec_loop.simps)
        (simp add: byte_step_def parsing_header_def count_header_def step_def step_chunk_size_def asserting_def
          fail_def finish_error_def Let_def)
  next
    case False
    let ?y = "(upd (\<lambda>q. q\<lparr>content_length := content_length q * 16 + of_int (unhex_val c)\<rparr>) (x\<lparr>nread := nread x + 1\<rparr>))\<lparr>pos := Suc i\<rparr>"
    have "16 * v + d < 18446744073709551600" using False u by simp
    then have "in_chunk_size S (Suc i) w (16 * v + d) ?y"
      using x n u by (simp add: in_chunk_size_def mult.commute)
    note IH = Cons.IH [OF this]
    have "exec_loop S data False x = exec_loop S data False ?y"
      using False x len dc n u chunk_guard [of v]
      by (subst exec_loop.simps)
        (simp add: byte_step_def parsing_header_def count_header_def step_def step_chunk_size_def asserting_def
          upd_def Let_def)
    moreover have "hex_value v (c # w) = hex_value (16 * v + d) w" using d by simp
    ultimately show ?thesis using IH Cons.prems(2) dc len by (simp only:) (simp add: hex_digits_def split del: if_split)
  qed
qed

text \<open>C26: The length of a chunk is exact or refused: fed the hexadecimal digits \<open>w\<close> of a chunk's length (and
  no more header bytes than the limit allows), the parser is in the middle of that line with the number
  that the digits write, or it stops with an error when the number is too large; it never wraps around.\<close>

theorem chunk_size_exact:
  assumes "resting S q" "state q = s_chunk_size_start" "hex_digits w" "w \<noteq> []"
    and "length w \<le> unat (max_header_size S)"
  shows "\<exists>n p. http_parser_execute S q w = Some (Done n p) \<and>
    (if hex_value 0 w < 2 ^ 64 - 16
     then n = length w \<and> http_errno p = CHPE_OK \<and> state p = s_chunk_size \<and> unat (content_length p) = hex_value 0 w
     else http_errno p = CHPE_INVALID_CONTENT_LENGTH)"
proof -
  obtain c w' where w: "w = c # w'" using assms(4) by (cases w) auto
  then obtain d where d: "hex_digit c = Some d" using assms(3) by (auto simp: hex_digits_def)
  note u = unhex_hex_digit [OF d]
  have q: "http_errno q = CHPE_OK" "f_chunked (flags q)" "saved_nread q = 0"
    using assms(1,2) by (simp_all add: resting_def parser_ok_def count_ok_def chunk_states_def)
  have n: "\<not> max_header_size S < 1" "unat (1 :: u32) + length w' \<le> unat (max_header_size S)"
    using count_ok_step [of 0 "length w'" "max_header_size S"] assms(5) w by simp_all
  let ?y = "\<lparr>par = q\<lparr>content_length := of_int (unhex_val c), state := s_chunk_size\<rparr>, pos = 1, nread = 1,
    marks = (\<lambda>_. None), url_start_mark = None\<rparr>"
  have none: "(\<lambda>m. case m of Header_field \<Rightarrow> None | Header_value \<Rightarrow> None | Url \<Rightarrow> None | Body \<Rightarrow> (None :: nat option)) = (\<lambda>_. None)"
    by (rule ext) (simp split: mark.split)
  have "http_parser_execute S q w = exec_loop S w False (start_locals q)"
    using q w by (simp add: http_parser_execute_def)
  also have "\<dots> = exec_loop S w False ?y"
    using q assms(2) n u w none
    by (subst exec_loop.simps)
      (simp add: start_locals_def byte_step_def parsing_header_def count_header_def step_def step_chunk_size_start_def
        asserting_def upd_def goto_def Let_def)
  finally have e: "http_parser_execute S q w = exec_loop S w False ?y" .
  have "in_chunk_size S 1 w' d ?y" using q n u by (simp add: in_chunk_size_def)
  note ex = exec_chunk_size [OF this, of w]
  have "hex_value 0 w = hex_value d w'" using d w by simp
  with ex assms(3) w e show ?thesis by (simp only:) (simp add: hex_digits_def split del: if_split)
qed

theorem chunk_size_exact_witness:
  "\<exists>n p. http_parser_execute (parser_settings Some Some)
      ((new_HTTPParser ())\<lparr>state := s_chunk_size_start, flags := no_flags\<lparr>f_chunked := True\<rparr>\<rparr>) ''1F'' = Some (Done n p) \<and>
    n = length ''1F'' \<and> http_errno p = CHPE_OK \<and> state p = s_chunk_size \<and> unat (content_length p) = 31"
proof -
  let ?S = "parser_settings Some Some"
  let ?q = "(new_HTTPParser ())\<lparr>state := s_chunk_size_start, flags := no_flags\<lparr>f_chunked := True\<rparr>\<rparr>"
  have "resting ?S ?q"
    by (simp add: resting_def parser_ok_def count_ok_def set_defs new_HTTPParser_def http_parser_init_def no_flags_def)
  moreover have "hex_digits ''1F''" "hex_value 0 ''1F'' = 31"
    by (simp_all add: hex_digits_def hex_digit_def byte_def)
  ultimately show ?thesis
    using chunk_size_exact [of ?S ?q "''1F''"]
    by (simp add: parser_settings_def CROW_HTTP_MAX_HEADER_SIZE_def del: hex_value.simps)
qed

section \<open>What breaks the conditions\<close>

text \<open>The reads of a connection one after the other, up to the first error.\<close>

fun execute_all :: "'a pset \<Rightarrow> 'a http_parser_scheme \<Rightarrow> string list \<Rightarrow> 'a http_parser_scheme run option" where
  "execute_all S q [] = Some (Done 0 q)"
| "execute_all S q (d # ds) =
     (case http_parser_execute S q d of
        Some (Done n p) \<Rightarrow> (if http_errno p = CHPE_OK then execute_all S p ds else Some (Done n p))
      | r \<Rightarrow> r)"

definition fails_assertion :: "'p run option \<Rightarrow> bool" where
  "fails_assertion r \<longleftrightarrow> (case r of Some Undefined \<Rightarrow> True | _ \<Rightarrow> False)"


end
