(* ===== verification/Parser_Preserves.thy ===== *)
theory Parser_Preserves
  imports Parser_Invariant
begin

text \<open>
  What the callbacks maintain, the parser maintains: a predicate on the fields that a derived parser adds
  (\<open>HTTPParser\<close> and, through its handler, the connection) that every callback keeps holds again when
  \<open>http_parser_execute\<close> returns. The locale \<open>preserving\<close> is the interface; the connection is its
  interpretation.
\<close>

locale preserving =
  fixes S :: "'a pset" and P :: "'a http_parser_scheme \<Rightarrow> bool"
  assumes P_more: "http_parser.more p = http_parser.more p' \<Longrightarrow> P p = P p'"
    and begin_P: "on_message_begin S p = Some (r, p') \<Longrightarrow> P p \<Longrightarrow> P p'"
    and headers_P: "on_headers_complete S p = Some (r, p') \<Longrightarrow> P p \<Longrightarrow> P p'"
    and complete_P: "on_message_complete S p = Some (r, p') \<Longrightarrow> P p \<Longrightarrow> P p'"
    and data_P: "on_data S m d p = Some (r, p') \<Longrightarrow> P p \<Longrightarrow> P p'"
begin

lemma P_fields [simp]:
  "P (q\<lparr>flags := a\<rparr>) = P q" "P (q\<lparr>state := b\<rparr>) = P q" "P (q\<lparr>header_state := c\<rparr>) = P q"
  "P (q\<lparr>index := d\<rparr>) = P q" "P (q\<lparr>uses_transfer_encoding := e\<rparr>) = P q" "P (q\<lparr>saved_nread := f\<rparr>) = P q"
  "P (q\<lparr>content_length := g\<rparr>) = P q" "P (q\<lparr>qs_point := h\<rparr>) = P q" "P (q\<lparr>http_major := i\<rparr>) = P q"
  "P (q\<lparr>http_minor := j\<rparr>) = P q" "P (q\<lparr>pmethod := k\<rparr>) = P q" "P (q\<lparr>http_errno := l\<rparr>) = P q"
  "P (q\<lparr>upgrade := m\<rparr>) = P q"
  by (rule P_more, simp)+

lemma P_set_errno [simp]: "P (par (set_errno e x)) = P (par x)"
  by (simp add: set_errno_def)

definition keeps :: "'a ps \<Rightarrow> bool" where
  "keeps r \<longleftrightarrow> (case r of Next x \<Rightarrow> P (par x) | Again x \<Rightarrow> P (par x) | Failed x \<Rightarrow> P (par x)
     | Return n x \<Rightarrow> P (par x) | _ \<Rightarrow> True)"

lemma keeps_simps [simp]:
  "keeps (Next x) = P (par x)" "keeps (Again x) = P (par x)" "keeps (Failed x) = P (par x)"
  "keeps (Return n x) = P (par x)" "keeps Stuck" "keeps Lost" "keeps (fail e x) = P (par x)"
  by (simp_all add: keeps_def fail_def)

lemma keeps_notify:
  assumes "\<And>r p'. cb (par x) = Some (r, p') \<Longrightarrow> P p'" "\<And>y. P (par y) \<Longrightarrow> keeps (k y)"
  shows "keeps (notify cb e er x k)"
  using assms by (auto simp: notify_def Let_def split: option.split)

lemma keeps_begin: "P (par x) \<Longrightarrow> (\<And>y. P (par y) \<Longrightarrow> keeps (k y)) \<Longrightarrow> keeps (notify (on_message_begin S) e er x k)"
  by (rule keeps_notify) (auto dest: begin_P)

lemma keeps_complete:
  "P (par x) \<Longrightarrow> (\<And>y. P (par y) \<Longrightarrow> keeps (k y)) \<Longrightarrow> keeps (notify (on_message_complete S) e er x k)"
  by (rule keeps_notify) (auto dest: complete_P)

lemma keeps_data:
  assumes "P (par x)" "\<And>y. P (par y) \<Longrightarrow> keeps (k y)"
  shows "keeps (callback_data S data m stop er x k)"
  using assms by (auto simp: callback_data_def Let_def split: option.split dest: data_P)

lemma keeps_count: "P (par x) \<Longrightarrow> (\<And>y. P (par y) \<Longrightarrow> keeps (k y)) \<Longrightarrow> keeps (count_header S v x k)"
  by (simp add: count_header_def Let_def)

lemma keeps_strict: "P (par x) \<Longrightarrow> (\<And>y. P (par y) \<Longrightarrow> keeps (k y)) \<Longrightarrow> keeps (strict_check b x k)"
  by (simp add: strict_check_def)

lemma keeps_asserting: "keeps r \<Longrightarrow> keeps (asserting b r)"
  by (simp add: asserting_def)

lemmas keeps_intros = keeps_begin keeps_complete keeps_data keeps_count keeps_strict keeps_asserting

section \<open>The states\<close>

lemma keeps_url_char: "P (par x) \<Longrightarrow> keeps (step_url_char ch x)"
  by (auto simp: step_url_char_def Let_def split: option.split)

lemma keeps_request_line:
  assumes "P (par x)"
  shows "keeps (step_dead ch x)" "keeps (step_start_req S ch x)" "keeps (step_method ch x)"
    "keeps (step_spaces_before_url ch x)" "keeps (step_schema ch x)" "keeps (step_url S data ch x)"
    "keeps (step_http_start ch x)"
  using assms
  by (auto simp: step_dead_def step_start_req_def step_method_def step_spaces_before_url_def step_schema_def
      step_url_def step_http_start_def Let_def split: option.split intro!: keeps_intros keeps_url_char)

lemma keeps_http: "P (par x) \<Longrightarrow> keeps (step_http ch x)"
  by (cases "state (par x)") (auto simp: step_http_def intro!: keeps_strict)

lemma field_char_P: "field_char S data p ch c q = Some (p', q') \<Longrightarrow> P q \<Longrightarrow> P q'"
  by (auto simp: field_char_def Let_def split: header_state.splits prod.splits if_splits)

lemma field_loop_P: "field_loop S data p q = Some (p', q') \<Longrightarrow> P q \<Longrightarrow> P q'"
proof (induction S data p q rule: field_loop.induct)
  case (1 S data p q)
  show ?case
  proof (cases "length data \<le> p \<or> token (data ! p) = CHR 0x00")
    case True
    with 1(2,3) show ?thesis by (subst (asm) field_loop.simps) (auto split: if_splits)
  next
    case False
    with 1(2) obtain p1 q1 where f: "field_char S data p (data ! p) (token (data ! p)) q = Some (p1, q1)"
      "field_loop S data (p1 + 1) q1 = Some (p', q')"
      by (subst (asm) field_loop.simps) (auto split: option.splits)
    have "P q1" using f(1) 1(3) by (auto simp: field_char_def Let_def split: header_state.splits prod.splits if_splits)
    with 1(1) [OF _ _ f(1) refl f(2)] False show ?thesis by simp
  qed
qed

lemma keeps_header_field:
  assumes "P (par x)"
  shows "keeps (step_header_field_start ch x)" "keeps (step_header_field S data x)"
  using assms
  by (auto simp: step_header_field_start_def step_header_field_def Let_def split: option.split
      intro!: keeps_count keeps_data dest: field_loop_P)

lemma keeps_header_value_start: "P (par x) \<Longrightarrow> keeps (step_header_value_start ch x)"
  by (simp add: step_header_value_start_def Let_def split: header_state.split)

lemma value_char_P:
  "value_char S data h p ch x = Some (Inr (h', p', x')) \<Longrightarrow> P (par x) \<Longrightarrow> P (par x')"
  "value_char S data h p ch x = Some (Inl r) \<Longrightarrow> P (par x) \<Longrightarrow> keeps r"
  by (auto simp: value_char_def Let_def split: header_state.splits sum.splits prod.splits if_splits)

lemma keeps_leave_value: "P (par x) \<Longrightarrow> keeps (leave_value S data start h p x)"
  by (auto simp: leave_value_def Let_def intro!: keeps_count)

lemma keeps_value_loop: "P (par x) \<Longrightarrow> keeps (value_loop S data start h p x)"
proof (induction "length data - p" arbitrary: h p x rule: less_induct)
  case less
  show ?case
  proof (cases "p < length data \<and> data ! p \<noteq> CR \<and> data ! p \<noteq> LF")
    case False
    with less(2) show ?thesis
      by (subst value_loop_unfold) (auto intro!: keeps_data keeps_count keeps_leave_value)
  next
    case p: True
    show ?thesis
    proof (cases "value_char S data h p (data ! p) x")
      case None
      with p less(2) show ?thesis by (subst value_loop_unfold) simp
    next
      case (Some v)
      show ?thesis
      proof (cases v)
        case (Inl r)
        with Some p less(2) value_char_P(2) show ?thesis by (subst value_loop_unfold) auto
      next
        case (Inr t)
        obtain h' p' x' where t: "t = (h', p', x')" by (cases t) auto
        have "p \<le> p'" using value_char_ge(1) [OF Some [unfolded Inr t] _ refl] p by simp
        moreover have "P (par x')" by (rule value_char_P(1) [OF Some [unfolded Inr t] less(2)])
        ultimately have "keeps (value_loop S data start h' (p' + 1) x')" using p by (intro less(1)) auto
        with Some Inr t p less(2) show ?thesis by (subst value_loop_unfold) simp
      qed
    qed
  qed
qed

lemma keeps_header_value:
  assumes "P (par x)"
  shows "keeps (step_discard_ws ch x)" "keeps (step_header_value S data x)" "keeps (step_header_almost_done ch x)"
    "keeps (step_header_value_lws ch x)" "keeps (step_discard_ws_almost_done ch x)" "keeps (step_discard_lws S data ch x)"
  using assms
  by (auto simp: step_discard_ws_def step_header_value_def step_header_almost_done_def step_header_value_lws_def
      step_discard_ws_almost_done_def step_discard_lws_def Let_def
      intro!: keeps_strict keeps_data keeps_value_loop keeps_header_value_start)

lemma keeps_headers_almost_done: "P (par x) \<Longrightarrow> keeps (step_headers_almost_done S ch x)"
proof -
  have h: "P q1" if "on_headers_complete S ((par y)\<lparr>state := s_headers_done, upgrade := u\<rparr>) = Some (r, q1)" "P (par y)"
    for y :: "'a pl" and u r q1
    using headers_P [OF that(1)] that(2) by simp
  show "P (par x) \<Longrightarrow> keeps (step_headers_almost_done S ch x)"
    unfolding step_headers_almost_done_def
    by (rule keeps_strict) (auto simp: Let_def split: option.split intro!: keeps_complete dest!: h)
qed

lemma keeps_headers_done: "P (par x) \<Longrightarrow> keeps (step_headers_done S ch x)"
  unfolding step_headers_done_def by (rule keeps_strict) (auto simp: Let_def intro!: keeps_complete)

lemma keeps_bodies:
  assumes "P (par x)"
  shows "keeps (step_body_identity S data x)" "keeps (step_body_identity_eof data x)" "keeps (step_message_done S x)"
    "keeps (step_chunk_size_start ch x)" "keeps (step_chunk_size ch x)" "keeps (step_chunk_parameters ch x)"
    "keeps (step_chunk_size_almost_done ch x)" "keeps (step_chunk_data data x)"
    "keeps (step_chunk_data_almost_done S data ch x)" "keeps (step_chunk_data_done ch x)"
  using assms
  by (auto simp: step_body_identity_def step_body_identity_eof_def step_message_done_def step_chunk_size_start_def
      step_chunk_size_def step_chunk_parameters_def step_chunk_size_almost_done_def step_chunk_data_def
      step_chunk_data_almost_done_def step_chunk_data_done_def Let_def intro!: keeps_intros)

lemmas keeps_steps = keeps_request_line keeps_http keeps_header_field keeps_header_value_start keeps_header_value
  keeps_headers_almost_done keeps_headers_done keeps_bodies

lemma keeps_step: "P (par x) \<Longrightarrow> keeps (step S data x)"
  unfolding step_def Let_def by (cases "state (par x)") (simp_all add: keeps_steps)

lemma keeps_byte_step: "P (par x) \<Longrightarrow> keeps (byte_step S data x)"
  unfolding byte_step_def by (auto intro!: keeps_count keeps_step)

section \<open>The whole call\<close>

lemma keeps_leftover: "P (par x) \<Longrightarrow> keeps (leftover S data ms x)"
  by (induction ms arbitrary: x) (auto intro!: keeps_data)

lemma finish_P: "finish S data x = Done n p \<Longrightarrow> P (par x) \<Longrightarrow> P p"
  using keeps_leftover [of x data "[Header_field, Header_value, Url, Body]"]
  by (auto simp: finish_def split: if_splits step_result.splits simp del: leftover.simps)

lemmas exec_loop_rule = exec_loop.raw_induct [where xa = "(((T, data), again), x)" for T data again x, unfolded split_conv]

lemma exec_loop_P:
  assumes "exec_loop S data again x = Some r" "P (par x)" "r = Done n p"
  shows "P p"
proof -
  have "T = S \<longrightarrow> P (par x) \<longrightarrow> (\<forall>n p. r = Done n p \<longrightarrow> P p)" if "exec_loop T data again x = Some r" for T data again x r
    using that
  proof (induction rule: exec_loop_rule [rotated, consumes 1])
    case (1 loop T data again x r)
    show ?case
    proof (intro impI allI)
      fix n p
      assume T: "T = S" and x: "P (par x)" and r: "r = Done n p"
      show "P p"
      proof (cases "\<not> again \<and> length data \<le> pos x")
        case True
        with 1(2) T x r finish_P show ?thesis by fastforce
      next
        case False
        let ?r = "if again then step T data x else byte_step T data x"
        have k: "keeps ?r" using T x keeps_step keeps_byte_step by simp
        show ?thesis
        proof (cases ?r)
          case (Next x1)
          then have "loop T data False (x1\<lparr>pos := pos x1 + 1\<rparr>) = Some r" using 1(2) False by simp
          from 1(1) [OF this] T k r Next show ?thesis by simp
        next
          case (Again x1)
          then have "loop T data True x1 = Some r" using 1(2) False by simp
          from 1(1) [OF this] T k r Again show ?thesis by simp
        next
          case (Failed x1)
          then show ?thesis using 1(2) False k r by (auto simp: finish_error_def Let_def)
        next
          case (Return m x1)
          then show ?thesis using 1(2) False k r by auto
        qed (use 1(2) False r in auto)
      qed
    qed
  qed
  with assms show ?thesis by blast
qed

lemma execute_eof_P:
  assumes "execute_eof S q = Done n p" "P q"
  shows "P p"
proof -
  have "keeps (notify (on_message_complete S) CHPE_CB_message_complete 0 (start_locals q) Next)"
    by (rule keeps_complete) (simp_all add: start_locals_def assms(2))
  with assms show ?thesis
    by (auto simp: execute_eof_def Let_def start_locals_def split: if_splits step_result.splits)
qed

lemma execute_P:
  assumes "http_parser_execute S q data = Some (Done n p)" "P q"
  shows "P p"
proof -
  have "P (par (start_locals q))" using assms(2) by (simp add: start_locals_def)
  with assms execute_eof_P exec_loop_P [of data False "start_locals q" _ n p] show ?thesis
    by (auto simp: http_parser_execute_def split: if_splits)
qed

end

end
