(* ===== verification/Connection_Invariant.thy ===== *)
theory Connection_Invariant
  imports Connection Parser_Theorems Parser_Preserves
begin

text \<open>
  The life of a connection: the operations in flight and the deadline belong to a connection that exists.
  The predicate \<open>busy\<close> holds while a read is being handled, \<open>conn_inv\<close> between two events; each operation
  keeps the first, the parser does by the locale \<open>preserving\<close>, and each event keeps the second.
\<close>

section \<open>Invariants\<close>

text \<open>Inside the completion handler of a read; \<open>n\<close> is the queue length without this connection.\<close>

definition busy :: "u32 \<Rightarrow> connection \<Rightarrow> bool" where
  "busy n c \<longleftrightarrow> \<not> deleted c \<and> started c \<and> sorted_tasks (timer c) \<and> dl.only (me c) (task_id c) (timer c) \<and>
     \<not> read_op c \<and> is_reading c \<and> (write_op c \<noteq> None \<longrightarrow> is_writing c) \<and>
     \<not> need_to_start_read_after_complete c \<and> \<not> held c \<and> queue_length c = n + 1"

definition handling :: "u32 \<Rightarrow> connection \<Rightarrow> bool" where
  "handling n c \<longleftrightarrow> busy n c \<and> \<not> need_to_call_after_handlers c"

definition conn_inv :: "u32 \<Rightarrow> connection \<Rightarrow> bool" where
  "conn_inv n c \<longleftrightarrow> sorted_tasks (timer c) \<and> \<not> held c \<and> \<not> need_to_start_read_after_complete c \<and>
     \<not> need_to_call_after_handlers c \<and>
     (if deleted c
      then started c \<and> \<not> read_op c \<and> write_op c = None \<and> dl.without (me c) (timer c) \<and> queue_length c = n
      else dl.only (me c) (task_id c) (timer c) \<and> (read_op c \<longrightarrow> is_reading c) \<and>
        (write_op c \<noteq> None \<longrightarrow> is_writing c) \<and> queue_length c = n + 1 \<and>
        (\<not> started c \<longrightarrow> \<not> is_reading c \<and> \<not> is_writing c))"

text \<open>A router whose handlers end the response they are given, as every handler that returns does.\<close>

definition completes :: "server \<Rightarrow> bool" where
  "completes env \<longleftrightarrow>
     (\<forall>rq r. \<not> completed r \<longrightarrow> snd (router env rq r) \<and> \<not> completed (fst (router env rq r))) \<and>
     (\<forall>rq r. snd (upgrade_router env rq r))"

section \<open>The operations\<close>

lemma set_res_Ret: "set_res r c = Ret c' \<Longrightarrow> c' = c\<lparr>c_res := r\<rparr>"
  by (auto simp: set_res_def split: option.splits if_splits)

lemma busy_res [simp]: "busy n (c\<lparr>c_res := r\<rparr>) = busy n c" "handling n (c\<lparr>c_res := r\<rparr>) = handling n c"
  by (simp_all add: busy_def handling_def)

lemma do_write_sync_Ret:
  "do_write_sync env bs c = Ret c' \<Longrightarrow> c' = c\<lparr>wire := wire c @ bs\<rparr> \<and> write_op c = None"
  by (auto simp: do_write_sync_def split: if_splits)

lemma do_write_busy: "do_write c = Ret c' \<Longrightarrow> busy n c \<Longrightarrow> busy n c'"
  by (auto simp: do_write_def busy_def split: if_splits)

lemma do_write_keeps:
  "do_write c = Ret c' \<Longrightarrow> need_to_call_after_handlers c' = need_to_call_after_handlers c"
  by (auto simp: do_write_def split: if_splits)

lemma close_after_write_busy:
  assumes "busy n c"
  shows "busy n (close_after_write c)"
    and "need_to_call_after_handlers (close_after_write c) = need_to_call_after_handlers c"
  using assms by (auto simp: close_after_write_def check_destroy_def busy_def)

lemma finish_sync_busy:
  assumes "finish_sync c = Ret c'" "busy n c" "write_op c = None"
  shows "busy n c'" "need_to_call_after_handlers c' = need_to_call_after_handlers c"
proof -
  have b: "busy n (c\<lparr>is_writing := False\<rparr>)" using assms(2,3) by (simp add: busy_def)
  note cl = close_after_write_busy [OF b]
  from assms(1) show "busy n c'" "need_to_call_after_handlers c' = need_to_call_after_handlers c"
    using cl by (auto simp: finish_sync_def alive_def outcome_simps busy_def dest!: set_res_Ret split: if_splits)
qed

lemma static_loop_Ret: "static_loop env contents buf c = Ret c' \<Longrightarrow> \<exists>w. c' = c\<lparr>wire := wire c @ w\<rparr>"
proof (induction env contents buf c rule: static_loop.induct)
  case (1 env contents buf c)
  show ?case
  proof (cases "contents = []")
    case True
    with 1(2) have "c' = c\<lparr>wire := wire c @ []\<rparr>" by (subst (asm) static_loop.simps) simp
    then show ?thesis by blast
  next
    case False
    let ?buf = "take 16384 contents @ drop (length (take 16384 contents)) buf"
    from 1(2) False obtain c1 where c1: "do_write_sync env ?buf c = Ret c1"
      "static_loop env (drop 16384 contents) ?buf c1 = Ret c'"
      by (subst (asm) static_loop.simps) (auto simp: outcome_simps Let_def)
    from 1(1) [OF False refl refl c1(2)] do_write_sync_Ret [OF c1(1)] show ?thesis by auto
  qed
qed

lemma stream_loop_Ret: "stream_loop env rest c = Ret c' \<Longrightarrow> \<exists>w. c' = c\<lparr>wire := wire c @ w\<rparr>"
proof (induction env rest c rule: stream_loop.induct)
  case (1 env rest c)
  show ?case
  proof (cases "length rest > 16384")
    case False
    with 1(2) show ?thesis by (subst (asm) stream_loop.simps) (auto dest: do_write_sync_Ret)
  next
    case True
    with 1(2) obtain c1 where c1: "do_write_sync env (take 16384 rest) c = Ret c1"
      "stream_loop env (drop 16384 rest) c1 = Ret c'"
      by (subst (asm) stream_loop.simps) (auto simp: outcome_simps)
    from 1(1) [OF True c1(2)] do_write_sync_Ret [OF c1(1)] show ?thesis by auto
  qed
qed

lemma busy_wire [simp]: "busy n (c\<lparr>wire := w\<rparr>) = busy n c"
  by (simp add: busy_def)

lemma busy_writing: "busy n c \<Longrightarrow> busy n (c\<lparr>is_writing := True\<rparr>)"
  by (simp add: busy_def)

lemma do_write_static_busy:
  assumes "do_write_static env c = Ret c'" "busy n c"
  shows "busy n c'" "need_to_call_after_handlers c' = need_to_call_after_handlers c"
proof -
  from assms(1) obtain w where w: "finish_sync (c\<lparr>is_writing := True, wire := w\<rparr>) = Ret c'" "write_op c = None"
    by (auto simp: do_write_static_def outcome_simps split: if_splits option.splits
        dest!: do_write_sync_Ret static_loop_Ret)
  have "busy n (c\<lparr>is_writing := True, wire := w\<rparr>)" using busy_writing [OF assms(2)] by simp
  from finish_sync_busy [OF w(1) this] w(2)
  show "busy n c'" "need_to_call_after_handlers c' = need_to_call_after_handlers c" by simp_all
qed

lemma do_write_general_busy:
  assumes "do_write_general env c = Ret c'" "busy n c"
  shows "busy n c'" "need_to_call_after_handlers c' = need_to_call_after_handlers c"
proof -
  have "busy n c' \<and> need_to_call_after_handlers c' = need_to_call_after_handlers c"
  proof (cases "length (body (c_res c)) < stream_threshold env")
    case True
    define c1 where "c1 = c\<lparr>res_body_copy := body (c_res c), c_res := (c_res c)\<lparr>body := res_body_copy c\<rparr>,
      buffers := buffers c @ [Text (body (c_res c))]\<rparr>"
    have b: "busy n c1" using assms(2) by (simp add: c1_def busy_def)
    from True assms(1) obtain c2 where c2: "do_write c1 = Ret c2"
      "(if need_to_start_read_after_complete c2
        then do_read (start_deadline env (c2\<lparr>need_to_start_read_after_complete := False\<rparr>)) else Ret c2) = Ret c'"
      by (auto simp: do_write_general_def outcome_simps Let_def c1_def)
    have "busy n c2" by (rule do_write_busy [OF c2(1) b])
    with c2(2) do_write_keeps [OF c2(1)] show ?thesis by (simp add: busy_def c1_def)
  next
    case False
    with assms(1) obtain w r where w: "finish_sync (c\<lparr>is_writing := True, wire := w, c_res := r\<rparr>) = Ret c'" "write_op c = None"
      by (auto simp: do_write_general_def outcome_simps split: if_splits dest!: do_write_sync_Ret stream_loop_Ret)
        (metis connection.surjective connection.update_convs(3))+
    have "busy n (c\<lparr>is_writing := True, wire := w, c_res := r\<rparr>)" using busy_writing [OF assms(2)] by simp
    from finish_sync_busy [OF w(1) this] w(2) show ?thesis by simp
  qed
  then show "busy n c'" "need_to_call_after_handlers c' = need_to_call_after_handlers c" by simp_all
qed

lemma prepare_buffers_busy:
  "busy n (prepare_buffers env c) = busy n c"
  "need_to_call_after_handlers (prepare_buffers env c) = need_to_call_after_handlers c"
  by (simp_all add: prepare_buffers_def Let_def busy_def split: prod.split)

lemma complete_request_handling:
  assumes "complete_request env c = Ret c'" "busy n c"
  shows "handling n c'"
proof -
  let ?c = "c\<lparr>need_to_call_after_handlers := False\<rparr>"
  from assms(1) obtain c1 where c1: "complete_location ?c = Ret c1"
    "(let c2 = prepare_buffers env c1 in if is_static_type (c_res c2) then do_write_static env c2 else do_write_general env c2) = Ret c'"
    by (auto simp: complete_request_def outcome_simps)
  have h: "handling n ?c" using assms(2) by (simp add: handling_def busy_def)
  have "handling n c1" using c1(1) h by (auto simp: complete_location_def Let_def split: if_splits dest!: set_res_Ret)
  then have "busy n (prepare_buffers env c1)" "\<not> need_to_call_after_handlers (prepare_buffers env c1)"
    by (simp_all add: handling_def prepare_buffers_busy)
  with c1(2) show ?thesis
    by (auto simp: Let_def handling_def split: if_splits dest: do_write_static_busy do_write_general_busy)
qed

lemma res_end_handling:
  assumes "res_end env c = Ret c'" "busy n c"
    and "\<not> need_to_call_after_handlers c \<or> \<not> completed (c_res c) \<and> on_complete c = Complete_request"
  shows "handling n c'"
proof (cases "completed (c_res c)")
  case True
  with assms show ?thesis by (auto simp: res_end_def handling_def)
next
  case False
  with assms(1) obtain c1 where c1: "c1 = c\<lparr>c_res := end_response (c_res c)\<rparr>"
    "(case on_complete c1 of Complete_request \<Rightarrow> complete_request env c1 | _ \<Rightarrow> Ret c1) = Ret c'"
    by (auto simp: res_end_def outcome_simps dest!: set_res_Ret)
  have "busy n c1" using c1(1) assms(2) by simp
  with c1 assms(3) False show ?thesis
    by (auto simp: handling_def split: completion.splits dest: complete_request_handling)
qed

lemma call_router_handling:
  assumes "call_router env f c = Ret c'" "busy n c" "snd (f (c_req c) (c_res c))"
    and "\<not> need_to_call_after_handlers c \<or>
      \<not> completed (fst (f (c_req c) (c_res c))) \<and> on_complete c = Complete_request"
  shows "handling n c'"
proof -
  obtain r where f: "f (c_req c) (c_res c) = (r, True)" using assms(3) by (cases "f (c_req c) (c_res c)") auto
  with assms(1) have e: "res_end env (c\<lparr>c_res := r\<rparr>) = Ret c'"
    by (auto simp: call_router_def outcome_simps dest!: set_res_Ret)
  show ?thesis by (rule res_end_handling [OF e]) (use assms(2,4) f in simp_all)
qed

lemma route_handling:
  assumes "route env b c = Ret c'" "busy n c" "completes env"
  shows "handling n c'"
proof -
  let ?c = "c\<lparr>need_to_call_after_handlers := False\<rparr>"
  have h: "busy n ?c" "busy n (?c\<lparr>on_complete := Do_nothing\<rparr>)"
    "busy n (?c\<lparr>on_complete := Complete_request, need_to_call_after_handlers := True\<rparr>)"
    using assms(2) by (simp_all add: busy_def)
  show ?thesis
  proof (cases "b \<or> completed (c_res c)")
    case True
    with assms(1) h(1,2) show ?thesis
      by (auto simp: route_def Let_def split: if_splits dest: complete_request_handling)
  next
    case False
    with assms(1) obtain c3 where c3:
      "call_router env (router env) (?c\<lparr>on_complete := Complete_request, need_to_call_after_handlers := True\<rparr>) = Ret c3"
      "(if c_add_keep_alive c3 then set_res (set_header ''connection'' ''Keep-Alive'' (c_res c3)) c3 else Ret c3) = Ret c'"
      by (auto simp: route_def Let_def outcome_simps)
    have "handling n c3"
      by (rule call_router_handling [OF c3(1) h(3)]) (use assms(3) False in \<open>simp_all add: completes_def\<close>)
    with c3(2) show ?thesis by (auto split: if_splits dest!: set_res_Ret)
  qed
qed

lemma busy_cancel: "busy n c \<Longrightarrow> busy n (cancel_deadline_timer c)"
  by (simp add: busy_def cancel_deadline_timer_def dl.drop_wf dl.drop_only)

lemma handle_handling:
  assumes "handle env p c = Ret c'" "handling n c" "completes env"
  shows "handling n c'"
proof -
  from assms(1) obtain a where a: "remote env = Some a" by (cases "remote env") (auto simp: handle_def)
  define rq where "rq = (to_request () p)\<lparr>remote_ip_address := a\<rparr>"
  define c1 where "c1 = (cancel_deadline_timer c)\<lparr>c_req := rq, c_add_keep_alive := keep_alive rq,
    c_close_connection := close_connection rq\<rparr>"
  define b where "b \<longleftrightarrow> check_version 1 1 rq \<and> ci_count ''host'' (req_headers rq) = 0"
  have h1: "handling n c1"
    using assms(2) busy_cancel [of n c] by (simp add: c1_def handling_def busy_def cancel_deadline_timer_def)
  from assms(1) obtain c2 where c2:
    "(if b then set_res (assign (response_code 400) (c_res c1)) c1 else Ret c1) = Ret c2"
    "(if check_version 1 1 rq \<and> req_upgrade rq \<and> take 2 (get_header_value (req_headers rq) ''upgrade'') \<noteq> ''h2''
      then call_router env (upgrade_router env) (c2\<lparr>c_close_connection := True\<rparr>) else route env b c2) = Ret c'"
    unfolding handle_def a option.case Let_def rq_def [symmetric] c1_def [symmetric] b_def [symmetric] bind_outcome_eq_Ret
    by blast
  have h2: "handling n c2" using c2(1) h1 by (auto split: if_splits dest!: set_res_Ret)
  then have h3: "busy n (c2\<lparr>c_close_connection := True\<rparr>)" "\<not> need_to_call_after_handlers (c2\<lparr>c_close_connection := True\<rparr>)"
    by (simp_all add: handling_def busy_def)
  show ?thesis
  proof (cases "check_version 1 1 rq \<and> req_upgrade rq \<and> take 2 (get_header_value (req_headers rq) ''upgrade'') \<noteq> ''h2''")
    case True
    with c2(2) have "call_router env (upgrade_router env) (c2\<lparr>c_close_connection := True\<rparr>) = Ret c'" by simp
    from call_router_handling [OF this h3(1)] h3(2) assms(3) show ?thesis by (simp add: completes_def)
  next
    case False
    with c2(2) have "route env b c2 = Ret c'" by auto
    from route_handling [OF this _ assms(3), of n] h2 show ?thesis by (simp add: handling_def)
  qed
qed

lemma handle_header_handling: "handle_header p c = Ret c' \<Longrightarrow> handling n c \<Longrightarrow> handling n c'"
  using do_write_busy [of "c\<lparr>buffers := [Text (''HTTP/1.1 100 Continue'' @ crlf @ crlf)]\<rparr>" c' n]
    do_write_keeps [of "c\<lparr>buffers := [Text (''HTTP/1.1 100 Continue'' @ crlf @ crlf)]\<rparr>" c']
  by (auto simp: handle_header_def handling_def busy_def split: if_splits)

section \<open>The parser\<close>

lemma keeps_core_callbacks: "keeps_core header_callback" "keeps_core (message_callback env)"
  by (auto simp: keeps_core_def header_callback_def message_callback_def on_connection_def normal_def core_def
      outcome_simps split: outcome.splits)

interpretation conn_parser: callbacks "parser_settings header_callback (message_callback env)" for env
  by (rule callbacks_parser_settings) (rule keeps_core_callbacks)+

lemma header_callback_handling:
  "header_callback p = Some p' \<Longrightarrow> handling n (handler p) \<Longrightarrow> handling n (handler p')"
  by (auto simp: header_callback_def normal_def on_connection_def outcome_simps split: outcome.splits
      dest: handle_header_handling)

lemma message_callback_handling:
  "message_callback env p = Some p' \<Longrightarrow> completes env \<Longrightarrow> handling n (handler p) \<Longrightarrow> handling n (handler p')"
  by (auto simp: message_callback_def normal_def on_connection_def outcome_simps split: outcome.splits
      dest: handle_handling)

lemma handler_more:
  fixes p p' :: "'h HTTPParser"
  shows "http_parser.more p = http_parser.more p' \<Longrightarrow> handler p = handler p'"
  by (cases p, cases p') simp

interpretation conn_keeps: preserving "parser_settings header_callback (message_callback env)"
    "\<lambda>p. completes env \<longrightarrow> handling n (handler p)" for env n
proof
  fix p p' :: conn and r m d
  show "(completes env \<longrightarrow> handling n (handler p)) = (completes env \<longrightarrow> handling n (handler p'))"
    if "http_parser.more p = http_parser.more p'"
    using handler_more [OF that] by simp
  show "completes env \<longrightarrow> handling n (handler p')"
    if "on_headers_complete (parser_settings header_callback (message_callback env)) p = Some (r, p')"
      "completes env \<longrightarrow> handling n (handler p)"
    using that by (auto simp: parser_settings_def cb_headers_complete_def set_connection_parameters_def Let_def
        dest!: header_callback_handling [where n = n] split: if_splits)
  show "completes env \<longrightarrow> handling n (handler p')"
    if "on_message_complete (parser_settings header_callback (message_callback env)) p = Some (r, p')"
      "completes env \<longrightarrow> handling n (handler p)"
    using that by (auto simp: parser_settings_def cb_message_complete_def Let_def split: option.splits if_splits
        dest!: message_callback_handling [where n = n])
  show "completes env \<longrightarrow> handling n (handler p')"
    if "on_data (parser_settings header_callback (message_callback env)) m d p = Some (r, p')"
      "completes env \<longrightarrow> handling n (handler p)"
    using that by (cases m)
      (auto simp: parser_settings_def cb_url_def cb_body_def cb_header_field_def cb_header_value_def Let_def
        split: if_splits)
qed (auto simp: parser_settings_def cb_message_begin_def clear_parser_def)

lemma feed_handling:
  assumes "feed header_callback (message_callback env) data p = Some (ok, p')" "completes env" "handling n (handler p)"
  shows "handling n (handler p')"
  using assms conn_keeps.execute_P [of env p data _ p' n] by (auto simp: feed_def split: option.splits run.splits)

section \<open>The events\<close>

lemma conn_inv_handling:
  assumes "handling n c"
  shows "conn_inv n c"
  using assms by (simp add: conn_inv_def handling_def busy_def)

text \<open>A read or a deadline is started on a connection without one.\<close>

lemma start_read_inv:
  assumes "do_read (start_deadline env c) = Ret c'" "conn_inv n c" "\<not> deleted c" "started c"
  shows "conn_inv n c'"
proof -
  obtain i t where t: "schedule (me c) (clock env) (cancel (task_id c) (timer c)) = (i, t)" by fastforce
  have "sorted_tasks (timer c)" "dl.only (me c) (task_id c) (timer c)"
    using assms(2,3) by (simp_all add: conn_inv_def)
  with t have "sorted_tasks t" "dl.only (me c) i t"
    by (auto intro: dl.restart dl.add_wf [OF dl.drop_wf])
  with assms t show ?thesis
    by (auto simp: do_read_def start_deadline_def cancel_deadline_timer_def Let_def conn_inv_def split: if_splits)
qed

lemma check_destroy_inv:
  assumes "conn_inv n c" "\<not> deleted c" "started c"
  shows "conn_inv n (check_destroy c)"
proof (cases "is_reading c \<or> is_writing c")
  case False
  have t: "sorted_tasks (timer c)" "dl.only (me c) (task_id c) (timer c)"
    using assms(1,2) by (simp_all add: conn_inv_def)
  have "sorted_tasks (cancel (task_id c) (timer c))" "dl.without (me c) (cancel (task_id c) (timer c))"
    using dl.drop_wf [OF t(1)] dl.drop_own [OF t] by simp_all
  with False assms show ?thesis
    by (auto simp: conn_inv_def check_destroy_def destroy_connection_def cancel_deadline_timer_def)
qed (use assms in \<open>auto simp: check_destroy_def\<close>)

lemma start_inv:
  assumes "start env ec (c\<lparr>started := True\<rparr>) = Ret c'" "conn_inv n c" "\<not> started c"
  shows "conn_inv n c'"
proof -
  have "conn_inv n (c\<lparr>started := True\<rparr>)" "\<not> deleted (c\<lparr>started := True\<rparr>)"
    using assms(2,3) by (auto simp: conn_inv_def split: if_splits)
  with assms(1) show ?thesis
    by (auto simp: start_def split: if_splits intro: check_destroy_inv start_read_inv)
qed

lemma close_read_inv:
  assumes "close_read env adapt p = Ret p'" "handling n (handler p)" "completes env"
    and adapt: "\<And>c. \<exists>a. adapt c = c\<lparr>adaptor := a\<rparr>"
  shows "conn_inv n (handler p')"
proof -
  let ?p = "p\<lparr>handler := cancel_deadline_timer (handler p)\<rparr>"
  from assms(1) obtain b p1 where p1: "feed header_callback (message_callback env) [] ?p = Some (b, p1)"
    "p' = p1\<lparr>handler := check_destroy ((adapt (handler p1))\<lparr>is_reading := False\<rparr>)\<rparr>"
    by (auto simp: close_read_def done_parsing_def on_connection_def outcome_simps)
  have "handling n (handler ?p)"
    using assms(2) busy_cancel [of n "handler p"] by (simp add: handling_def cancel_deadline_timer_def)
  from feed_handling [OF p1(1) assms(3) this] have h: "handling n (handler p1)" .
  obtain a where a: "adapt (handler p1) = (handler p1)\<lparr>adaptor := a\<rparr>" using adapt by blast
  have "conn_inv n ((adapt (handler p1))\<lparr>is_reading := False\<rparr>)"
    using h by (auto simp: a conn_inv_def handling_def busy_def)
  with h have "conn_inv n (check_destroy ((adapt (handler p1))\<lparr>is_reading := False\<rparr>))"
    by (intro check_destroy_inv) (simp_all add: a handling_def busy_def)
  with p1(2) show ?thesis by simp
qed

lemma read_done_inv:
  assumes "read_done env ec data p = Ret p'" "handling n (handler p)" "completes env"
  shows "conn_inv n (handler p')"
proof -
  from assms(1) obtain ok p1 where p1: "(if ec then Ret (False, p)
      else of_option (feed header_callback (message_callback env) data p)) = Ret (ok, p1)"
    and r: "(let c = handler p1; error_while_reading = (ec \<or> \<not> (ok \<and> sock_open (adaptor c)))
          in if error_while_reading then
               close_read env (\<lambda>c. c\<lparr>adaptor := close_socket (shutdown_read (adaptor c))\<rparr>) p1
             else if c_close_connection c then close_read env (\<lambda>c. c) p1
             else if \<not> need_to_call_after_handlers c then on_connection (\<lambda>c. do_read (start_deadline env c)) p1
             else Ret (p1\<lparr>handler := c\<lparr>need_to_start_read_after_complete := True\<rparr>\<rparr>)) = Ret p'"
    unfolding read_done_def bind_outcome_eq_Ret by (metis (no_types, lifting) case_prod_conv surj_pair)
  have h: "handling n (handler p1)"
    using p1 assms(2,3) by (auto split: if_splits dest: feed_handling)
  have ad: "\<exists>a. c = c\<lparr>adaptor := a\<rparr>" for c :: connection
    by (rule exI [of _ "adaptor c"]) simp
  show ?thesis
  proof (cases "ec \<or> \<not> (ok \<and> sock_open (adaptor (handler p1))) \<or> c_close_connection (handler p1)")
    case True
    then show ?thesis using r h assms(3)
      by (auto simp: Let_def split: if_splits intro!: ad elim!: close_read_inv)
  next
    case False
    with r h have "on_connection (\<lambda>c. do_read (start_deadline env c)) p1 = Ret p'"
      by (auto simp: Let_def handling_def split: if_splits)
    then obtain c where c: "do_read (start_deadline env (handler p1)) = Ret c" "p' = p1\<lparr>handler := c\<rparr>"
      by (auto simp: on_connection_def outcome_simps)
    have "conn_inv n c"
      by (rule start_read_inv [OF c(1) conn_inv_handling [OF h]]) (use h in \<open>simp_all add: handling_def busy_def\<close>)
    with c(2) show ?thesis by simp
  qed
qed

lemma write_done_inv:
  assumes "write_done ec c = Ret c'" "conn_inv n (c\<lparr>is_writing := False\<rparr>)" "\<not> deleted c" "started c"
  shows "conn_inv n c'"
proof -
  let ?c = "c\<lparr>is_writing := False, c_res := clear (c_res c), res_body_copy := []\<rparr>"
  from assms(1) have c': "c' = (if ec then check_destroy ?c else if c_close_connection ?c
      then check_destroy (?c\<lparr>adaptor := close_socket (shutdown_write (adaptor ?c))\<rparr>) else ?c)"
    by (auto simp: write_done_def outcome_simps Let_def dest!: set_res_Ret split: if_splits)
  have "conn_inv n ?c" "conn_inv n (?c\<lparr>adaptor := a\<rparr>)" for a
    using assms(2,3) by (simp_all add: conn_inv_def)
  then show ?thesis unfolding c' using assms(3,4) by (auto intro!: check_destroy_inv)
qed

lemma tick_inv:
  assumes "tick env ec c = Ret c'" "conn_inv n c"
  shows "conn_inv n c'"
proof -
  obtain ks t where t: "tick_handler ec (clock env) (timer c) = (ks, t)" by fastforce
  have s: "sorted_tasks (timer c)" using assms(2) by (simp add: conn_inv_def)
  note f = dl.fire_wf [OF s t] dl.fire_own [OF s t, of "me c"]
  have i: "conn_inv n (c\<lparr>timer := t, adaptor := a\<rparr>)" "conn_inv n (c\<lparr>timer := t\<rparr>)" for a
    using assms(2) f by (auto simp: conn_inv_def split: if_splits)
  show ?thesis
  proof (cases "me c \<in> set ks")
    case True
    with assms(1) t i show ?thesis
      by (auto simp: tick_def deadline_task_def alive_def outcome_simps Let_def split: if_splits)
  next
    case False
    with assms(1) t i show ?thesis by (simp add: tick_def Let_def)
  qed
qed

lemma other_inv:
  "conn_inv n c \<Longrightarrow> conn_inv n (c\<lparr>timer := cancel i (timer c)\<rparr>)"
  "conn_inv n c \<Longrightarrow> k \<noteq> me c \<Longrightarrow> conn_inv n (c\<lparr>timer := snd (schedule k now (timer c))\<rparr>)"
proof -
  assume c: "conn_inv n c"
  then have s: "sorted_tasks (timer c)" by (simp add: conn_inv_def)
  show "conn_inv n (c\<lparr>timer := cancel i (timer c)\<rparr>)"
    using c dl.drop_wf [OF s] dl.drop_only [OF s] dl.drop_without [OF s]
    by (auto simp: conn_inv_def split: if_splits)
  assume k: "k \<noteq> me c"
  obtain j t where t: "schedule k now (timer c) = (j, t)" by fastforce
  show "conn_inv n (c\<lparr>timer := snd (schedule k now (timer c))\<rparr>)"
    using c dl.add_wf [OF s t] dl.add_other [OF s t k] t by (auto simp: conn_inv_def split: if_splits)
qed

text \<open>Every event keeps the invariant.\<close>

lemma event_inv:
  assumes "apply_event env ev p = Ret p'" "enabled ev (handler p)" "conn_inv n (handler p)" "completes env"
  shows "conn_inv n (handler p')"
proof (cases ev)
  case (Start ec)
  with assms show ?thesis
    by (auto simp: apply_event_def enabled_def on_connection_def outcome_simps intro: start_inv)
next
  case (Read_done ec data)
  let ?c = "(handler p)\<lparr>read_op := False\<rparr>"
  from Read_done assms(1) have r: "read_done env ec data (p\<lparr>handler := ?c\<rparr>) = Ret p'"
    by (auto simp: apply_event_def on_connection_def alive_def outcome_simps split: if_splits)
  have "handling n ?c" using Read_done assms(2,3)
    by (auto simp: enabled_def conn_inv_def handling_def busy_def split: if_splits)
  with read_done_inv [OF r] assms(4) show ?thesis by simp
next
  case (Write_done ec m)
  let ?c = "(handler p)\<lparr>write_op := None, wire := wire (handler p) @ sent_bytes ec m (the (write_op (handler p)))\<rparr>"
  from Write_done assms(1) obtain c where c: "write_done ec ?c = Ret c" "p' = p\<lparr>handler := c\<rparr>"
    by (auto simp: apply_event_def on_connection_def alive_def outcome_simps split: if_splits)
  have "conn_inv n (?c\<lparr>is_writing := False\<rparr>)" "\<not> deleted ?c" "started ?c"
    using Write_done assms(2,3) by (auto simp: enabled_def conn_inv_def split: if_splits)
  from write_done_inv [OF c(1) this] c(2) show ?thesis by simp
next
  case (User_end r)
  with assms(2,3) show ?thesis by (simp add: enabled_def conn_inv_def)
qed (use assms in \<open>auto simp: apply_event_def enabled_def on_connection_def outcome_simps intro: tick_inv other_inv\<close>)

section \<open>The connection as a transition system\<close>

definition conn_init :: "u32 \<Rightarrow> conn \<Rightarrow> bool" where
  "conn_init n p \<longleftrightarrow> (\<exists>k t. sorted_tasks t \<and> dl.without k t \<and> p = new_HTTPParser (new_connection k t (n + 1)))"

definition conn_next :: "conn \<Rightarrow> conn \<Rightarrow> bool" where
  "conn_next p p' \<longleftrightarrow>
     (\<exists>env ev. completes env \<and> enabled ev (handler p) \<and> apply_event env ev p = Ret p')"

interpretation conn: transition_system "conn_init n" conn_next "\<lambda>p. conn_inv n (handler p)" for n
proof
  show "conn_inv n (handler p)" if "conn_init n p" for p
    using that by (auto simp: conn_init_def conn_inv_def new_HTTPParser_def http_parser_init_def new_connection_def
        intro: dl.without_only)
  show "conn_inv n (handler p')" if "conn_inv n (handler p)" "conn_next p p'" for p p'
    using that event_inv by (auto simp: conn_next_def)
qed

end
