(* ===== verification/Connection_Theorems.thy ===== *)
theory Connection_Theorems
  imports Connection_Invariant
begin

text \<open>
  The properties of a connection: its lifetime, the bytes of a response, the bytes of a static file, and
  the runs in which a client gets no answer.
\<close>

section \<open>Lifetime\<close>

text \<open>A run of events is a path of the transition system.\<close>

lemma run_events_reach:
  "run_events evs p = Ret p' \<Longrightarrow> list_all (\<lambda>(env, ev). completes env) evs \<Longrightarrow> reach ini conn_next p \<Longrightarrow>
    reach ini conn_next p'"
proof (induction evs arbitrary: p)
  case (Cons e evs)
  obtain env ev where e: "e = (env, ev)" by (cases e)
  with Cons.prems(1) obtain p1 where p1: "enabled ev (handler p)" "apply_event env ev p = Ret p1" "run_events evs p1 = Ret p'"
    by (auto simp: outcome_simps split: if_splits)
  have "conn_next p p1" using Cons.prems(2) p1 e by (auto simp: conn_next_def)
  with Cons p1(3) show ?case by (auto intro: reach.reach_step)
qed simp


definition quiet_server :: server where
  "quiet_server = \<lparr>router = (\<lambda>rq r. (r\<lparr>body := ''hi''\<rparr>, True)), upgrade_router = (\<lambda>rq r. (assign (response_code 404) r, True)),
     server_name = ''Crow'', cached_date = ''now'', stream_threshold = 1048576, remote = Some ''peer'', clock = 0,
     read_file = (\<lambda>path. None), stack_bytes = [], sends = True\<rparr>"

definition first_connection :: conn where
  "first_connection = new_HTTPParser (new_connection 1
     \<lparr>tasks = [], highest_id = 0, default_timeout = 5, armed = True\<rparr> 1)"

lemma first_connection_init: "conn_init 0 first_connection"
  by (auto simp: conn_init_def first_connection_def sorted_tasks_def dl.without_def live_tasks_def intro!: exI)

lemma completes_quiet: "completes quiet_server"
  by (simp add: completes_def quiet_server_def)


section \<open>The bytes of a response\<close>

text \<open>The text of a response.\<close>

definition status_line :: "int \<Rightarrow> string" where
  "status_line n = (case map_of statusCodes n of Some line \<Rightarrow> line | None \<Rightarrow> ''HTTP/1.1 500 Internal Server Error'' @ crlf)"

definition sent_body :: "response \<Rightarrow> string" where
  "sent_body r =
     (if body r = [] \<and> (400 \<le> code r \<or> map_of statusCodes (code r) = None) then drop 9 (status_line (code r)) else body r)"

definition response_text :: "server \<Rightarrow> bool \<Rightarrow> response \<Rightarrow> string" where
  "response_text env keep r =
     status_line (code r) @ concat (map (\<lambda>(k, v). k @ '': '' @ v @ crlf) (headers r)) @
     (if manual_length_header r \<or> 0 < ci_count ''content-length'' (headers r) then []
      else ''Content-Length: '' @ show_nat (length (sent_body r)) @ crlf) @
     (if 0 < ci_count ''server'' (headers r) then [] else ''Server: '' @ server_name env @ crlf) @
     (if 0 < ci_count ''date'' (headers r) then [] else ''Date: '' @ cached_date env @ crlf) @
     (if keep then ''Connection: Keep-Alive'' @ crlf else []) @ crlf @ sent_body r"

text \<open>The bytes that are on the wire when the write in flight has ended.\<close>

definition transmitted :: "connection \<Rightarrow> string" where
  "transmitted c = wire c @ (case write_op c of None \<Rightarrow> [] | Some bs \<Rightarrow> concat (map bytes bs))"

lemma header_buffers_bytes:
  "concat (map bytes (header_buffers hs)) = concat (map (\<lambda>(k, v). k @ '': '' @ v @ crlf) hs)"
  by (induction hs) (auto simp: header_buffers_def)

lemma status_500: "map_of statusCodes 500 = Some (''HTTP/1.1 500 Internal Server Error'' @ crlf)"
  by (simp add: statusCodes_def)

lemma settle_status_eq:
  obtains r2 where "settle_status r = (status_line (code r), r2)" "headers r2 = headers r" "body r2 = sent_body r"
    "manual_length_header r2 = manual_length_header r" "file_info r2 = file_info r"
proof (cases "map_of statusCodes (code r)")
  case None
  then show thesis
    by (intro that [of "snd (settle_status r)"]) (auto simp: settle_status_def Let_def status_line_def status_500 sent_body_def)
next
  case (Some line)
  then show thesis
    by (intro that [of "snd (settle_status r)"]) (auto simp: settle_status_def Let_def status_line_def sent_body_def)
qed

lemma prepare_buffers_text:
  assumes "sock_open (adaptor c)"
  shows "concat (map bytes (buffers (prepare_buffers env c))) @ body (c_res (prepare_buffers env c)) =
    response_text env (c_add_keep_alive c) (c_res c)"
proof -
  obtain r2 where r2: "settle_status (c_res c) = (status_line (code (c_res c)), r2)" "headers r2 = headers (c_res c)"
    "body r2 = sent_body (c_res c)" "manual_length_header r2 = manual_length_header (c_res c)"
    by (rule settle_status_eq)
  note defs = prepare_buffers_def response_text_def header_buffers_bytes
  show ?thesis
    by (cases "manual_length_header (c_res c) \<or> 0 < ci_count ''content-length'' (headers (c_res c))";
      cases "0 < ci_count ''server'' (headers (c_res c))"; cases "0 < ci_count ''date'' (headers (c_res c))";
      cases "c_add_keep_alive c")
      (use assms r2 in \<open>auto simp: defs Let_def\<close>)
qed

lemma prepare_buffers_fields [simp]:
  "write_op (prepare_buffers env c) = write_op c" "wire (prepare_buffers env c) = wire c"
  "is_reading (prepare_buffers env c) = is_reading c" "deleted (prepare_buffers env c) = deleted c"
  "c_close_connection (prepare_buffers env c) = c_close_connection c"
  "need_to_start_read_after_complete (prepare_buffers env c) = need_to_start_read_after_complete c"
  by (simp_all add: prepare_buffers_def Let_def split: prod.split)

lemma prepare_buffers_body: "sock_open (adaptor c) \<Longrightarrow> body (c_res (prepare_buffers env c)) = sent_body (c_res c)"
proof -
  obtain r2 where "settle_status (c_res c) = (status_line (code (c_res c)), r2)" "body r2 = sent_body (c_res c)"
    by (rule settle_status_eq)
  then show "sock_open (adaptor c) \<Longrightarrow> ?thesis" by (simp add: prepare_buffers_def Let_def)
qed

lemma prepare_buffers_file: "file_info (c_res (prepare_buffers env c)) = file_info (c_res c)"
proof -
  obtain r2 where "settle_status (c_res c) = (status_line (code (c_res c)), r2)" "file_info r2 = file_info (c_res c)"
    by (rule settle_status_eq)
  then show ?thesis by (simp add: prepare_buffers_def Let_def)
qed

lemma stream_loop_wire:
  "sends env \<Longrightarrow> write_op c = None \<Longrightarrow> stream_loop env rest c = Ret (c\<lparr>wire := wire c @ rest\<rparr>)"
proof (induction env rest c rule: stream_loop.induct)
  case (1 env rest c)
  show ?case
  proof (cases "length rest > 16384")
    case True
    with 1 show ?thesis by (subst stream_loop.simps) (simp add: do_write_sync_def)
  next
    case False
    with 1 show ?thesis by (subst stream_loop.simps) (simp add: do_write_sync_def)
  qed
qed

lemma finish_sync_defined:
  assumes "write_op c = None" "\<not> deleted c" "is_reading c \<or> \<not> c_close_connection c"
  obtains c' where "finish_sync c = Ret c'" "wire c' = wire c" "write_op c' = None"
proof -
  let ?c = "close_after_write (c\<lparr>is_writing := False\<rparr>)"
  have c: "\<not> deleted ?c" "write_op ?c = None" "wire ?c = wire c"
    using assms by (auto simp: close_after_write_def check_destroy_def)
  show thesis
    by (rule that [of "?c\<lparr>c_res := clear (end_response (c_res ?c)), buffers := []\<rparr>"])
      (simp_all add: finish_sync_def alive_def set_res_def c)
qed

text \<open>C32: What goes out for a response is the text of the response, whether it is sent in one asynchronous
  write or streamed in blocks of 16384 bytes: the status line of its code (of 500 for an unknown code),
  every header, a length, a server and a date unless the response has its own, and the body (the reason
  for an error without one), whose length is the announced one.\<close>

theorem response_sent:
  assumes "sock_open (adaptor c)" "write_op c = None" "\<not> deleted c" "is_reading c \<or> \<not> c_close_connection c"
    and "\<not> need_to_start_read_after_complete c" "sends env"
    and "get_header_value (headers (c_res c)) ''Location'' = []" "\<not> is_static_type (c_res c)"
  shows "\<exists>c'. complete_request env c = Ret c' \<and>
    transmitted c' = wire c @ response_text env (c_add_keep_alive c) (c_res c)"
proof -
  let ?c = "prepare_buffers env (c\<lparr>need_to_call_after_handlers := False\<rparr>)"
  have t: "concat (map bytes (buffers ?c)) @ body (c_res ?c) = response_text env (c_add_keep_alive c) (c_res c)"
    using prepare_buffers_text [of "c\<lparr>need_to_call_after_handlers := False\<rparr>" env] assms(1) by simp
  have e: "complete_request env c = do_write_general env ?c"
    using assms(7,8) prepare_buffers_file [of env "c\<lparr>need_to_call_after_handlers := False\<rparr>"]
    by (simp add: complete_request_def complete_location_def Let_def is_static_type_def)
  show ?thesis
  proof (cases "length (body (c_res ?c)) < stream_threshold env")
    case True
    then show ?thesis unfolding e using assms(2,5) t
      by (simp add: do_write_general_def do_write_def transmitted_def Let_def)
  next
    case False
    define c1 where "c1 = ?c\<lparr>is_writing := True, wire := wire c @ concat (map bytes (buffers ?c)) @ body (c_res ?c),
      c_res := (c_res ?c)\<lparr>body := []\<rparr>\<rparr>"
    have "do_write_general env ?c = finish_sync c1"
    proof (cases "body (c_res ?c) = []")
      case True
      then have "c1 = ?c\<lparr>is_writing := True, wire := wire c @ concat (map bytes (buffers ?c))\<rparr>" by (simp add: c1_def)
      with False True assms(2,6) show ?thesis by (simp add: do_write_general_def do_write_sync_def)
    next
      case nonempty: False
      with False assms(2,6) show ?thesis
        by (simp add: do_write_general_def do_write_sync_def stream_loop_wire c1_def)
    qed
    moreover obtain c' where "finish_sync c1 = Ret c'" "wire c' = wire c1" "write_op c' = None"
      by (rule finish_sync_defined [of c1]) (use assms in \<open>simp_all add: c1_def\<close>)
    ultimately show ?thesis unfolding e using t by (simp add: transmitted_def c1_def)
  qed
qed

theorem response_sent_witness:
  "\<exists>c'. complete_request quiet_server ((handler first_connection)\<lparr>c_res := new_response\<lparr>body := ''hi''\<rparr>\<rparr>) = Ret c' \<and>
    transmitted c' = ''HTTP/1.1 200 OK'' @ crlf @ ''Content-Length: 2'' @ crlf @ ''Server: Crow'' @ crlf @ ''Date: now'' @ crlf @
      crlf @ ''hi''"
proof -
  let ?c = "(handler first_connection)\<lparr>c_res := new_response\<lparr>body := ''hi''\<rparr>\<rparr>"
  note defs = first_connection_def new_HTTPParser_def http_parser_init_def new_connection_def new_response_def
  have n: "show_nat (length ''hi'') = ''2''" by code_simp
  have t: "response_text quiet_server False (c_res ?c) = ''HTTP/1.1 200 OK'' @ crlf @ ''Content-Length: 2'' @ crlf @
      ''Server: Crow'' @ crlf @ ''Date: now'' @ crlf @ crlf @ ''hi''"
    by (simp add: defs quiet_server_def ci_count_def response_text_def status_line_def sent_body_def statusCodes_def n [simplified])
  have "wire ?c = []" "\<not> c_add_keep_alive ?c" by (simp_all add: defs)
  with t response_sent [of ?c quiet_server] show ?thesis
    by (simp add: defs quiet_server_def get_header_value_def ci_count_def is_static_type_def no_file_def)
qed

section \<open>Static files\<close>

lemma static_loop_blocks:
  "sends env \<Longrightarrow> write_op c = None \<Longrightarrow> length buf = 16384 \<Longrightarrow>
    \<exists>pad. static_loop env contents buf c = Ret (c\<lparr>wire := wire c @ contents @ pad\<rparr>) \<and>
      length (contents @ pad) = 16384 * ((length contents + 16383) div 16384)"
proof (induction env contents buf c rule: static_loop.induct)
  case (1 env contents buf c)
  show ?case
  proof (cases "contents = []")
    case True
    have "c\<lparr>wire := wire c @ [] @ []\<rparr> = c" by simp
    with True show ?thesis by (subst static_loop.simps) (intro exI [of _ "[]"], simp)
  next
    case False
    let ?buf = "take 16384 contents @ drop (length (take 16384 contents)) buf"
    let ?c = "c\<lparr>wire := wire c @ ?buf\<rparr>"
    have len: "length ?buf = 16384" using 1(4) by simp
    have l: "static_loop env contents buf c = static_loop env (drop 16384 contents) ?buf ?c"
      using False 1(2,3) by (subst static_loop.simps) (simp add: do_write_sync_def Let_def)
    obtain pad where pad: "static_loop env (drop 16384 contents) ?buf ?c =
        Ret (?c\<lparr>wire := wire ?c @ drop 16384 contents @ pad\<rparr>)"
      "length (drop 16384 contents @ pad) = 16384 * ((length (drop 16384 contents) + 16383) div 16384)"
      using 1(1) [OF False refl refl 1(2) _ len, of ?c] 1(3) by auto
    show ?thesis
    proof (cases "length contents \<le> 16384")
      case True
      then have "pad = []" using pad(2) by simp
      with True pad l have "static_loop env contents buf c = Ret (c\<lparr>wire := wire c @ contents @ drop (length contents) buf\<rparr>)"
        by simp
      moreover have "length (contents @ drop (length contents) buf) = 16384 * ((length contents + 16383) div 16384)"
        using True False 1(4) by (cases contents) (auto simp: Suc_div_le_mono le_div_geq)
      ultimately show ?thesis by blast
    next
      case big: False
      have "wire c @ ?buf @ drop 16384 contents @ pad = wire c @ contents @ pad"
        using big append_take_drop_id [of 16384 contents] by (metis append.assoc append_Nil2 drop_all len length_take min.absorb2 nat_le_linear 1(4))
      with pad l have "static_loop env contents buf c = Ret (c\<lparr>wire := wire c @ contents @ pad\<rparr>)" by simp
      moreover have "length (contents @ pad) = 16384 * ((length contents + 16383) div 16384)"
        using pad(2) big by (simp add: le_div_geq)
      ultimately show ?thesis by blast
    qed
  qed
qed

text \<open>C33: A static file is announced with its size, but sent in whole blocks of 16384 bytes: the file, and
  behind it whatever the rest of the last block of memory holds.\<close>

theorem static_file_blocks:
  assumes "c_res c = set_static_file_info_unsafe stat path new_response" "path \<noteq> []" "stat (c_str path) = Some (length contents)"
    and "read_file env (c_str path) = Some contents" "length (stack_bytes env) = 16384" "sends env"
    and "sock_open (adaptor c)" "write_op c = None" "\<not> deleted c" "is_reading c \<or> \<not> c_close_connection c"
  shows "get_header_value (headers (c_res c)) ''Content-Length'' = show_nat (length contents) \<and>
    (\<exists>c' head pad. complete_request env c = Ret c' \<and> wire c' = wire c @ head @ contents @ pad \<and>
      response_text env (c_add_keep_alive c) (c_res c) = head @ sent_body (c_res c) \<and>
      length (contents @ pad) = 16384 * ((length contents + 16383) div 16384))"
proof -
  let ?c = "prepare_buffers env (c\<lparr>need_to_call_after_handlers := False\<rparr>)"
  let ?head = "concat (map bytes (buffers ?c))"
  have f: "file_info (c_res c) = \<lparr>sf_path = path, sf_size = length contents, statResult = 0\<rparr>"
    "get_header_value (headers (c_res c)) ''Content-Length'' = show_nat (length contents)"
    "get_header_value (headers (c_res c)) ''Location'' = []"
    using assms(1,3)
    by (auto simp: set_static_file_info_unsafe_def Let_def add_response_header_def get_header_value_def ci_count_def
        ci_find_def ci_emplace_def ci_key_eq_iff to_upper_def new_response_def split: option.split)
  have pf: "file_info (c_res ?c) = file_info (c_res c)"
    using prepare_buffers_file [of env "c\<lparr>need_to_call_after_handlers := False\<rparr>"] by simp
  have e: "complete_request env c = do_write_static env ?c"
    using f pf assms(2) by (simp add: complete_request_def complete_location_def Let_def is_static_type_def)
  let ?c1 = "?c\<lparr>is_writing := True, wire := wire c @ ?head\<rparr>"
  obtain pad where pad: "static_loop env contents (stack_bytes env) ?c1 = Ret (?c1\<lparr>wire := wire ?c1 @ contents @ pad\<rparr>)"
    "length (contents @ pad) = 16384 * ((length contents + 16383) div 16384)"
    using static_loop_blocks [of env ?c1 "stack_bytes env" contents] assms(5,6,8) by auto
  let ?c2 = "?c1\<lparr>wire := wire ?c1 @ contents @ pad\<rparr>"
  obtain c' where c': "finish_sync ?c2 = Ret c'" "wire c' = wire ?c2" "write_op c' = None"
    by (rule finish_sync_defined [of ?c2]) (use assms in simp_all)
  have "do_write_static env ?c = Ret c'"
    using f pf assms(4,6,8) pad(1) c'(1) by (simp add: do_write_static_def do_write_sync_def)
  moreover have "response_text env (c_add_keep_alive c) (c_res c) = ?head @ sent_body (c_res c)"
    using prepare_buffers_text [of "c\<lparr>need_to_call_after_handlers := False\<rparr>" env]
      prepare_buffers_body [of "c\<lparr>need_to_call_after_handlers := False\<rparr>" env] assms(7) by simp
  ultimately show ?thesis using e f(2) c'(2) pad(2) by auto
qed

theorem static_file_blocks_witness:
  "\<exists>c' head pad. complete_request (quiet_server\<lparr>read_file := (\<lambda>path. Some ''data''), stack_bytes := replicate 16384 CHR ''#''\<rparr>)
      ((handler first_connection)\<lparr>c_res := set_static_file_info_unsafe (\<lambda>path. Some (length ''data'')) ''a.txt'' new_response\<rparr>) = Ret c' \<and>
    wire c' = head @ ''data'' @ pad \<and> length (''data'' @ pad) = 16384"
proof -
  let ?env = "quiet_server\<lparr>read_file := (\<lambda>path. Some ''data''), stack_bytes := replicate 16384 CHR ''#''\<rparr>"
  let ?c = "(handler first_connection)\<lparr>c_res := set_static_file_info_unsafe (\<lambda>path. Some (length ''data'')) ''a.txt'' new_response\<rparr>"
  have "wire ?c = []" "sock_open (adaptor ?c)" "write_op ?c = None" "\<not> deleted ?c" "\<not> c_close_connection ?c"
    by (simp_all add: first_connection_def new_HTTPParser_def http_parser_init_def new_connection_def)
  then show ?thesis
    using static_file_blocks [of ?c "\<lambda>path. Some (length ''data'')" "''a.txt''" "''data''" ?env]
    by (auto simp: quiet_server_def)
qed

section \<open>Clients without an answer\<close>

text \<open>What a server without other protocols does with a request to upgrade.\<close>

definition no_upgrade :: "crow_request \<Rightarrow> response \<Rightarrow> response \<times> bool" where
  "no_upgrade rq r = (assign (response_code 404) r, True)"

definition wants_upgrade :: "conn \<Rightarrow> bool" where
  "wants_upgrade p \<longleftrightarrow> upgrade p \<and> take 2 (get_header_value (p_headers p) ''upgrade'') \<noteq> ''h2''"

lemma complete_request_overlap:
  assumes "write_op c \<noteq> None"
  shows "complete_request env c = UB"
proof -
  let ?c = "c\<lparr>need_to_call_after_handlers := False\<rparr>"
  have ub: "do_write_static env c2 = UB" "do_write_general env c2 = UB" if "write_op c2 \<noteq> None" for c2
    using that by (simp_all add: do_write_static_def do_write_general_def do_write_sync_def do_write_def Let_def)
  show ?thesis
  proof (cases "complete_location ?c")
    case (Ret c1)
    then have "write_op c1 \<noteq> None"
      using assms by (auto simp: complete_location_def Let_def split: if_splits dest!: set_res_Ret)
    with Ret ub show ?thesis by (simp add: complete_request_def Let_def)
  next
    case (Throw e)
    then show ?thesis by (auto simp: complete_location_def Let_def set_res_def split: option.splits if_splits)
  next
    case UB
    then show ?thesis by (simp add: complete_request_def)
  qed
qed



text \<open>A client that closes while the end of its write waits to be handled: the connection stays, with nothing
  in flight and no deadline.\<close>

lemma connection_leaks:
  assumes "run_events [(env, Read_done True ''x''), (env', Write_done False 0)] p = Ret p'"
    and "state p = s_start_req" "http_errno p = CHPE_OK" "is_writing (handler p)" "\<not> c_close_connection (handler p)"
  shows "\<not> deleted (handler p') \<and> \<not> read_op (handler p') \<and> write_op (handler p') = None \<and>
    timer (handler p') = cancel (task_id (handler p)) (timer (handler p))"
  using assms
  by (auto simp: enabled_def apply_event_def on_connection_def outcome_simps alive_def read_done_def close_read_def
      done_parsing_def feed_def http_parser_execute_def execute_eof_def Let_def cancel_deadline_timer_def
      check_destroy_def write_done_def set_res_def split: if_splits option.splits)

end
