(* ===== verification/Request_Text.thy ===== *)
theory Request_Text
  imports Parser_Theorems Connection
begin

text \<open>
  What the parser makes of the text of a request: the bytes that a client writes for a method, a URL,
  headers and a body are read back as this method, URL, headers and body. Each lemma follows the loop
  over one part of the text (\<open>exec_loop\<close> from the locals before the part to those behind it).
\<close>

section \<open>The text of a request\<close>

definition header_text :: "string \<times> string \<Rightarrow> string" where
  "header_text = (\<lambda>(k, v). k @ '': '' @ v @ crlf)"

definition length_header :: "string \<Rightarrow> (string \<times> string) list" where
  "length_header b = (if b = [] then [] else [(''Content-Length'', show_nat (length b))])"

definition request_text :: "http_method \<Rightarrow> string \<Rightarrow> (string \<times> string) list \<Rightarrow> string \<Rightarrow> string" where
  "request_text m u hs b =
     method_strings ! method_value m @ '' '' @ u @ '' HTTP/1.1'' @ crlf @
     concat (map header_text (hs @ length_header b)) @ crlf @ b"

section \<open>One byte\<close>

text \<open>The locals at byte \<open>i\<close>: every byte so far has been counted.\<close>

definition locals_at :: "nat \<Rightarrow> (mark \<Rightarrow> nat option) \<Rightarrow> nat option \<Rightarrow> 'p \<Rightarrow> 'p locals" where
  "locals_at i ms us q = \<lparr>par = q, pos = i, nread = of_nat i, marks = ms, url_start_mark = us\<rparr>"

abbreviation no_marks :: "mark \<Rightarrow> nat option" where
  "no_marks \<equiv> (\<lambda>_. None)"

lemma locals_at_fields [simp]:
  "par (locals_at i ms us q) = q" "pos (locals_at i ms us q) = i" "nread (locals_at i ms us q) = of_nat i"
  "marks (locals_at i ms us q) = ms" "url_start_mark (locals_at i ms us q) = us"
  by (simp_all add: locals_at_def)

lemma limit_settings [simp]: "max_header_size (parser_settings hh h) = 81920"
  by (simp add: parser_settings_def CROW_HTTP_MAX_HEADER_SIZE_def)

lemma callback_fields [simp]:
  "on_message_begin (parser_settings hh h) = cb_message_begin"
  "on_headers_complete (parser_settings hh h) = cb_headers_complete hh"
  "on_message_complete (parser_settings hh h) = cb_message_complete h"
  "on_url (parser_settings hh h) = cb_url"
  "on_body (parser_settings hh h) = cb_body"
  "on_header_field (parser_settings hh h) = cb_header_field"
  "on_header_value (parser_settings hh h) = cb_header_value"
  by (simp_all add: parser_settings_def)

lemma count_small:
  assumes "i + v \<le> 81920" "max_header_size S = 81920" "nread x = of_nat i"
  shows "count_header S v x k = k (x\<lparr>nread := of_nat (i + v)\<rparr>)"
proof -
  have "of_nat i + of_nat v = (of_nat (i + v) :: u32)" by simp
  moreover have "unat (of_nat (i + v) :: u32) = i + v" using assms(1) by (simp add: unat_of_nat del: of_nat_add)
  ultimately have "\<not> 81920 < (of_nat i + of_nat v :: u32)" using assms(1) by (simp add: word_less_nat_alt)
  then show ?thesis using assms(2,3) by (simp add: count_header_def Let_def)
qed

text \<open>A byte of the headers.\<close>

lemma exec_byte:
  assumes "parsing_header (state q)" "i < length data" "length data \<le> 81920" "max_header_size S = 81920"
  shows "exec_loop S data False (locals_at i ms us q) =
    (case step S data ((locals_at i ms us q)\<lparr>nread := of_nat (Suc i)\<rparr>) of
       Next x \<Rightarrow> exec_loop S data False (x\<lparr>pos := pos x + 1\<rparr>)
     | Again x \<Rightarrow> exec_loop S data True x
     | Failed x \<Rightarrow> Some (finish_error x)
     | Return er x \<Rightarrow> Some (Done er (par x))
     | Stuck \<Rightarrow> Some Undefined
     | Lost \<Rightarrow> Some Callback_undefined)"
  using assms count_small [of i 1 S "locals_at i ms us q" "step S data"]
  by (subst exec_loop.simps) (simp add: byte_step_def)

lemma exec_next:
  assumes "parsing_header (state q)" "i < length data" "length data \<le> 81920" "max_header_size S = 81920"
    and "step S data ((locals_at i ms us q)\<lparr>nread := of_nat (Suc i)\<rparr>) = Next x"
    and "x\<lparr>pos := pos x + 1\<rparr> = y"
  shows "exec_loop S data False (locals_at i ms us q) = exec_loop S data False y"
  using exec_byte [OF assms(1-4), of ms us] assms(5,6) by simp

lemma exec_again:
  assumes "step S data x = Next y"
  shows "exec_loop S data True x = exec_loop S data False (y\<lparr>pos := pos y + 1\<rparr>)"
  using assms by (subst exec_loop.simps) simp

lemma drop_appendD: "drop i xs = w @ r \<Longrightarrow> drop (i + length w) xs = r"
  by (metis add.commute append_eq_conv_conj drop_drop)

lemma exec_goto:
  assumes "drop i data = c # r" "length data \<le> 81920" "max_header_size S = 81920" "parsing_header (state q)"
    and "data ! i = c \<Longrightarrow>
      step S data ((locals_at i ms us q)\<lparr>nread := of_nat (Suc i)\<rparr>) = Next ((locals_at i ms' us' q')\<lparr>nread := of_nat (Suc i)\<rparr>)"
  shows "exec_loop S data False (locals_at i ms us q) = exec_loop S data False (locals_at (Suc i) ms' us' q')"
  using exec_next [OF assms(4) drop_lessD [OF assms(1)] assms(2,3) assms(5) refl] nth_via_drop [OF assms(1)]
  by (simp add: locals_at_def)

section \<open>The request line\<close>

text \<open>A parser between two requests.\<close>

definition fresh :: "'a http_parser_scheme \<Rightarrow> bool" where
  "fresh q \<longleftrightarrow> http_errno q = CHPE_OK \<and> state q = s_start_req \<and> saved_nread q = 0 \<and> \<not> lenient_http_headers q"

lemma fresh_new: "fresh (new_HTTPParser c)"
  by (simp add: fresh_def new_HTTPParser_def http_parser_init_def)

text \<open>The parser behind the first byte of a method.\<close>

definition begun :: "http_method \<Rightarrow> 'h HTTPParser \<Rightarrow> 'h HTTPParser" where
  "begun m q = clear_parser (q\<lparr>flags := no_flags, uses_transfer_encoding := False, content_length := -1, index := 1,
     pmethod := m, state := s_req_method\<rparr>)"

lemma start_marks: "state q = s_start_req \<Longrightarrow> marks (start_locals q) = no_marks"
  by (rule ext) (simp add: start_locals_def split: mark.split)

lemma exec_start:
  assumes "fresh q" "drop 0 data = c # r" "map_of first_methods c = Some m" "c \<noteq> CR" "c \<noteq> LF" "length data \<le> 81920"
  shows "exec_loop (parser_settings hh h) data False (start_locals q) =
    exec_loop (parser_settings hh h) data False (locals_at 1 no_marks None (begun m q))"
proof -
  have "start_locals q = locals_at 0 no_marks None q"
    using assms(1) start_marks [of q] by (simp add: fresh_def start_locals_def locals_at_def)
  moreover have "exec_loop (parser_settings hh h) data False (locals_at 0 no_marks None q) =
      exec_loop (parser_settings hh h) data False (locals_at (Suc 0) no_marks None (begun m q))"
    using assms first_methods_alpha [OF assms(3)]
    by (intro exec_goto [OF assms(2)])
      (simp_all add: fresh_def parsing_header_def step_def step_start_req_def notify_def cb_message_begin_def
        clear_parser_def upd_def begun_def locals_at_def Let_def)
  ultimately show ?thesis by simp
qed

text \<open>The other bytes of the method, and the space.\<close>

lemma exec_method_name:
  fixes q :: "'a http_parser_scheme"
  assumes "drop i data = w @ CHR '' '' # r" "method_run (pmethod q) i w = Some m" "CHR '' '' \<notin> set w" "CHR 0x00 \<notin> set w"
    and "state q = s_req_method" "index q = i" "i \<le> length (method_strings ! method_value (pmethod q))"
    and "length data \<le> 81920" "max_header_size S = 81920"
  shows "\<exists>j. exec_loop S data False (locals_at i no_marks None q) =
    exec_loop S data False (locals_at (Suc (i + length w)) no_marks None
      (q\<lparr>pmethod := m, index := j, state := s_req_spaces_before_url\<rparr>))"
  using assms(1-7)
proof (induction w arbitrary: i q)
  case Nil
  have n: "next_index i = Suc i" using Nil.prems(7) method_length [of "pmethod q"] by (simp add: next_index_def)
  have "at (method_strings ! method_value (pmethod q)) i = Some CHR 0x00" "m = pmethod q"
    using Nil.prems(2) by (auto simp: at_def split: if_splits)
  then have "exec_loop S data False (locals_at i no_marks None q) =
      exec_loop S data False (locals_at (Suc i) no_marks None (q\<lparr>pmethod := m, index := Suc i, state := s_req_spaces_before_url\<rparr>))"
    using Nil.prems n assms(8,9)
    by (intro exec_goto [of i data "CHR '' ''" r])
      (simp_all add: parsing_header_def step_def step_method_def Let_def upd_def goto_def locals_at_def)
  then show ?case by auto
next
  case (Cons c w)
  let ?s = "method_strings ! method_value (pmethod q)"
  have n: "next_index i = Suc i" using Cons.prems(7) method_length [of "pmethod q"] by (simp add: next_index_def)
  have c: "c \<noteq> CHR '' ''" "c \<noteq> CHR 0x00" using Cons.prems(3,4) by auto
  have d: "drop i data = c # w @ CHR '' '' # r" using Cons.prems(1) by simp
  have at_i: "at ?s i \<noteq> None" using Cons.prems(7) by (auto simp: at_def)
  obtain m1 where m1: "method_run m1 (Suc i) w = Some m" "Suc i \<le> length (method_strings ! method_value m1)"
    "exec_loop S data False (locals_at i no_marks None q) =
      exec_loop S data False (locals_at (Suc i) no_marks None (q\<lparr>pmethod := m1, index := Suc i\<rparr>))"
  proof (cases "at ?s i = Some c")
    case True
    have "i < length ?s" using True c Cons.prems(7) by (auto simp: at_def split: if_splits)
    moreover have "exec_loop S data False (locals_at i no_marks None q) =
        exec_loop S data False (locals_at (Suc i) no_marks None (q\<lparr>pmethod := pmethod q, index := Suc i\<rparr>))"
      using Cons.prems n c True assms(8,9)
      by (intro exec_goto [OF d])
        (simp_all add: parsing_header_def step_def step_method_def Let_def upd_def goto_def locals_at_def)
    ultimately show thesis using True Cons.prems(2) by (intro that [of "pmethod q"]) simp_all
  next
    case False
    with Cons.prems(2) obtain m1 where m1: "map_of method_switches (pmethod q, i, c) = Some m1"
      "method_run m1 (Suc i) w = Some m" "is_upper c \<or> c = CHR ''-''"
      by (auto split: if_splits option.splits)
    have "exec_loop S data False (locals_at i no_marks None q) =
        exec_loop S data False (locals_at (Suc i) no_marks None (q\<lparr>pmethod := m1, index := Suc i\<rparr>))"
      using Cons.prems n c False m1 at_i assms(8,9)
      by (intro exec_goto [OF d])
        (auto simp: parsing_header_def step_def step_method_def Let_def upd_def goto_def locals_at_def)
    with m1 method_switches_prefix(2) [OF m1(1)] show thesis by (intro that [of m1]) simp_all
  qed
  from Cons.IH [of "Suc i" "q\<lparr>pmethod := m1, index := Suc i\<rparr>"] m1(1,2) Cons.prems(3-5) drop_SucD [OF d]
  obtain j where "exec_loop S data False (locals_at (Suc i) no_marks None (q\<lparr>pmethod := m1, index := Suc i\<rparr>)) =
      exec_loop S data False (locals_at (Suc (Suc i + length w)) no_marks None
        (q\<lparr>pmethod := m, index := j, state := s_req_spaces_before_url\<rparr>))" by auto
  with m1(3) show ?case by auto
qed

text \<open>The URL: a path and maybe a query.\<close>

definition url_byte :: "char \<Rightarrow> bool" where
  "url_byte c \<longleftrightarrow> is_url_char c \<or> c = CHR ''?''"

lemma url_byte_not:
  "\<not> url_byte CHR '' ''" "\<not> url_byte CR" "\<not> url_byte LF" "\<not> url_byte TAB" "\<not> url_byte CHR 0x0C" "\<not> url_byte CHR 0x00"
  by (simp_all add: url_byte_def is_url_char_iff bval_def CR_def LF_def TAB_def)

lemma url_byteD:
  assumes "url_byte c"
  shows "c \<noteq> CHR '' ''" "c \<noteq> CR" "c \<noteq> LF" "c \<noteq> TAB" "c \<noteq> CHR 0x0C" "c \<noteq> CHR 0x00"
  using assms url_byte_not by auto

definition query_states :: "pstate set" where
  "query_states = {s_req_query_string_start, s_req_query_string}"

lemma noop_state:
  assumes "state q = s"
  shows "q\<lparr>state := s\<rparr> = q"
  unfolding assms [symmetric] by simp

lemma exec_query:
  fixes q :: "'a http_parser_scheme"
  assumes "drop i data = w @ r" "list_all url_byte w" "state q \<in> query_states" "length data \<le> 81920" "max_header_size S = 81920"
  shows "\<exists>s\<in>query_states. exec_loop S data False (locals_at i ms us q) =
    exec_loop S data False (locals_at (i + length w) ms us (q\<lparr>state := s\<rparr>))"
  using assms(1-3)
proof (induction w arbitrary: i q)
  case Nil
  then show ?case by (intro bexI [of _ "state q"]) simp_all
next
  case (Cons c w)
  have d: "drop i data = c # w @ r" using Cons.prems(1) by simp
  have c: "url_byte c" using Cons.prems(2) by simp
  have "step_url S data c ((locals_at i ms us q)\<lparr>nread := of_nat (Suc i)\<rparr>) =
      Next ((locals_at i ms us (q\<lparr>state := s_req_query_string\<rparr>))\<lparr>nread := of_nat (Suc i)\<rparr>)"
    using Cons.prems(3) c url_byteD [OF c] unfolding query_states_def
    by (elim insertE emptyE; cases "c = CHR ''?''")
      (simp_all add: step_url_def step_url_char_def parse_url_char_def url_byte_def upd_def locals_at_def Let_def)
  then have "exec_loop S data False (locals_at i ms us q) =
      exec_loop S data False (locals_at (Suc i) ms us (q\<lparr>state := s_req_query_string\<rparr>))"
    using Cons.prems(3) assms(4,5) unfolding query_states_def
    by (intro exec_goto [OF d]) (elim insertE emptyE; simp add: parsing_header_def step_def Let_def)+
  with Cons.IH [of "Suc i" "q\<lparr>state := s_req_query_string\<rparr>"] drop_SucD [OF d] Cons.prems(2)
  show ?case by (auto simp: query_states_def)
qed

lemma exec_path:
  fixes q :: "'a http_parser_scheme"
  assumes "drop i data = w @ r" "list_all is_url_char w" "state q = s_req_path" "length data \<le> 81920" "max_header_size S = 81920"
  shows "exec_loop S data False (locals_at i ms us q) = exec_loop S data False (locals_at (i + length w) ms us q)"
  using assms(1,2)
proof (induction w arbitrary: i)
  case (Cons c w)
  have d: "drop i data = c # w @ r" using Cons.prems(1) by simp
  have c: "url_byte c" "is_url_char c" using Cons.prems(2) by (simp_all add: url_byte_def)
  note noop_state [OF assms(3)]
  then have "exec_loop S data False (locals_at i ms us q) = exec_loop S data False (locals_at (Suc i) ms us q)"
    using assms(3-5) c url_byteD [OF c(1)]
    by (intro exec_goto [OF d])
      (auto simp: parsing_header_def step_def step_url_def step_url_char_def parse_url_char_def upd_def locals_at_def Let_def)
  with Cons.IH [of "Suc i"] drop_SucD [OF d] Cons.prems(2) show ?case by simp
qed simp

definition url_ok :: "string \<Rightarrow> bool" where
  "url_ok u \<longleftrightarrow> take 1 u = ''/'' \<and> list_all url_byte u"

definition url_path :: "string \<Rightarrow> string" where
  "url_path u = takeWhile (\<lambda>c. c \<noteq> CHR ''?'') u"

definition with_url :: "string \<Rightarrow> 'h HTTPParser \<Rightarrow> 'h HTTPParser" where
  "with_url u q = q\<lparr>p_raw_url := p_raw_url q @ u, state := s_req_http_start,
     qs_point := (if CHR ''?'' \<in> set u then of_nat (length (url_path u)) else qs_point q)\<rparr>"

lemma path_query:
  obtains "url_path u = u" "CHR ''?'' \<notin> set u"
  | v where "u = url_path u @ CHR ''?'' # v" "CHR ''?'' \<in> set u"
proof (cases "CHR ''?'' \<in> set u")
  case True
  then obtain ys zs where *: "u = ys @ CHR ''?'' # zs" "CHR ''?'' \<notin> set ys" by (auto dest: split_list_first)
  then have "url_path u = ys" unfolding url_path_def * by (subst takeWhile_append2) auto
  with * True show thesis by (intro that(2) [of zs]) simp_all
qed (use that(1) in \<open>auto simp: url_path_def takeWhile_eq_all_conv\<close>)

lemma path_bytes: "list_all url_byte u \<Longrightarrow> list_all is_url_char (url_path u)"
  by (auto simp: list_all_iff url_path_def url_byte_def dest: set_takeWhileD)

definition url_states_inside :: "pstate set" where
  "url_states_inside = insert s_req_path query_states"

text \<open>From behind the slash to the space.\<close>

lemma exec_url_rest:
  fixes q :: "'a http_parser_scheme"
  assumes "drop (Suc i) data = w @ r" "list_all url_byte w" "state q = s_req_path" "length data \<le> 81920" "max_header_size S = 81920"
  shows "\<exists>s\<in>url_states_inside. exec_loop S data False (locals_at (Suc i) ms (Some i) q) =
    exec_loop S data False (locals_at (Suc i + length w) ms (Some i) (q\<lparr>
      qs_point := (if CHR ''?'' \<in> set w then of_nat (Suc (length (url_path w))) else qs_point q), state := s\<rparr>))"
proof (cases rule: path_query [of w])
  case 1
  with exec_path [of "Suc i" data w r q S ms "Some i"] path_bytes [OF assms(2)] assms show ?thesis
    unfolding url_states_inside_def by (intro bexI [of _ s_req_path]) (simp_all add: noop_state)
next
  case (2 v)
  let ?w = "url_path w" let ?i = "Suc i + length ?w"
  let ?q = "q\<lparr>qs_point := of_nat (Suc (length ?w)), state := s_req_query_string_start\<rparr>"
  have d1: "drop (Suc i) data = ?w @ CHR ''?'' # v @ r" using assms(1) 2(1) by (metis append.assoc append_Cons)
  then have d2: "drop ?i data = CHR ''?'' # v @ r" by (rule drop_appendD)
  have v: "list_all url_byte v" using assms(2) by (subst (asm) 2(1)) simp
  have "exec_loop S data False (locals_at (Suc i) ms (Some i) q) = exec_loop S data False (locals_at ?i ms (Some i) q)"
    by (rule exec_path [OF d1 path_bytes [OF assms(2)] assms(3-5)])
  also have "\<dots> = exec_loop S data False (locals_at (Suc ?i) ms (Some i) ?q)"
    using assms(3-5)
    by (intro exec_goto [OF d2])
      (simp_all add: parsing_header_def step_def step_url_def step_url_char_def parse_url_char_def url_query_def
        is_url_char_iff bval_def CR_def LF_def TAB_def upd_def locals_at_def Let_def)
  finally have "exec_loop S data False (locals_at (Suc i) ms (Some i) q) =
      exec_loop S data False (locals_at (Suc ?i) ms (Some i) ?q)" .
  moreover obtain s where "s \<in> query_states" "exec_loop S data False (locals_at (Suc ?i) ms (Some i) ?q) =
      exec_loop S data False (locals_at (Suc ?i + length v) ms (Some i) (?q\<lparr>state := s\<rparr>))"
    using exec_query [OF drop_SucD [OF d2] v, of ?q S ms "Some i"] assms(4,5) by (auto simp: query_states_def)
  moreover have "Suc i + length w = Suc ?i + length v" using arg_cong [OF 2(1), of length] by simp
  ultimately show ?thesis using 2(2) unfolding url_states_inside_def by (intro bexI [of _ s]) (simp_all add: add.assoc)
qed

lemma exec_url:
  fixes q :: "'h HTTPParser"
  assumes "drop i data = u @ CHR '' '' # r" "url_ok u" "state q = s_req_spaces_before_url" "pmethod q \<noteq> M_Connect"
    and "http_errno q = CHPE_OK" "length data \<le> 81920"
  shows "exec_loop (parser_settings hh h) data False (locals_at i no_marks None q) =
    exec_loop (parser_settings hh h) data False (locals_at (Suc (i + length u)) no_marks (Some i) (with_url u q))"
proof -
  let ?S = "parser_settings hh h" let ?ms = "no_marks(Url := Some i)"
  obtain w where u: "u = CHR ''/'' # w" "list_all url_byte w" using assms(2) by (cases u) (auto simp: url_ok_def)
  have d: "drop i data = CHR ''/'' # w @ CHR '' '' # r" using assms(1) u(1) by simp
  let ?q = "q\<lparr>state := s_req_path\<rparr>"
  have "exec_loop ?S data False (locals_at i no_marks None q) = exec_loop ?S data False (locals_at (Suc i) ?ms (Some i) ?q)"
    using assms(3-6)
    by (intro exec_goto [OF d])
      (simp_all add: parsing_header_def step_def step_spaces_before_url_def step_url_char_def parse_url_char_def
        CR_def LF_def TAB_def set_mark_def set_url_start_def upd_def locals_at_def Let_def)
  also obtain s where s: "s \<in> url_states_inside" "\<dots> = exec_loop ?S data False (locals_at (Suc i + length w) ?ms (Some i) (?q\<lparr>
      qs_point := (if CHR ''?'' \<in> set w then of_nat (Suc (length (url_path w))) else qs_point ?q), state := s\<rparr>))"
    using exec_url_rest [OF drop_SucD [OF d] u(2), of ?q ?S ?ms] assms(6) by auto
  note s(2)
  also let ?q2 = "?q\<lparr>qs_point := (if CHR ''?'' \<in> set w then of_nat (Suc (length (url_path w))) else qs_point ?q), state := s\<rparr>"
  have d2: "drop (Suc i + length w) data = CHR '' '' # r"
    using assms(1) u(1) by (metis append_Cons append_eq_conv_conj drop_drop add.commute add_Suc length_Cons)
  have "slice data i (Suc i + length w - i) = u"
    using assms(1) u(1) by (simp add: slice_def)
  then have "step_url ?S data CHR '' '' ((locals_at (Suc i + length w) ?ms (Some i) ?q2)\<lparr>nread := of_nat (Suc (Suc i + length w))\<rparr>) =
      Next ((locals_at (Suc i + length w) no_marks (Some i) (with_url u q))\<lparr>nread := of_nat (Suc (Suc i + length w))\<rparr>)"
    using assms(5) u(1)
    by (simp add: step_url_def callback_data_def cb_url_def goto_def with_url_def url_path_def locals_at_def Let_def fun_eq_iff)
  then have "exec_loop ?S data False (locals_at (Suc i + length w) ?ms (Some i) ?q2) =
      exec_loop ?S data False (locals_at (Suc (Suc i + length w)) no_marks (Some i) (with_url u q))"
    using assms(6) s(1) unfolding url_states_inside_def query_states_def
    by (intro exec_goto [OF d2]) (elim insertE emptyE; simp add: parsing_header_def step_def Let_def)+
  finally show ?thesis using u(1) by simp
qed

text \<open>The version: a row of bytes, each with the state it leads to.\<close>

definition version_path :: "(pstate \<times> char \<times> pstate) list" where
  "version_path =
     [(s_req_http_start, CHR ''H'', s_req_http_H), (s_req_http_H, CHR ''T'', s_req_http_HT),
      (s_req_http_HT, CHR ''T'', s_req_http_HTT), (s_req_http_HTT, CHR ''P'', s_req_http_HTTP),
      (s_req_http_HTTP, CHR ''/'', s_req_http_major), (s_req_http_dot, CHR ''.'', s_req_http_minor),
      (s_req_http_end, CR, s_req_line_almost_done), (s_req_line_almost_done, LF, s_header_field_start)]"

lemma exec_version_byte:
  fixes q :: "'a http_parser_scheme"
  assumes "(state q, c, s) \<in> set version_path" "drop i data = c # r" "length data \<le> 81920" "max_header_size S = 81920"
  shows "exec_loop S data False (locals_at i ms us q) = exec_loop S data False (locals_at (Suc i) ms us (q\<lparr>state := s\<rparr>))"
proof -
  from assms(1) have "parsing_header (state q)" by (auto simp: version_path_def parsing_header_def)
  moreover from assms(1) have "step S data ((locals_at i ms us q)\<lparr>nread := of_nat (Suc i)\<rparr>) =
      Next ((locals_at i ms us (q\<lparr>state := s\<rparr>))\<lparr>nread := of_nat (Suc i)\<rparr>)" if "data ! i = c"
    using that unfolding version_path_def
    by (simp only: list.set insert_iff empty_iff Pair_inject prod.inject)
      (elim disjE conjE FalseE; simp add: step_def step_http_start_def step_http_def strict_check_def goto_def locals_at_def Let_def)
  ultimately show ?thesis by (intro exec_goto [OF assms(2-4)]) simp_all
qed

lemma exec_version_digit:
  fixes q :: "'a http_parser_scheme"
  assumes "drop i data = CHR ''1'' # r" "length data \<le> 81920" "max_header_size S = 81920"
  shows "state q = s_req_http_major \<Longrightarrow> exec_loop S data False (locals_at i ms us q) =
      exec_loop S data False (locals_at (Suc i) ms us (q\<lparr>http_major := 1, state := s_req_http_dot\<rparr>))"
    "state q = s_req_http_minor \<Longrightarrow> exec_loop S data False (locals_at i ms us q) =
      exec_loop S data False (locals_at (Suc i) ms us (q\<lparr>http_minor := 1, state := s_req_http_end\<rparr>))"
  using assms(2,3)
  by (rule exec_goto [OF assms(1)]; simp add: parsing_header_def step_def step_http_def is_num_def digit_value_def
      bval_def goto_def upd_def locals_at_def Let_def)+

lemma exec_version:
  fixes q :: "'a http_parser_scheme"
  assumes "drop i data = ''HTTP/1.1'' @ crlf @ r" "state q = s_req_http_start" "length data \<le> 81920" "max_header_size S = 81920"
  shows "exec_loop S data False (locals_at i ms us q) =
    exec_loop S data False (locals_at (i + 10) ms us (q\<lparr>http_major := 1, http_minor := 1, state := s_header_field_start\<rparr>))"
proof -
  have d: "drop i data = CHR ''H'' # CHR ''T'' # CHR ''T'' # CHR ''P'' # CHR ''/'' # CHR ''1'' # CHR ''.'' # CHR ''1'' # CR # LF # r"
    using assms(1) by (simp add: crlf_def)
  note d1 = drop_SucD [OF d] note d2 = drop_SucD [OF d1] note d3 = drop_SucD [OF d2] note d4 = drop_SucD [OF d3]
  note d5 = drop_SucD [OF d4] note d6 = drop_SucD [OF d5] note d7 = drop_SucD [OF d6] note d8 = drop_SucD [OF d7]
  note d9 = drop_SucD [OF d8]
  note byte = exec_version_byte [OF _ _ assms(3,4), where ms = ms and us = us]
    and digit = exec_version_digit [OF _ assms(3,4), where ms = ms and us = us]
  show ?thesis
    using byte [OF _ d, of q s_req_http_H] byte [OF _ d1, of "q\<lparr>state := s_req_http_H\<rparr>" s_req_http_HT]
      byte [OF _ d2, of "q\<lparr>state := s_req_http_HT\<rparr>" s_req_http_HTT] byte [OF _ d3, of "q\<lparr>state := s_req_http_HTT\<rparr>" s_req_http_HTTP]
      byte [OF _ d4, of "q\<lparr>state := s_req_http_HTTP\<rparr>" s_req_http_major] digit(1) [OF d5, of "q\<lparr>state := s_req_http_major\<rparr>"]
      byte [OF _ d6, of "q\<lparr>http_major := 1, state := s_req_http_dot\<rparr>" s_req_http_minor]
      digit(2) [OF d7, of "q\<lparr>http_major := 1, state := s_req_http_minor\<rparr>"]
      byte [OF _ d8, of "q\<lparr>http_major := 1, http_minor := 1, state := s_req_http_end\<rparr>" s_req_line_almost_done]
      byte [OF _ d9, of "q\<lparr>http_major := 1, http_minor := 1, state := s_req_line_almost_done\<rparr>" s_header_field_start]
    by (simp add: assms(2) version_path_def eval_nat_numeral)
qed

end
