(* ===== verification/Request_Headers.thy ===== *)
theory Request_Headers
  imports Request_Text
begin

text \<open>
  The headers, the body and the whole request: continues \<open>Request_Text\<close>. A header that the parser acts on
  is recognised by its name in lower case (\<open>token\<close>), one byte at a time.
\<close>

section \<open>The name of a header\<close>

text \<open>What is known of the bytes \<open>w\<close> of a name so far, in lower case, from the state of the matching.\<close>

definition part_of :: "string \<Rightarrow> nat \<Rightarrow> string \<Rightarrow> bool" where
  "part_of w i name \<longleftrightarrow> w = take (Suc i) name \<and> Suc i < length name"

definition name_inv :: "string \<Rightarrow> header_state \<Rightarrow> nat \<Rightarrow> bool" where
  "name_inv w h i \<longleftrightarrow> (case h of
     h_general \<Rightarrow> True
   | h_C \<Rightarrow> w = ''c'' \<and> i = 0
   | h_CO \<Rightarrow> w = ''co'' \<and> i = 1
   | h_CON \<Rightarrow> w = ''con'' \<and> i = 2
   | h_matching_connection \<Rightarrow> part_of w i ''connection''
   | h_matching_proxy_connection \<Rightarrow> part_of w i ''proxy-connection''
   | h_matching_content_length \<Rightarrow> part_of w i ''content-length''
   | h_matching_transfer_encoding \<Rightarrow> part_of w i ''transfer-encoding''
   | h_matching_upgrade \<Rightarrow> part_of w i ''upgrade''
   | h_connection \<Rightarrow> w = ''connection'' \<or> w = ''proxy-connection''
   | h_content_length \<Rightarrow> w = ''content-length''
   | h_transfer_encoding \<Rightarrow> w = ''transfer-encoding''
   | h_upgrade \<Rightarrow> w = ''upgrade''
   | _ \<Rightarrow> False)"

lemma match_name_inv:
  assumes "part_of w i name" "c \<noteq> CHR 0x00" "length name < 30" "match_name name this done_state h_general c i = (j, h)"
  shows "h = h_general \<or> h = this \<and> part_of (w @ [c]) j name \<or> h = done_state \<and> w @ [c] = name"
proof -
  have i: "Suc i < length name" "w = take (Suc i) name" and n: "next_index i = Suc i"
    using assms(1,3) by (simp_all add: part_of_def next_index_def)
  show ?thesis
  proof (cases "name ! Suc i = c")
    case True
    with i have "w @ [c] = take (Suc (Suc i)) name" by (simp add: take_Suc_conv_app_nth)
    with True i n assms(4) show ?thesis
      by (auto simp: match_name_def at_def part_of_def Let_def split: if_splits)
  next
    case False
    with i n assms(4) show ?thesis by (auto simp: match_name_def at_def Let_def split: if_splits)
  qed
qed

lemma field_char_matching:
  assumes "part_of w (index q) name" "c \<noteq> CHR 0x00" "length name < 30"
    and "field_char S data p ch c q =
      (case match_name name (header_state q) done_state h_general c (index q) of (j, h) \<Rightarrow>
         Some (p, q\<lparr>index := j, header_state := h, uses_transfer_encoding := g h\<rparr>))"
    and "\<And>j. part_of (w @ [c]) j name \<Longrightarrow> name_inv (w @ [c]) (header_state q) j \<and> g (header_state q) = uses_transfer_encoding q"
    and "\<And>j. w @ [c] = name \<Longrightarrow> name_inv (w @ [c]) done_state j \<and>
      (g done_state = uses_transfer_encoding q \<or> w @ [c] = ''transfer-encoding'')"
    and "g h_general = uses_transfer_encoding q"
  shows "\<exists>h i te. field_char S data p ch c q = Some (p, q\<lparr>index := i, header_state := h, uses_transfer_encoding := te\<rparr>) \<and>
    name_inv (w @ [c]) h i \<and> (te = uses_transfer_encoding q \<or> w @ [c] = ''transfer-encoding'')"
proof -
  obtain j h where m: "match_name name (header_state q) done_state h_general c (index q) = (j, h)" by fastforce
  from match_name_inv [OF assms(1-3) m] consider "h = h_general" | "h = header_state q" "part_of (w @ [c]) j name"
    | "h = done_state" "w @ [c] = name" by blast
  then show ?thesis
  proof cases
    case 1
    with m assms(4,7) show ?thesis by (intro exI [of _ h] exI [of _ j] exI [of _ "g h"]) (simp add: name_inv_def)
  next
    case 2
    with m assms(4,5) show ?thesis by (intro exI [of _ h] exI [of _ j] exI [of _ "g h"]) simp
  next
    case 3
    with m assms(4,6) show ?thesis by (intro exI [of _ h] exI [of _ j] exI [of _ "g h"]) simp
  qed
qed

lemma field_char_to:
  assumes "field_char S data p ch c q = Some (p, q\<lparr>index := i, header_state := h\<rparr>)" "name_inv (w @ [c]) h i"
  shows "\<exists>h i te. field_char S data p ch c q = Some (p, q\<lparr>index := i, header_state := h, uses_transfer_encoding := te\<rparr>) \<and>
    name_inv (w @ [c]) h i \<and> (te = uses_transfer_encoding q \<or> w @ [c] = ''transfer-encoding'')"
  using assms by (intro exI [of _ h] exI [of _ i] exI [of _ "uses_transfer_encoding q"]) simp

lemma name_inv_general [simp]: "name_inv w h_general i"
  by (simp add: name_inv_def)

lemma field_char_inv:
  assumes "name_inv w (header_state q) (index q)" "header_state q \<noteq> h_general" "c \<noteq> CHR 0x00" "ch \<noteq> CHR '' ''"
  shows "\<exists>h i te. field_char S data p ch c q = Some (p, q\<lparr>index := i, header_state := h, uses_transfer_encoding := te\<rparr>) \<and>
    name_inv (w @ [c]) h i \<and> (te = uses_transfer_encoding q \<or> w @ [c] = ''transfer-encoding'')"
proof (cases "header_state q")
  case h_matching_connection
  show ?thesis
    by (rule field_char_matching [where name = "''connection''" and done_state = h_connection and g = "\<lambda>_. uses_transfer_encoding q"])
      (use assms h_matching_connection in \<open>simp_all add: name_inv_def field_char_def Let_def split: prod.split\<close>)
next
  case h_matching_proxy_connection
  show ?thesis
    by (rule field_char_matching [where name = "''proxy-connection''" and done_state = h_connection and g = "\<lambda>_. uses_transfer_encoding q"])
      (use assms h_matching_proxy_connection in \<open>simp_all add: name_inv_def field_char_def Let_def split: prod.split\<close>)
next
  case h_matching_content_length
  show ?thesis
    by (rule field_char_matching [where name = "''content-length''" and done_state = h_content_length and g = "\<lambda>_. uses_transfer_encoding q"])
      (use assms h_matching_content_length in \<open>simp_all add: name_inv_def field_char_def Let_def split: prod.split\<close>)
next
  case h_matching_transfer_encoding
  show ?thesis
    by (rule field_char_matching [where name = "''transfer-encoding''" and done_state = h_transfer_encoding
          and g = "\<lambda>h. h = h_transfer_encoding \<or> uses_transfer_encoding q"])
      (use assms h_matching_transfer_encoding in \<open>simp_all add: name_inv_def field_char_def Let_def split: prod.split\<close>)
next
  case h_matching_upgrade
  show ?thesis
    by (rule field_char_matching [where name = "''upgrade''" and done_state = h_upgrade and g = "\<lambda>_. uses_transfer_encoding q"])
      (use assms h_matching_upgrade in \<open>simp_all add: name_inv_def field_char_def Let_def split: prod.split\<close>)
next
  case h_C
  with assms show ?thesis
    by (intro field_char_to [where h = "if c = CHR ''o'' then h_CO else h_general" and i = 1])
      (simp_all add: name_inv_def field_char_def next_index_def)
next
  case h_CO
  with assms show ?thesis
    by (intro field_char_to [where h = "if c = CHR ''n'' then h_CON else h_general" and i = 2])
      (simp_all add: name_inv_def field_char_def next_index_def)
next
  case h_CON
  with assms show ?thesis
    by (intro field_char_to [where i = 3 and h = "if c = CHR ''n'' then h_matching_connection
          else if c = CHR ''t'' then h_matching_content_length else h_general"])
      (simp_all add: name_inv_def part_of_def field_char_def next_index_def)
next
  case h_connection
  with assms show ?thesis
    by (intro field_char_to [where h = h_general and i = "index q"]) (simp_all add: field_char_def)
next
  case h_content_length
  with assms show ?thesis
    by (intro field_char_to [where h = h_general and i = "index q"]) (simp_all add: field_char_def)
next
  case h_transfer_encoding
  with assms show ?thesis
    by (intro field_char_to [where h = h_general and i = "index q"]) (simp_all add: field_char_def)
next
  case h_upgrade
  with assms show ?thesis
    by (intro field_char_to [where h = h_general and i = "index q"]) (simp_all add: field_char_def)
qed (use assms in \<open>simp_all add: name_inv_def\<close>)

text \<open>The loop over a name is a fold over its bytes.\<close>

definition name_step :: "'a pset \<Rightarrow> 'a http_parser_scheme \<Rightarrow> char \<Rightarrow> 'a http_parser_scheme" where
  "name_step S q ch =
     (if header_state q = h_general then q
      else (case field_char S [] 0 ch (token ch) q of Some (_, q') \<Rightarrow> q' | None \<Rightarrow> q))"

lemma field_char_local:
  "header_state q \<noteq> h_general \<Longrightarrow>
    field_char S data p ch c q = map_option (\<lambda>(_, q'). (p, q')) (field_char S [] 0 ch c q)"
  by (cases "header_state q") (simp_all add: field_char_def Let_def split: prod.split)

lemma name_step_general: "header_state q = h_general \<Longrightarrow> name_step S q c = q"
  by (simp add: name_step_def)

lemma name_step_matching:
  "header_state q \<noteq> h_general \<Longrightarrow> field_char S [] 0 c (token c) q = Some (p, q') \<Longrightarrow> name_step S q c = q'"
  by (simp add: name_step_def)

lemma name_steps_general: "header_state q = h_general \<Longrightarrow> foldl (name_step S) q cs = q"
  by (induction cs) (simp_all add: name_step_general)

lemma noop_header_state:
  assumes "header_state q = h"
  shows "q\<lparr>header_state := h\<rparr> = q"
  unfolding assms [symmetric] by simp

definition token_bytes :: "string \<Rightarrow> bool" where
  "token_bytes k \<longleftrightarrow> list_all (\<lambda>c. token c \<noteq> CHR 0x00) k"

lemma not_tokens: "token CHR '':'' = CHR 0x00" "token CHR '' '' = CHR 0x00" "token CR = CHR 0x00" "token LF = CHR 0x00" "token TAB = CHR 0x00"
  by (simp_all add: token_def tokens_def bval_def CR_def LF_def TAB_def char_of_def)

lemma name_steps_inv:
  assumes "name_inv w (header_state q) (index q)" "token_bytes cs"
  shows "\<exists>h i te. foldl (name_step S) q cs = q\<lparr>index := i, header_state := h, uses_transfer_encoding := te\<rparr> \<and>
    name_inv (w @ map token cs) h i \<and>
    (te = uses_transfer_encoding q \<or> take 17 (w @ map token cs) = ''transfer-encoding'')"
  using assms
proof (induction cs arbitrary: w q)
  case Nil
  then show ?case by (intro exI [of _ "header_state q"] exI [of _ "index q"] exI [of _ "uses_transfer_encoding q"]) simp
next
  case (Cons c cs)
  show ?case
  proof (cases "header_state q = h_general")
    case True
    then show ?thesis
      by (intro exI [of _ h_general] exI [of _ "index q"] exI [of _ "uses_transfer_encoding q"])
        (simp add: name_steps_general name_step_general noop_header_state)
  next
    case False
    have c: "token c \<noteq> CHR 0x00" "c \<noteq> CHR '' ''" using Cons.prems(2) not_tokens(2) by (auto simp: token_bytes_def)
    obtain h i te where f: "field_char S [] 0 c (token c) q = Some (0, q\<lparr>index := i, header_state := h, uses_transfer_encoding := te\<rparr>)"
      "name_inv (w @ [token c]) h i" "te = uses_transfer_encoding q \<or> w @ [token c] = ''transfer-encoding''"
      using field_char_inv [OF Cons.prems(1) False c, of S "[]" 0] by blast
    let ?q = "q\<lparr>index := i, header_state := h, uses_transfer_encoding := te\<rparr>"
    have "foldl (name_step S) q (c # cs) = foldl (name_step S) ?q cs" using name_step_matching [OF False f(1)] by simp
    moreover from Cons.IH [of "w @ [token c]" ?q] f(2) Cons.prems(2) obtain h' i' te' where
      "foldl (name_step S) ?q cs = ?q\<lparr>index := i', header_state := h', uses_transfer_encoding := te'\<rparr>"
      "name_inv (w @ token c # map token cs) h' i'"
      "te' = te \<or> take 17 (w @ token c # map token cs) = ''transfer-encoding''"
      by (auto simp: token_bytes_def)
    moreover have "take 17 (w @ token c # map token cs) = ''transfer-encoding''" if "w @ [token c] = ''transfer-encoding''"
    proof -
      have "w @ token c # map token cs = (w @ [token c]) @ map token cs" by simp
      then show ?thesis unfolding that by simp
    qed
    ultimately show ?thesis using f(3) by (intro exI [of _ h'] exI [of _ i'] exI [of _ te']) auto
  qed
qed

lemma skip_tokens_run:
  assumes "drop (Suc p) data = cs @ c # r" "token_bytes cs" "token c = CHR 0x00" "Suc p + length cs \<le> pe"
  shows "skip_tokens data p pe = p + length cs"
  using assms
proof (induction cs arbitrary: p)
  case Nil
  then have "data ! Suc p = c" by (simp add: nth_via_drop)
  with Nil.prems show ?case by (subst skip_tokens.simps) simp
next
  case (Cons x cs)
  have d: "drop (Suc p) data = x # cs @ c # r" using Cons.prems(1) by simp
  with Cons.IH [of "Suc p"] Cons.prems(2-4) drop_SucD [OF d] nth_via_drop [OF d]
  show ?case by (subst skip_tokens.simps) (simp add: token_bytes_def)
qed

lemma field_loop_name:
  assumes "drop p data = cs @ c # r" "token_bytes cs" "token c = CHR 0x00" "name_inv w (header_state q) (index q)"
    and "length data \<le> 81920" "max_header_size S = 81920"
  shows "field_loop S data p q = Some (p + length cs, foldl (name_step S) q cs)"
  using assms(1,2,4)
proof (induction cs arbitrary: p q w)
  case Nil
  then show ?case using assms(3) drop_lessD [of p data c r] by (subst field_loop.simps) (simp add: nth_via_drop)
next
  case (Cons x cs)
  have d: "drop p data = x # cs @ c # r" using Cons.prems(1) by simp
  have len: "length data - p = Suc (length cs + Suc (length r))" using arg_cong [OF d, of length] by simp
  have x: "data ! p = x" "p < length data" "token x \<noteq> CHR 0x00" "x \<noteq> CHR '' ''"
    using nth_via_drop [OF d] drop_lessD [OF d] Cons.prems(2) not_tokens(2) by (auto simp: token_bytes_def)
  have cs: "token_bytes cs" using Cons.prems(2) by (simp add: token_bytes_def)
  show ?case
  proof (cases "header_state q = h_general")
    case True
    have "skip_tokens data p (p + min (length data - p) (unat (max_header_size S))) = p + length cs"
      using assms(3,5,6) len by (intro skip_tokens_run [OF drop_SucD [OF d] cs]) simp_all
    then have "field_char S data p x (token x) q = Some (p + length cs, q)" using True by (simp add: field_char_def)
    moreover have "drop (Suc (p + length cs)) data = c # r"
      using drop_SucD [OF d] by (metis add_Suc append_eq_conv_conj drop_drop add.commute)
    then have "field_loop S data (Suc (p + length cs)) q = Some (Suc (p + length cs), q)"
      using assms(3) drop_lessD [of "Suc (p + length cs)" data c r] by (subst field_loop.simps) (simp add: nth_via_drop)
    ultimately show ?thesis using x True by (subst field_loop.simps) (simp add: name_step_general name_steps_general)
  next
    case False
    obtain h i te where f: "field_char S [] 0 x (token x) q = Some (0, q\<lparr>index := i, header_state := h, uses_transfer_encoding := te\<rparr>)"
      "name_inv (w @ [token x]) h i"
      using field_char_inv [OF Cons.prems(3) False x(3,4), of S "[]" 0] by blast
    with field_char_local [OF False, of S data p x "token x"]
    have "field_char S data p x (token x) q = Some (p, q\<lparr>index := i, header_state := h, uses_transfer_encoding := te\<rparr>)" by simp
    with x Cons.IH [OF drop_SucD [OF d] cs, of "w @ [token x]" "q\<lparr>index := i, header_state := h, uses_transfer_encoding := te\<rparr>"] f
    show ?thesis by (subst field_loop.simps) (simp add: name_step_matching [OF False f(1)])
  qed
qed

section \<open>A header\<close>

text \<open>The fields of \<open>HTTPParser\<close> behind a header: the one before it is put into the map.\<close>

definition flush :: "'h HTTPParser \<Rightarrow> 'h HTTPParser" where
  "flush q = (if header_value q \<noteq> [] then q\<lparr>p_headers := p_headers q @ [(header_field q, header_value q)]\<rparr> else q)"

definition put_header :: "string \<times> string \<Rightarrow> 'h HTTPParser \<Rightarrow> 'h HTTPParser" where
  "put_header e q = (flush q)\<lparr>header_field := fst e, header_value := snd e, header_building_state := 0\<rparr>"

lemma cb_header_field_eq:
  "header_building_state q = 0 \<Longrightarrow>
    cb_header_field k q = Some (0, (flush q)\<lparr>header_field := k, header_value := [], header_building_state := 1\<rparr>)"
  by (cases "header_value q = []") (simp_all add: cb_header_field_def flush_def ci_emplace_def Let_def)

lemma cb_header_value_eq:
  "header_building_state q = 1 \<Longrightarrow> cb_header_value v q = Some (0, q\<lparr>header_value := v, header_building_state := 0\<rparr>)"
  by (simp add: cb_header_value_def)

lemma flush_fields [simp]:
  "state (flush q) = state q" "header_state (flush q) = header_state q" "http_errno (flush q) = http_errno q"
  "flags (flush q) = flags q" "content_length (flush q) = content_length q"
  "uses_transfer_encoding (flush q) = uses_transfer_encoding q" "lenient_http_headers (flush q) = lenient_http_headers q"
  "pmethod (flush q) = pmethod q"
  by (simp_all add: flush_def)

text \<open>The state in which the matching of a name starts.\<close>

definition named :: "char \<Rightarrow> 'a http_parser_scheme \<Rightarrow> 'a http_parser_scheme" where
  "named ch q = (let c = token ch in q\<lparr>index := 0, state := s_header_field,
     header_state := (if c = CHR ''c'' then h_C else if c = CHR ''p'' then h_matching_proxy_connection
       else if c = CHR ''t'' then h_matching_transfer_encoding else if c = CHR ''u'' then h_matching_upgrade
       else h_general)\<rparr>)"

lemma named_inv: "name_inv [token ch] (header_state (named ch q)) (index (named ch q))"
  by (simp add: named_def name_inv_def part_of_def Let_def)

lemma exec_name:
  fixes q :: "'h HTTPParser"
  assumes "drop i data = k @ '': '' @ r" "k \<noteq> []" "token_bytes k" "state q = s_header_field_start" "http_errno q = CHPE_OK"
    and "header_building_state q = 0" "length data \<le> 81920"
  shows "\<exists>h j te. foldl (name_step (parser_settings hh h0)) (named (hd k) q) (tl k) =
      (named (hd k) q)\<lparr>index := j, header_state := h, uses_transfer_encoding := te\<rparr> \<and>
    name_inv (map token k) h j \<and> (te = uses_transfer_encoding q \<or> take 17 (map token k) = ''transfer-encoding'') \<and>
    exec_loop (parser_settings hh h0) data False (locals_at i no_marks us q) =
    exec_loop (parser_settings hh h0) data False (locals_at (i + length k + 2) no_marks us
      ((flush q)\<lparr>index := j, header_state := h, uses_transfer_encoding := te, state := s_header_value_discard_ws,
         header_field := k, header_value := [], header_building_state := 1\<rparr>))"
proof -
  let ?S = "parser_settings hh h0" let ?ms = "no_marks(Header_field := Some i)"
  obtain c cs where k: "k = c # cs" using assms(2) by (cases k) auto
  have d: "drop i data = c # cs @ CHR '':'' # CHR '' '' # r" using assms(1) k by simp
  note d1 = drop_SucD [OF d]
  have c: "token c \<noteq> CHR 0x00" "c \<noteq> CR" "c \<noteq> LF" and cs: "token_bytes cs"
    using assms(3) not_tokens k by (auto simp: token_bytes_def)
  obtain h j te where f: "foldl (name_step ?S) (named c q) cs =
      (named c q)\<lparr>index := j, header_state := h, uses_transfer_encoding := te\<rparr>" "name_inv (map token k) h j"
    "te = uses_transfer_encoding q \<or> take 17 (map token k) = ''transfer-encoding''"
    using name_steps_inv [OF named_inv [of c q] cs, of ?S] k by (auto simp: named_def Let_def)
  let ?q = "(named c q)\<lparr>index := j, header_state := h, uses_transfer_encoding := te\<rparr>"
  let ?p = "Suc i + length cs"
  let ?r = "(flush q)\<lparr>index := j, header_state := h, uses_transfer_encoding := te, state := s_header_value_discard_ws,
      header_field := k, header_value := [], header_building_state := 1\<rparr>"
  have "exec_loop ?S data False (locals_at i no_marks us q) = exec_loop ?S data False (locals_at (Suc i) ?ms us (named c q))"
    using assms(4,7) c
    by (intro exec_goto [OF d])
      (simp_all add: parsing_header_def step_def step_header_field_start_def named_def set_mark_def upd_def locals_at_def Let_def)
  also have "\<dots> = exec_loop ?S data False (locals_at (Suc ?p) no_marks us ?r)"
  proof (rule exec_next)
    have len: "?p < length data" using arg_cong [OF d1, of length] by simp
    then show "Suc i < length data" by simp
    show "parsing_header (state (named c q))" by (simp add: parsing_header_def named_def Let_def)
    have loop: "field_loop ?S data (Suc i) (named c q) = Some (?p, ?q)"
      unfolding f(1) [symmetric] using assms(7) by (intro field_loop_name [OF d1 cs not_tokens(1) named_inv]) simp_all
    have colon: "data ! ?p = CHR '':''"
      using d1 by (metis add.commute append_eq_conv_conj drop_drop nth_via_drop)
    have "slice data i (?p - i) = k" using d k by (simp add: slice_def)
    then show "step ?S data ((locals_at (Suc i) ?ms us (named c q))\<lparr>nread := of_nat (Suc (Suc i))\<rparr>) =
        Next ((locals_at ?p no_marks us ?r)\<lparr>nread := of_nat (Suc ?p)\<rparr>)"
      using loop colon len assms(5-7)
      by (simp add: step_def step_header_field_def Let_def named_def locals_at_def callback_data_def goto_def
          count_small [of "Suc (Suc i)"] cb_header_field_eq flush_def fun_eq_iff)
  qed (use assms(7) in \<open>simp_all add: locals_at_def\<close>)
  also have "\<dots> = exec_loop ?S data False (locals_at (Suc (Suc ?p)) no_marks us ?r)"
  proof (rule exec_goto)
    show "drop (Suc ?p) data = CHR '' '' # r"
      using d1 by (metis add.commute add_Suc append_eq_conv_conj drop_SucD drop_drop)
  qed (use assms(7) in \<open>simp_all add: parsing_header_def step_def step_discard_ws_def locals_at_def Let_def\<close>)
  finally show ?thesis using f k by (intro exI [of _ h] exI [of _ j] exI [of _ te]) simp
qed

text \<open>What the loop over a value does when it has read to the end of the line at \<open>pe\<close>.\<close>

definition value_end ::
    "'a pset \<Rightarrow> string \<Rightarrow> nat \<Rightarrow> nat \<Rightarrow> header_state \<Rightarrow> 'a http_parser_scheme \<Rightarrow> 'a pl \<Rightarrow> 'a ps" where
  "value_end S data st pe h q x =
     callback_data S data Header_value pe (pe + 1)
       (x\<lparr>pos := pe, par := q\<lparr>state := s_header_almost_done, header_state := h\<rparr>\<rparr>)
       (\<lambda>x. count_header S (pe - st) ((upd (\<lambda>q. q\<lparr>header_state := h\<rparr>) x)\<lparr>pos := pe\<rparr>) Next)"

lemma value_loop_CR:
  assumes "drop p data = CR # r"
  shows "value_loop S data st h p x = value_end S data st p h (par x) x"
  using drop_lessD [OF assms] nth_via_drop [OF assms]
  by (subst value_loop.simps) (simp add: value_end_def upd_def Let_def)

definition value_bytes :: "string \<Rightarrow> bool" where
  "value_bytes v \<longleftrightarrow> list_all (\<lambda>c. is_header_char c \<and> c \<noteq> CR \<and> c \<noteq> LF) v"

lemma scan_general_run:
  assumes "drop p data = v @ CR # r" "value_bytes v" "v \<noteq> [] \<or> 0 < p" "p + length v < pe"
  shows "scan_general data lenient p pe = Inr (p + length v - 1)"
  using assms
proof (induction v arbitrary: p)
  case Nil
  then show ?case by (subst scan_general.simps) (simp add: nth_via_drop)
next
  case (Cons c v)
  have d: "drop p data = c # v @ CR # r" using Cons.prems(1) by simp
  with Cons.IH [of "Suc p"] Cons.prems(2,4) drop_SucD [OF d] nth_via_drop [OF d]
  show ?case by (subst scan_general.simps) (simp add: value_bytes_def)
qed

lemma value_loop_general:
  assumes "drop p data = v @ CR # r" "value_bytes v" "length data \<le> 81920" "max_header_size S = 81920"
  shows "value_loop S data st h_general p x = value_end S data st (p + length v) h_general (par x) x"
proof (cases v)
  case Nil
  then show ?thesis using assms(1) by (simp add: value_loop_CR)
next
  case (Cons c v')
  have d: "drop p data = c # v' @ CR # r" using assms(1) Cons by simp
  have len: "length data - p = Suc (length v' + Suc (length r))" using arg_cong [OF d, of length] by simp
  have e: "drop (p + length v) data = CR # r"
    by (rule drop_appendD [OF assms(1)])
  have "scan_general data l p (p + min (length data - p) (unat (max_header_size S))) = Inr (p + length v - 1)" for l
    using assms Cons len by (intro scan_general_run [OF assms(1,2)]) auto
  moreover have "c \<noteq> CR" "c \<noteq> LF" "is_header_char c" using assms(2) Cons by (simp_all add: value_bytes_def)
  moreover have "p + length v' < length data" using len by simp
  ultimately have "value_loop S data st h_general p x = value_loop S data st h_general (p + length v) x"
    using drop_lessD [OF d] nth_via_drop [OF d] Cons len
    by (subst value_loop.simps) (simp add: value_char_def Let_def)
  then show ?thesis using value_loop_CR [OF e] by simp
qed

lemma noop_content_length:
  assumes "content_length q = n"
  shows "q\<lparr>content_length := n\<rparr> = q"
  unfolding assms [symmetric] by simp

text \<open>A decimal number.\<close>

definition digit_bytes :: "string \<Rightarrow> bool" where
  "digit_bytes v \<longleftrightarrow> list_all is_num v"

definition decimal :: "nat \<Rightarrow> string \<Rightarrow> nat" where
  "decimal a v = foldl (\<lambda>n c. 10 * n + digit_value c) a v"

lemma digit_header_char: "is_num c \<Longrightarrow> is_header_char c \<and> c \<noteq> CR \<and> c \<noteq> LF \<and> c \<noteq> CHR '' '' \<and> c \<noteq> TAB"
  by (auto simp: is_num_def is_header_char_def CR_def LF_def TAB_def bval_def)

lemma decimal_ge: "a \<le> decimal a v"
proof (induction v arbitrary: a)
  case (Cons c v)
  have "a \<le> 10 * a + digit_value c" by simp
  also have "\<dots> \<le> decimal (10 * a + digit_value c) v" by (rule Cons.IH)
  finally show ?case by (simp add: decimal_def)
qed (simp add: decimal_def)

lemma length_guard:
  assumes "a < 2 ^ 32"
  shows "\<not> (-1 - 10) div 10 < (of_nat a :: u64)"
proof -
  have "unat (of_nat a :: u64) = a" using assms by (simp add: unat_of_nat)
  then show ?thesis using assms by (simp add: word_less_nat_alt)
qed

lemma value_loop_digits:
  assumes "drop p data = v @ CR # r" "digit_bytes v" "content_length (par x) = of_nat a" "decimal a v < 2 ^ 32"
  shows "value_loop S data st h_content_length_num p x =
    value_end S data st (p + length v) h_content_length_num ((par x)\<lparr>content_length := of_nat (decimal a v)\<rparr>) x"
  using assms
proof (induction v arbitrary: p x a)
  case Nil
  then show ?case by (simp add: value_loop_CR decimal_def noop_content_length)
next
  case (Cons c v)
  have d: "drop p data = c # v @ CR # r" using Cons.prems(1) by simp
  have c: "is_num c" and v: "digit_bytes v" using Cons.prems(2) by (simp_all add: digit_bytes_def)
  have a: "a < 2 ^ 32" using decimal_ge [of a "c # v"] Cons.prems(4) by simp
  let ?a = "10 * a + digit_value c"
  let ?x = "upd (\<lambda>q. q\<lparr>content_length := of_nat ?a\<rparr>) x"
  have "value_loop S data st h_content_length_num p x = value_loop S data st h_content_length_num (Suc p) ?x"
    using drop_lessD [OF d] nth_via_drop [OF d] c digit_header_char [OF c] Cons.prems(3) length_guard [OF a]
    by (subst value_loop.simps) (simp add: value_char_def upd_def Let_def mult.commute)
  also have "\<dots> = value_end S data st (Suc p + length v) h_content_length_num
      ((par ?x)\<lparr>content_length := of_nat (decimal ?a v)\<rparr>) ?x"
    using Cons.prems(4) drop_SucD [OF d] v by (intro Cons.IH) (simp_all add: upd_def decimal_def)
  finally show ?case by (simp add: value_end_def upd_def decimal_def)
qed

text \<open>From the first byte of a value behind its line.\<close>

lemma exec_value:
  fixes q :: "'h HTTPParser"
  assumes "drop j data = c # vs @ crlf @ r" "c \<notin> {CHR '' '', TAB, CR, LF}" "length data \<le> 81920"
    and "state q = s_header_value_discard_ws"
    and "\<And>x. par x = q \<Longrightarrow> pos x = j \<Longrightarrow> marks x = no_marks \<Longrightarrow> step_header_value_start c x =
      Next (x\<lparr>par := q1, marks := no_marks(Header_value := Some j)\<rparr>)"
    and "state q1 = s_header_value"
    and "\<And>x. par x = q1 \<Longrightarrow> value_loop (parser_settings hh h0) data (Suc j) (header_state q1) (Suc j) x =
      value_end (parser_settings hh h0) data (Suc j) (Suc j + length vs) h q2 x"
    and "http_errno q2 = CHPE_OK" "header_building_state q2 = 1"
  shows "exec_loop (parser_settings hh h0) data False (locals_at j no_marks us q) =
    exec_loop (parser_settings hh h0) data False (locals_at (j + length vs + 3) no_marks us
      (q2\<lparr>header_state := h, header_value := c # vs, header_building_state := 0, state := s_header_value_lws\<rparr>))"
proof -
  let ?S = "parser_settings hh h0" let ?ms = "no_marks(Header_value := Some j)" let ?pe = "Suc j + length vs"
  let ?q3 = "q2\<lparr>state := s_header_almost_done, header_state := h, header_value := c # vs, header_building_state := 0\<rparr>"
  have d: "drop j data = c # vs @ CR # LF # r" using assms(1) by (simp add: crlf_def)
  note d1 = drop_SucD [OF d]
  have d2: "drop ?pe data = CR # LF # r"
    by (rule drop_appendD [OF d1])
  have len: "?pe < length data" by (rule drop_lessD [OF d2])
  have "exec_loop ?S data False (locals_at j no_marks us q) = exec_loop ?S data False (locals_at (Suc j) ?ms us q1)"
    using assms(2-4) assms(5) [of "(locals_at j no_marks us q)\<lparr>nread := of_nat (Suc j)\<rparr>"]
    by (intro exec_goto [OF d]) (simp_all add: parsing_header_def step_def step_discard_ws_def locals_at_def Let_def)
  also have "\<dots> = exec_loop ?S data False (locals_at (Suc ?pe) no_marks us ?q3)"
  proof (rule exec_next)
    show "Suc j < length data" using len by simp
    show "parsing_header (state q1)" using assms(6) by (simp add: parsing_header_def)
    have "slice data j (?pe - j) = c # vs" using d by (simp add: slice_def)
    then have "value_end ?S data (Suc j) ?pe h q2 ((locals_at (Suc j) ?ms us q1)\<lparr>nread := of_nat (Suc (Suc j))\<rparr>) =
        Next ((locals_at ?pe no_marks us ?q3)\<lparr>nread := of_nat (Suc ?pe)\<rparr>)"
      using len assms(3,8,9)
      by (simp add: value_end_def callback_data_def cb_header_value_eq count_small [of "Suc (Suc j)"] upd_def
          locals_at_def Let_def fun_eq_iff)
    then show "step ?S data ((locals_at (Suc j) ?ms us q1)\<lparr>nread := of_nat (Suc (Suc j))\<rparr>) =
        Next ((locals_at ?pe no_marks us ?q3)\<lparr>nread := of_nat (Suc ?pe)\<rparr>)"
      using assms(6) assms(7) [of "(locals_at (Suc j) ?ms us q1)\<lparr>nread := of_nat (Suc (Suc j))\<rparr>"]
      by (simp add: step_def step_header_value_def Let_def)
  qed (use assms(3) in \<open>simp_all add: locals_at_def\<close>)
  also have "\<dots> = exec_loop ?S data False (locals_at (Suc (Suc ?pe)) no_marks us (?q3\<lparr>state := s_header_value_lws\<rparr>))"
    using assms(3)
    by (intro exec_goto [OF drop_SucD [OF d2]])
      (simp_all add: parsing_header_def step_def step_header_almost_done_def goto_def locals_at_def Let_def)
  finally show ?thesis by (simp add: eval_nat_numeral)
qed

text \<open>The byte behind a line shows that the header is complete.\<close>

lemma exec_line_end:
  fixes q :: "'a http_parser_scheme"
  assumes "drop j data = c # r" "c \<noteq> CHR '' ''" "c \<noteq> TAB" "state q = s_header_value_lws"
    and "header_state q \<in> {h_general, h_content_length_num}" "length data \<le> 81920" "max_header_size S = 81920"
  shows "exec_loop S data False (locals_at j ms us q) =
    exec_loop S data False (locals_at j ms us (q\<lparr>state := s_header_field_start\<rparr>))"
proof -
  let ?q = "q\<lparr>state := s_header_field_start\<rparr>"
  let ?y = "(locals_at j ms us ?q)\<lparr>nread := of_nat (Suc j)\<rparr>"
  note len = drop_lessD [OF assms(1)] and c = nth_via_drop [OF assms(1)]
  have p: "parsing_header (state q)" "parsing_header (state ?q)" using assms(4) by (simp_all add: parsing_header_def)
  have "step S data ((locals_at j ms us q)\<lparr>nread := of_nat (Suc j)\<rparr>) = Again ?y"
    using assms(2-5) c
    by (auto simp: step_def step_header_value_lws_def upd_def goto_def locals_at_def Let_def)
  then have "exec_loop S data False (locals_at j ms us q) = exec_loop S data True ?y"
    using exec_byte [OF p(1) len assms(6,7)] by simp
  also have "\<dots> = exec_loop S data False (locals_at j ms us ?q)"
    unfolding exec_byte [OF p(2) len assms(6,7)] by (subst exec_loop.simps) simp
  finally show ?thesis .
qed

text \<open>A header that the parser has no rule for, and the length of the body.\<close>

definition plain_name :: "string \<Rightarrow> bool" where
  "plain_name k \<longleftrightarrow> k \<noteq> [] \<and> token_bytes k \<and>
     map token k \<notin> {''connection'', ''proxy-connection'', ''content-length'', ''upgrade''} \<and>
     take 17 (map token k) \<noteq> ''transfer-encoding''"

definition plain_header :: "string \<times> string \<Rightarrow> bool" where
  "plain_header = (\<lambda>(k, v). plain_name k \<and> v \<noteq> [] \<and> value_bytes v \<and> hd v \<noteq> CHR '' '' \<and> hd v \<noteq> TAB)"

lemma plain_name_state:
  assumes "name_inv (map token k) h j" "plain_name k"
  shows "h \<in> {h_general, h_C, h_CO, h_CON, h_matching_connection, h_matching_proxy_connection,
    h_matching_content_length, h_matching_transfer_encoding, h_matching_upgrade}"
  using assms by (cases h) (auto simp: name_inv_def plain_name_def)

lemma exec_plain_header:
  fixes q :: "'h HTTPParser"
  assumes "drop i data = header_text e @ r" "plain_header e" "state q = s_header_field_start" "http_errno q = CHPE_OK"
    and "header_building_state q = 0" "length data \<le> 81920"
  shows "\<exists>j. exec_loop (parser_settings hh h0) data False (locals_at i no_marks us q) =
    exec_loop (parser_settings hh h0) data False (locals_at (i + length (header_text e)) no_marks us
      ((put_header e q)\<lparr>index := j, header_state := h_general, state := s_header_value_lws\<rparr>))"
proof -
  let ?S = "parser_settings hh h0"
  obtain k c vs where e: "e = (k, c # vs)" using assms(2) by (cases e; cases "snd e") (auto simp: plain_header_def)
  have k: "k \<noteq> []" "token_bytes k" and c: "c \<notin> {CHR '' '', TAB, CR, LF}" and vs: "value_bytes vs"
    using assms(2) e by (auto simp: plain_header_def plain_name_def value_bytes_def)
  have d: "drop i data = k @ '': '' @ c # vs @ crlf @ r" using assms(1) e by (simp add: header_text_def)
  obtain h j te where n: "name_inv (map token k) h j" "te = uses_transfer_encoding q"
    "exec_loop ?S data False (locals_at i no_marks us q) = exec_loop ?S data False (locals_at (i + length k + 2) no_marks us
      ((flush q)\<lparr>index := j, header_state := h, uses_transfer_encoding := te, state := s_header_value_discard_ws,
         header_field := k, header_value := [], header_building_state := 1\<rparr>))"
    using exec_name [OF d k assms(3-6), of hh h0 us] assms(2) e by (auto simp: plain_header_def plain_name_def)
  let ?q = "(flush q)\<lparr>index := j, header_state := h, uses_transfer_encoding := te, state := s_header_value_discard_ws,
         header_field := k, header_value := [], header_building_state := 1\<rparr>"
  let ?q1 = "?q\<lparr>state := s_header_value, index := 0, header_state := h_general\<rparr>"
  have pn: "plain_name k" using assms(2) e by (simp add: plain_header_def)
  note h = plain_name_state [OF n(1) pn]
  have d2: "drop (i + length k + 2) data = c # vs @ crlf @ r" 
    using arg_cong [OF d, of "drop (length k + 2)"] by (simp add: add.commute)
  note d3 = drop_SucD [OF d2]
  have loop: "exec_loop ?S data False (locals_at (i + length k + 2) no_marks us ?q) =
      exec_loop ?S data False (locals_at (i + length k + 2 + length vs + 3) no_marks us
        (?q1\<lparr>header_state := h_general, header_value := c # vs, header_building_state := 0, state := s_header_value_lws\<rparr>))"
  proof (rule exec_value [OF d2 c assms(6)])
    show "step_header_value_start c x = Next (x\<lparr>par := ?q1, marks := no_marks(Header_value := Some (i + length k + 2))\<rparr>)"
      if "par x = ?q" "pos x = i + length k + 2" "marks x = no_marks" for x
      using h that
      by (elim insertE emptyE) (simp_all add: step_header_value_start_def set_mark_def upd_def Let_def)
    have d3: "drop (Suc (i + length k + 2)) data = vs @ CR # LF # r" using d3 by (simp add: crlf_def)
    show "value_loop ?S data (Suc (i + length k + 2)) (header_state ?q1) (Suc (i + length k + 2)) x =
        value_end ?S data (Suc (i + length k + 2)) (Suc (i + length k + 2) + length vs) h_general ?q1 x" if "par x = ?q1" for x
      using value_loop_general [OF d3 vs assms(6), of ?S "Suc (i + length k + 2)" x] that by simp
  qed (use assms(4) in simp_all)
  have rec: "?q1\<lparr>header_state := h_general, header_value := c # vs, header_building_state := 0, state := s_header_value_lws\<rparr> =
      (put_header e q)\<lparr>index := 0, header_state := h_general, state := s_header_value_lws\<rparr>"
    using n(2) e by (cases q) (simp add: put_header_def flush_def)
  have len: "i + length k + 2 + length vs + 3 = i + length (header_text e)" using e by (simp add: header_text_def crlf_def)
  show ?thesis using trans [OF n(3) loop] unfolding rec len by (rule exI)
qed

section \<open>The length of the body\<close>

lemma decimal_show_nat: "decimal 0 (show_nat n) = n \<and> digit_bytes (show_nat n) \<and> show_nat n \<noteq> []"
proof (induction n rule: show_nat.induct)
  case (1 n)
  have d: "is_num (char_of (48 + m :: nat))" "digit_value (char_of (48 + m :: nat)) = m" if "m < 10" for m
    using that by (simp_all add: is_num_def digit_value_def bval_def)
  show ?case
  proof (cases "n < 10")
    case True
    then show ?thesis using d [of n] by (subst (1 2 3) show_nat.simps) (simp add: decimal_def digit_bytes_def)
  next
    case False
    with 1 d [of "n mod 10"] show ?thesis
      by (subst (1 2 3) show_nat.simps) (simp add: decimal_def digit_bytes_def)
  qed
qed

lemma content_length_tokens:
  "token CHR ''o'' = CHR ''o''" "token CHR ''n'' = CHR ''n''" "token CHR ''t'' = CHR ''t''" "token CHR ''e'' = CHR ''e''"
  "token CHR ''-'' = CHR ''-''" "token CHR ''L'' = CHR ''l''" "token CHR ''g'' = CHR ''g''" "token CHR ''h'' = CHR ''h''"
  "token CHR ''C'' = CHR ''c''"
  by (simp_all add: token_def tokens_def bval_def char_of_def bit_Suc_0_iff)

lemma content_length_state:
  "header_state (foldl (name_step S) (named CHR ''C'' q) ''ontent-Length'') = h_content_length"
  by (simp add: name_step_def named_def field_char_def match_name_def at_def next_index_def content_length_tokens Let_def)

lemma exec_length_header:
  fixes q :: "'h HTTPParser"
  assumes "drop i data = header_text (''Content-Length'', show_nat n) @ r" "n < 2 ^ 32" "state q = s_header_field_start"
    and "http_errno q = CHPE_OK" "header_building_state q = 0" "length data \<le> 81920" "\<not> f_contentlength (flags q)"
  shows "\<exists>j. exec_loop (parser_settings hh h0) data False (locals_at i no_marks us q) =
    exec_loop (parser_settings hh h0) data False (locals_at (i + length (header_text (''Content-Length'', show_nat n))) no_marks us
      ((put_header (''Content-Length'', show_nat n) q)\<lparr>index := j, header_state := h_content_length_num,
        flags := (flags q)\<lparr>f_contentlength := True\<rparr>, content_length := of_nat n, state := s_header_value_lws\<rparr>))"
proof -
  let ?S = "parser_settings hh h0" let ?k = "''Content-Length''"
  obtain c vs where cv: "show_nat n = c # vs" using decimal_show_nat [of n] by (cases "show_nat n") auto
  have num: "is_num c" "digit_bytes vs" "decimal (digit_value c) vs = n"
    using decimal_show_nat [of n] cv by (auto simp: digit_bytes_def decimal_def)
  have c: "c \<notin> {CHR '' '', TAB, CR, LF}" using digit_header_char [OF num(1)] by auto
  have k: "?k \<noteq> []" "token_bytes ?k" by (simp_all add: token_bytes_def content_length_tokens)
  have d: "drop i data = ?k @ '': '' @ c # vs @ crlf @ r" using assms(1) cv by (simp add: header_text_def)
  have tk: "take 17 (map token ?k) \<noteq> ''transfer-encoding''" by (simp add: content_length_tokens)
  obtain h j te where n: "te = uses_transfer_encoding q" "foldl (name_step ?S) (named (hd ?k) q) (tl ?k) =
      (named (hd ?k) q)\<lparr>index := j, header_state := h, uses_transfer_encoding := te\<rparr>"
    "exec_loop ?S data False (locals_at i no_marks us q) = exec_loop ?S data False (locals_at (i + length ?k + 2) no_marks us
      ((flush q)\<lparr>index := j, header_state := h, uses_transfer_encoding := te, state := s_header_value_discard_ws,
         header_field := ?k, header_value := [], header_building_state := 1\<rparr>))"
    using exec_name [OF d k assms(3-6), of hh h0 us] tk by blast
  have h: "h = h_content_length" using content_length_state [of ?S q] arg_cong [OF n(2), of header_state] by simp
  let ?q = "(flush q)\<lparr>index := j, header_state := h, uses_transfer_encoding := te, state := s_header_value_discard_ws,
         header_field := ?k, header_value := [], header_building_state := 1\<rparr>"
  let ?q1 = "?q\<lparr>state := s_header_value, index := 0, flags := (flags q)\<lparr>f_contentlength := True\<rparr>,
      content_length := of_nat (digit_value c), header_state := h_content_length_num\<rparr>"
  let ?q2 = "?q1\<lparr>content_length := of_nat n\<rparr>"
  have d2: "drop (i + length ?k + 2) data = c # vs @ crlf @ r"
    using arg_cong [OF d, of "drop (length ?k + 2)"] by (simp add: add.commute)
  note d3 = drop_SucD [OF d2]
  have loop: "exec_loop ?S data False (locals_at (i + length ?k + 2) no_marks us ?q) =
      exec_loop ?S data False (locals_at (i + length ?k + 2 + length vs + 3) no_marks us
        (?q2\<lparr>header_state := h_content_length_num, header_value := c # vs, header_building_state := 0, state := s_header_value_lws\<rparr>))"
  proof (rule exec_value [OF d2 c assms(6)])
    show "step_header_value_start c x = Next (x\<lparr>par := ?q1, marks := no_marks(Header_value := Some (i + length ?k + 2))\<rparr>)"
      if "par x = ?q" "pos x = i + length ?k + 2" "marks x = no_marks" for x
      using that h num(1) assms(7)
      by (simp add: step_header_value_start_def set_mark_def upd_def Let_def)
    have d3: "drop (Suc (i + length ?k + 2)) data = vs @ CR # r'" if "r' = LF # r" for r' using d3 that by (simp add: crlf_def)
    show "value_loop ?S data (Suc (i + length ?k + 2)) (header_state ?q1) (Suc (i + length ?k + 2)) x =
        value_end ?S data (Suc (i + length ?k + 2)) (Suc (i + length ?k + 2) + length vs) h_content_length_num ?q2 x"
      if "par x = ?q1" for x
    proof -
      have cl: "content_length (par x) = of_nat (digit_value c)" unfolding that by simp
      have lt: "decimal (digit_value c) vs < 2 ^ 32" unfolding num(3) by (rule assms(2))
      have hs: "header_state ?q1 = h_content_length_num" by simp
      show ?thesis unfolding hs
        by (rule value_loop_digits [OF d3 [OF refl] num(2) cl lt, of ?S "Suc (i + length ?k + 2)", unfolded num(3) that])
    qed
  qed (use assms(4) in simp_all)
  have rec: "?q2\<lparr>header_state := h_content_length_num, header_value := c # vs, header_building_state := 0, state := s_header_value_lws\<rparr> =
      (put_header (?k, show_nat n) q)\<lparr>index := 0, header_state := h_content_length_num,
        flags := (flags q)\<lparr>f_contentlength := True\<rparr>, content_length := of_nat n, state := s_header_value_lws\<rparr>"
    using n(1) cv by (cases q) (simp add: put_header_def flush_def)
  have len: "i + length ?k + 2 + length vs + 3 = i + length (header_text (?k, show_nat n))"
    using cv by (simp add: header_text_def crlf_def)
  show ?thesis by (rule exI [of _ 0]) (rule trans [OF n(3) loop, unfolded rec len])
qed

end
