(* ===== verification/Request_Parsed.thy ===== *)
theory Request_Parsed
  imports Request_Headers
begin

text \<open>
  The whole request: the headers one after the other, the end of the headers, the body, and the property
  that the parser hands to its handler what the client wrote.
\<close>

section \<open>All headers\<close>

definition put_headers :: "(string \<times> string) list \<Rightarrow> 'h HTTPParser \<Rightarrow> 'h HTTPParser" where
  "put_headers hs q = foldl (\<lambda>q e. put_header e q) q hs"

lemma put_headers_simps:
  "put_headers [] q = q" "put_headers (e # hs) q = put_headers hs (put_header e q)"
  "put_headers (hs @ [e]) q = put_header e (put_headers hs q)"
  by (simp_all add: put_headers_def)

lemma put_header_commute:
  "put_header e (q\<lparr>index := j, header_state := h, state := s\<rparr>) = (put_header e q)\<lparr>index := j, header_state := h, state := s\<rparr>"
  by (cases q) (simp add: put_header_def flush_def)

lemma flush_commute:
  "p_headers (flush (q\<lparr>index := j, header_state := h, state := s\<rparr>)) = p_headers (flush q)"
  by (simp add: flush_def)

lemma put_headers_commute:
  "put_headers hs (q\<lparr>index := j, header_state := h, state := s\<rparr>) = (put_headers hs q)\<lparr>index := j, header_state := h, state := s\<rparr>"
  by (induction hs arbitrary: q) (simp_all add: put_headers_simps put_header_commute)

lemma put_header_fields [simp]:
  "state (put_header e q) = state q" "http_errno (put_header e q) = http_errno q" "flags (put_header e q) = flags q"
  "header_building_state (put_header e q) = 0" "content_length (put_header e q) = content_length q"
  "uses_transfer_encoding (put_header e q) = uses_transfer_encoding q" "pmethod (put_header e q) = pmethod q"
  "header_field (put_header e q) = fst e" "header_value (put_header e q) = snd e"
  "p_headers (put_header e q) = p_headers (flush q)"
  by (simp_all add: put_header_def)

lemma put_headers_fields [simp]:
  "state (put_headers hs q) = state q" "http_errno (put_headers hs q) = http_errno q" "flags (put_headers hs q) = flags q"
  "content_length (put_headers hs q) = content_length q"
  "uses_transfer_encoding (put_headers hs q) = uses_transfer_encoding q" "pmethod (put_headers hs q) = pmethod q"
  by (induction hs arbitrary: q) (simp_all add: put_headers_simps)

lemma put_headers_building: "header_building_state q = 0 \<Longrightarrow> header_building_state (put_headers hs q) = 0"
  by (induction hs arbitrary: q) (simp_all add: put_headers_simps)

lemma flush_put_headers:
  "\<forall>e\<in>set hs. snd e \<noteq> [] \<Longrightarrow> header_value q = [] \<Longrightarrow> p_headers (flush (put_headers hs q)) = p_headers q @ hs"
proof (induction hs rule: rev_induct)
  case (snoc e hs)
  then show ?case by (simp add: put_headers_simps flush_def [of "put_header e x" for x])
qed (simp add: put_headers_simps flush_def)

text \<open>The first byte behind a line of headers is not a space.\<close>

lemma next_line:
  assumes "\<forall>e\<in>set hs. fst e \<noteq> [] \<and> token_bytes (fst e)"
  obtains c r' where "concat (map header_text hs) @ CR # r = c # r'" "c \<noteq> CHR '' ''" "c \<noteq> TAB"
proof (cases hs)
  case Nil
  then show thesis by (intro that [of CR r]) (simp_all add: CR_def TAB_def)
next
  case (Cons e hs')
  obtain k v where e: "e = (k, v)" by (cases e)
  with assms Cons obtain c k' where k: "k = c # k'" "token c \<noteq> CHR 0x00" by (cases k) (auto simp: token_bytes_def)
  with not_tokens have "c \<noteq> CHR '' ''" "c \<noteq> TAB" by auto
  with Cons e k(1) show thesis by (intro that) (simp_all add: header_text_def)
qed

lemma plain_headerD: "plain_header e \<Longrightarrow> fst e \<noteq> [] \<and> token_bytes (fst e) \<and> snd e \<noteq> []"
  by (auto simp: plain_header_def plain_name_def)

lemma exec_headers:
  fixes q :: "'h HTTPParser"
  assumes "drop i data = concat (map header_text hs) @ r" "\<forall>e\<in>set hs. plain_header e" "hd r \<noteq> CHR '' ''" "hd r \<noteq> TAB" "r \<noteq> []"
    and "state q = s_header_field_start" "http_errno q = CHPE_OK" "header_building_state q = 0" "length data \<le> 81920"
  shows "\<exists>j h. exec_loop (parser_settings hh h0) data False (locals_at i no_marks us q) =
    exec_loop (parser_settings hh h0) data False (locals_at (i + length (concat (map header_text hs))) no_marks us
      ((put_headers hs q)\<lparr>index := j, header_state := h, state := s_header_field_start\<rparr>))"
  using assms(1,2,6-8)
proof (induction hs arbitrary: i q)
  case Nil
  have "q\<lparr>index := index q, header_state := header_state q, state := s_header_field_start\<rparr> = q"
    unfolding Nil.prems(3) [symmetric] by simp
  then show ?case
    by (intro exI [of _ "index q"] exI [of _ "header_state q"]) (simp only: put_headers_simps list.map concat.simps list.size add_0_right)
next
  case (Cons e hs)
  let ?S = "parser_settings hh h0" let ?i = "i + length (header_text e)"
  have d: "drop i data = header_text e @ concat (map header_text hs) @ r" using Cons.prems(1) by simp
  then have d2: "drop ?i data = concat (map header_text hs) @ r" by (rule drop_appendD)
  have "\<exists>c r'. concat (map header_text hs) @ r = c # r' \<and> c \<noteq> CHR '' '' \<and> c \<noteq> TAB"
  proof (cases hs)
    case Nil
    then show ?thesis using assms(3-5) by (cases r) simp_all
  next
    case (Cons e' hs')
    with Cons.prems(2) have "\<forall>e\<in>set hs. fst e \<noteq> [] \<and> token_bytes (fst e)" using plain_headerD by fastforce
    then obtain c r' where c: "concat (map header_text hs) @ CR # r = c # r'" "c \<noteq> CHR '' ''" "c \<noteq> TAB"
      by (rule next_line)
    moreover have "concat (map header_text hs) \<noteq> []" using Cons by (simp add: header_text_def crlf_def split: prod.split)
    ultimately show ?thesis by (cases "concat (map header_text hs)") auto
  qed
  then obtain c r' where c: "concat (map header_text hs) @ r = c # r'" "c \<noteq> CHR '' ''" "c \<noteq> TAB" by blast
  obtain j where j: "exec_loop ?S data False (locals_at i no_marks us q) = exec_loop ?S data False (locals_at ?i no_marks us
      ((put_header e q)\<lparr>index := j, header_state := h_general, state := s_header_value_lws\<rparr>))"
    using exec_plain_header [OF d _ Cons.prems(3-5) assms(9), of hh h0 us] Cons.prems(2) by auto
  let ?q = "(put_header e q)\<lparr>index := j, header_state := h_general, state := s_header_field_start\<rparr>"
  have "exec_loop ?S data False (locals_at ?i no_marks us
      ((put_header e q)\<lparr>index := j, header_state := h_general, state := s_header_value_lws\<rparr>)) =
    exec_loop ?S data False (locals_at ?i no_marks us ?q)"
    using exec_line_end [OF d2 [unfolded c(1)] c(2,3), of "(put_header e q)\<lparr>index := j, header_state := h_general, state := s_header_value_lws\<rparr>"
        ?S no_marks us] assms(9) by simp
  moreover obtain j' h where "exec_loop ?S data False (locals_at ?i no_marks us ?q) =
      exec_loop ?S data False (locals_at (?i + length (concat (map header_text hs))) no_marks us
        ((put_headers hs ?q)\<lparr>index := j', header_state := h, state := s_header_field_start\<rparr>))"
    using Cons.IH [OF d2, of ?q] Cons.prems(2,4) by auto
  moreover have "(put_headers hs ?q)\<lparr>index := j', header_state := h, state := s_header_field_start\<rparr> =
      (put_headers (e # hs) q)\<lparr>index := j', header_state := h, state := s_header_field_start\<rparr>"
    by (simp add: put_headers_commute put_headers_simps)
  ultimately show ?case using j by (intro exI [of _ j'] exI [of _ h]) (simp add: add.assoc)
qed

section \<open>The end of the headers\<close>

definition headers_done :: "'h HTTPParser \<Rightarrow> 'h HTTPParser" where
  "headers_done q = set_connection_parameters
     (let p = q\<lparr>state := s_headers_done, upgrade := False\<rparr>
      in if header_field p \<noteq> [] then p\<lparr>p_headers := p_headers p @ [(header_field p, header_value p)],
           header_field := [], header_value := []\<rparr> else p)"

definition simple_flags :: "'a http_parser_scheme \<Rightarrow> bool" where
  "simple_flags q \<longleftrightarrow> \<not> f_trailing (flags q) \<and> \<not> f_upgrade (flags q) \<and> \<not> f_chunked (flags q) \<and> \<not> f_skipbody (flags q) \<and>
     \<not> uses_transfer_encoding q \<and> pmethod q \<noteq> M_Connect \<and> http_errno q = CHPE_OK"

lemma headers_done_fields [simp]:
  "flags (headers_done q) = flags q" "uses_transfer_encoding (headers_done q) = uses_transfer_encoding q"
  "pmethod (headers_done q) = pmethod q" "http_errno (headers_done q) = http_errno q" "state (headers_done q) = s_headers_done"
  "upgrade (headers_done q) = False" "content_length (headers_done q) = content_length q"
  "p_raw_url (headers_done q) = p_raw_url q" "qs_point (headers_done q) = qs_point q" "p_body (headers_done q) = p_body q"
  "lenient_http_headers (headers_done q) = lenient_http_headers q" "handler (headers_done q) = handler q"
  "http_major (headers_done q) = http_major q" "http_minor (headers_done q) = http_minor q"
  "p_headers (headers_done q) = (if header_field q \<noteq> [] then p_headers q @ [(header_field q, header_value q)] else p_headers q)"
  by (simp_all add: headers_done_def set_connection_parameters_def Let_def)

lemma exec_headers_complete:
  fixes q :: "'h HTTPParser"
  assumes "drop j data = CR # LF # b" "state q = s_header_field_start" "simple_flags q" "length data \<le> 81920"
    and "hh (headers_done q) = Some (headers_done q)"
  shows "exec_loop (parser_settings hh h) data False (locals_at j no_marks us q) =
    exec_loop (parser_settings hh h) data True ((locals_at (Suc j) no_marks us (headers_done q))\<lparr>nread := of_nat (Suc (Suc j))\<rparr>)"
proof -
  let ?S = "parser_settings hh h" let ?q = "q\<lparr>state := s_headers_almost_done\<rparr>"
  note d1 = drop_SucD [OF assms(1)]
  have "exec_loop ?S data False (locals_at j no_marks us q) = exec_loop ?S data False (locals_at (Suc j) no_marks us ?q)"
    using assms(2,4)
    by (intro exec_goto [OF assms(1)])
      (simp_all add: parsing_header_def step_def step_header_field_start_def goto_def locals_at_def Let_def)
  moreover have "cb_headers_complete hh (q\<lparr>state := s_headers_done, upgrade := False\<rparr>) = Some (0, headers_done q)"
    using assms(5)
    by (cases "header_field q = []") (simp_all add: cb_headers_complete_def headers_done_def ci_emplace_def Let_def)
  then have "step ?S data ((locals_at (Suc j) no_marks us ?q)\<lparr>nread := of_nat (Suc (Suc j))\<rparr>) =
      Again ((locals_at (Suc j) no_marks us (headers_done q))\<lparr>nread := of_nat (Suc (Suc j))\<rparr>)"
    using assms(3) nth_via_drop [OF d1]
    by (simp add: simple_flags_def step_def step_headers_almost_done_def strict_check_def upd_def locals_at_def Let_def)
  then have "exec_loop ?S data False (locals_at (Suc j) no_marks us ?q) =
      exec_loop ?S data True ((locals_at (Suc j) no_marks us (headers_done q))\<lparr>nread := of_nat (Suc (Suc j))\<rparr>)"
    using exec_byte [OF _ drop_lessD [OF d1] assms(4), of ?q ?S no_marks us] by (simp add: parsing_header_def)
  ultimately show ?thesis by simp
qed

section \<open>The end of the message\<close>

definition message :: "query_string \<Rightarrow> 'h HTTPParser \<Rightarrow> 'h HTTPParser" where
  "message Q p = p\<lparr>p_url := (if qs_point p \<noteq> 0 then take (unat (qs_point p)) (p_raw_url p) else p_raw_url p),
     p_url_params := Q\<rparr>"

lemma notify_message_end:
  fixes p :: "'h HTTPParser"
  assumes "query_string_of (p_raw_url p) = Some Q" "http_errno p = CHPE_OK" "keeps_core h" "par x = p"
  shows "notify (cb_message_complete h) e er x Next = (case h (message Q p) of None \<Rightarrow> Lost | Some p' \<Rightarrow> Next (x\<lparr>par := p'\<rparr>))"
proof -
  have "cb_message_complete h p = map_option (Pair 0) (h (message Q p))"
    using assms(1) by (simp add: cb_message_complete_def message_def Let_def)
  moreover have "http_errno p' = CHPE_OK" if "h (message Q p) = Some p'" for p'
    using that assms(2,3) coreD [of p' "message Q p"] by (auto simp: keeps_core_def core_def message_def)
  ultimately show ?thesis using assms(2,4) by (cases "h (message Q p)") (simp_all add: notify_def)
qed

lemma exec_end:
  "length data \<le> pos x \<Longrightarrow> marks x = no_marks \<Longrightarrow> http_errno (par x) = CHPE_OK \<Longrightarrow>
    exec_loop S data False x = Some (Done (length data) ((par x)\<lparr>saved_nread := nread x\<rparr>))"
  by (subst exec_loop.simps) (simp add: finish_def callback_data_def)

definition delivered :: "'h callback \<Rightarrow> nat \<Rightarrow> 'h HTTPParser \<Rightarrow> 'h HTTPParser run option" where
  "delivered h n p = (case h p of None \<Rightarrow> Some Callback_undefined | Some p' \<Rightarrow> Some (Done n (p'\<lparr>saved_nread := 0\<rparr>)))"

lemma exec_complete:
  fixes p :: "'h HTTPParser"
  assumes "step S data x = notify (cb_message_complete h) e er y Next" "par y = p" "pos y + 1 = length data" "marks y = no_marks"
    and "nread y = 0" "query_string_of (p_raw_url p) = Some Q" "http_errno p = CHPE_OK" "keeps_core h"
  shows "exec_loop S data True x = delivered h (length data) (message Q p)"
proof (cases "h (message Q p)")
  case None
  with assms(1) notify_message_end [OF assms(6-8,2)] show ?thesis
    by (subst exec_loop.simps) (simp add: delivered_def)
next
  case (Some p')
  then have "http_errno p' = CHPE_OK"
    using assms(7,8) coreD [of p' "message Q p"] by (auto simp: keeps_core_def core_def message_def)
  with Some assms(1,3-5) notify_message_end [OF assms(6-8,2)] show ?thesis
    by (subst exec_loop.simps) (simp add: delivered_def exec_end)
qed

lemma exec_no_body:
  fixes q :: "'h HTTPParser"
  assumes "drop j data = CR # LF # []" "state q = s_header_field_start" "simple_flags q" "length data \<le> 81920"
    and "hh (headers_done q) = Some (headers_done q)" "content_length q = -1" "query_string_of (p_raw_url q) = Some Q" "keeps_core h"
  shows "exec_loop (parser_settings hh h) data False (locals_at j no_marks us q) =
    delivered h (length data) (message Q ((headers_done q)\<lparr>saved_nread := 0, state := s_start_req\<rparr>))"
proof -
  let ?S = "parser_settings hh h"
  let ?x = "(locals_at (Suc j) no_marks us (headers_done q))\<lparr>nread := of_nat (Suc (Suc j))\<rparr>"
  let ?p = "(headers_done q)\<lparr>saved_nread := 0, state := s_start_req\<rparr>"
  have len: "length data = Suc (Suc j)" using arg_cong [OF assms(1), of length] by simp
  have "step ?S data ?x = notify (cb_message_complete h) CHPE_CB_message_complete (Suc j + 1)
      (?x\<lparr>par := ?p, nread := 0\<rparr>) Next"
    using assms(3,6) nth_via_drop [OF drop_SucD [OF assms(1)]]
    by (simp add: simple_flags_def step_def step_headers_done_def strict_check_def upd_def goto_def locals_at_def Let_def)
  from exec_complete [OF this, of ?p Q] exec_headers_complete [where hh = hh and h = h and us = us, OF assms(1-5)] assms(3,7,8) len
  show ?thesis by (simp add: simple_flags_def)
qed

lemma exec_body:
  fixes q :: "'h HTTPParser"
  assumes "drop j data = CR # LF # b" "state q = s_header_field_start" "simple_flags q" "length data \<le> 81920"
    and "hh (headers_done q) = Some (headers_done q)" "content_length q = of_nat (length b)" "b \<noteq> []"
    and "query_string_of (p_raw_url q) = Some Q" "keeps_core h" "p_body q = []"
  shows "exec_loop (parser_settings hh h) data False (locals_at j no_marks us q) =
    delivered h (length data) (message Q ((headers_done q)\<lparr>saved_nread := 0, content_length := 0, p_body := b, state := s_start_req\<rparr>))"
proof -
  let ?S = "parser_settings hh h" let ?n = "of_nat (length b) :: u64"
  let ?q1 = "(headers_done q)\<lparr>saved_nread := 0, state := s_body_identity\<rparr>"
  let ?q2 = "(headers_done q)\<lparr>saved_nread := 0, content_length := 0, p_body := b, state := s_message_done\<rparr>"
  let ?q3 = "(headers_done q)\<lparr>saved_nread := 0, content_length := 0, p_body := b, state := s_start_req\<rparr>"
  let ?x = "(locals_at (Suc j) no_marks us (headers_done q))\<lparr>nread := of_nat (Suc (Suc j))\<rparr>"
  let ?x1 = "\<lparr>par = ?q1, pos = Suc (Suc j), nread = 0, marks = no_marks, url_start_mark = us\<rparr>"
  let ?x2 = "\<lparr>par = ?q2, pos = Suc j + length b, nread = 0, marks = no_marks, url_start_mark = us\<rparr>"
  note d2 = drop_SucD [OF drop_SucD [OF assms(1)]]
  have len: "length data = Suc (Suc j) + length b" using arg_cong [OF assms(1), of length] by simp
  have small: "length b < 2 ^ 64" using len assms(4) by simp
  then have u: "unat ?n = length b" by (simp add: unat_of_nat)
  have pos: "0 < length b" using assms(7) by simp
  have n: "?n \<noteq> 0" "?n \<noteq> -1"
  proof -
    show "?n \<noteq> 0" using u pos by (metis less_irrefl unat_0)
    have "unat (-1 :: u64) = 18446744073709551615" by (rule unat_minus_1)
    moreover have "length b < 18446744073709551615" using len assms(4) by simp
    ultimately show "?n \<noteq> -1" using u by auto
  qed
  have "step ?S data ?x = Next (?x1\<lparr>pos := Suc j\<rparr>)"
    using assms(3,6) n nth_via_drop [OF drop_SucD [OF assms(1)]]
    by (simp add: simple_flags_def step_def step_headers_done_def strict_check_def upd_def goto_def locals_at_def Let_def)
  then have "exec_loop ?S data True ?x = exec_loop ?S data False ?x1" by (subst exec_loop.simps) simp
  also have "\<dots> = exec_loop ?S data True ?x2"
  proof -
    have "slice data (Suc (Suc j)) (length b) = b" using d2 by (simp add: slice_def)
    then have "step ?S data ?x1 = Again ?x2"
      using n u assms(3,6,10) len pos
      by (simp add: simple_flags_def step_def step_body_identity_def callback_data_def cb_body_def set_mark_def upd_def
          goto_def Let_def fun_eq_iff)
    then show ?thesis using len pos by (subst exec_loop.simps) (simp add: byte_step_def parsing_header_def)
  qed
  also have "\<dots> = delivered h (length data) (message Q ?q3)"
  proof (rule exec_complete)
    show "step ?S data ?x2 = notify (cb_message_complete h) CHPE_CB_message_complete (pos ?x2 + 1) (?x2\<lparr>par := ?q3\<rparr>) Next"
      by (simp add: step_def step_message_done_def goto_def Let_def)
  qed (use len assms(3,8,9) in \<open>simp_all add: simple_flags_def\<close>)
  finally show ?thesis using exec_headers_complete [where hh = hh and h = h and us = us, OF assms(1-5)] by simp
qed

section \<open>The whole request\<close>

lemma closed_headers:
  assumes "\<forall>e\<in>set hs. fst e \<noteq> [] \<and> snd e \<noteq> []" "header_field q = []" "header_value q = []"
  shows "(let p = put_headers hs q in if header_field p \<noteq> [] then p_headers p @ [(header_field p, header_value p)] else p_headers p) =
    p_headers q @ hs"
proof (cases hs rule: rev_cases)
  case (snoc hs' e)
  with assms flush_put_headers [of hs' q] show ?thesis by (simp add: put_headers_simps)
qed (use assms(2) in \<open>simp add: put_headers_simps\<close>)

lemma length_header_not_empty: "\<forall>e\<in>set (length_header b). fst e \<noteq> [] \<and> snd e \<noteq> []"
  using decimal_show_nat by (simp add: length_header_def)

lemma put_headers_kept [simp]:
  "p_raw_url (put_headers hs q) = p_raw_url q" "qs_point (put_headers hs q) = qs_point q" "p_body (put_headers hs q) = p_body q"
  "http_major (put_headers hs q) = http_major q" "http_minor (put_headers hs q) = http_minor q"
  "handler (put_headers hs q) = handler q" "lenient_http_headers (put_headers hs q) = lenient_http_headers q"
  "saved_nread (put_headers hs q) = saved_nread q"
  by (induction hs arbitrary: q) (simp_all add: put_headers_simps put_header_def flush_def)

lemma headers_done_keep_alive:
  assumes "http_major q = 1" "http_minor q = 1" "\<not> f_connection_close (flags q)"
  shows "p_keep_alive (headers_done q)" "\<not> p_close_connection (headers_done q)"
  using assms by (simp_all add: headers_done_def set_connection_parameters_def Let_def)

text \<open>Up to the first header.\<close>

definition request_line :: "http_method \<Rightarrow> string \<Rightarrow> string" where
  "request_line m u = method_strings ! method_value m @ '' '' @ u @ '' HTTP/1.1'' @ crlf"

lemma method_name_bytes:
  "CHR '' '' \<notin> set (method_strings ! method_value m)" "CHR 0x00 \<notin> set (method_strings ! method_value m)"
  "method_strings ! method_value m \<noteq> []" "hd (method_strings ! method_value m) \<noteq> CR" "hd (method_strings ! method_value m) \<noteq> LF"
  by (cases m; simp add: method_strings_def CR_def LF_def)+

definition at_headers :: "http_method \<Rightarrow> string \<Rightarrow> 'h \<Rightarrow> 'h HTTPParser \<Rightarrow> bool" where
  "at_headers m u c q \<longleftrightarrow> state q = s_header_field_start \<and> simple_flags q \<and> flags q = no_flags \<and> content_length q = -1 \<and>
     header_building_state q = 0 \<and> header_field q = [] \<and> header_value q = [] \<and> p_headers q = [] \<and> p_raw_url q = u \<and>
     p_body q = [] \<and> qs_point q = (if CHR ''?'' \<in> set u then of_nat (length (url_path u)) else 0) \<and> pmethod q = m \<and>
     http_major q = 1 \<and> http_minor q = 1 \<and> handler q = c \<and> \<not> lenient_http_headers q"

lemma exec_request_line:
  fixes q :: "'h HTTPParser"
  assumes "fresh q" "url_ok u" "m \<noteq> M_Connect" "length data \<le> 81920" "data = request_line m u @ r"
  shows "\<exists>q4 us. exec_loop (parser_settings hh h) data False (start_locals q) =
      exec_loop (parser_settings hh h) data False (locals_at (length (request_line m u)) no_marks us q4) \<and>
    at_headers m u (handler q) q4"
proof -
  let ?S = "parser_settings hh h" let ?s = "method_strings ! method_value m"
  obtain c w where s: "?s = c # w" using method_name_bytes(3) [of m] by (cases ?s) auto
  obtain m1 where m1: "map_of first_methods c = Some m1" using first_method_known [of m] s by auto
  have run: "method_run m1 1 w = Some m" using method_run_complete [of m m1] m1 s by simp
  have c: "c \<noteq> CR" "c \<noteq> LF" "CHR '' '' \<notin> set w" "CHR 0x00 \<notin> set w" using method_name_bytes [of m] s by auto
  have d0: "drop 0 data = c # w @ CHR '' '' # u @ '' HTTP/1.1'' @ crlf @ r" using assms(5) s by (simp add: request_line_def)
  have d1: "drop 1 data = w @ CHR '' '' # u @ CHR '' '' # ''HTTP/1.1'' @ crlf @ r" using drop_SucD [OF d0] by simp
  let ?i = "Suc (1 + length w)"
  have d2: "drop ?i data = u @ CHR '' '' # ''HTTP/1.1'' @ crlf @ r"
    by (rule drop_SucD [OF drop_appendD [OF d1]])
  have d3: "drop (Suc (?i + length u)) data = ''HTTP/1.1'' @ crlf @ r"
    by (rule drop_SucD [OF drop_appendD [OF d2]])
  obtain j where j: "exec_loop ?S data False (locals_at 1 no_marks None (begun m1 q)) =
      exec_loop ?S data False (locals_at ?i no_marks None ((begun m1 q)\<lparr>pmethod := m, index := j, state := s_req_spaces_before_url\<rparr>))"
    using exec_method_name [OF d1, of "begun m1 q" m ?S] run c(3,4) first_methods_index [OF m1] assms(4)
    by (auto simp: begun_def clear_parser_def)
  define q2 where "q2 = (begun m1 q)\<lparr>pmethod := m, index := j, state := s_req_spaces_before_url\<rparr>"
  define q4 where "q4 = (with_url u q2)\<lparr>http_major := 1, http_minor := 1, state := s_header_field_start\<rparr>"
  have ok: "http_errno q2 = CHPE_OK" using assms(1) by (simp add: q2_def begun_def clear_parser_def fresh_def)
  have "exec_loop ?S data False (start_locals q) = exec_loop ?S data False (locals_at 1 no_marks None (begun m1 q))"
    by (rule exec_start [OF assms(1) d0 m1 c(1,2) assms(4)])
  also note j
  also have "exec_loop ?S data False (locals_at ?i no_marks None ((begun m1 q)\<lparr>pmethod := m, index := j, state := s_req_spaces_before_url\<rparr>)) =
      exec_loop ?S data False (locals_at (Suc (?i + length u)) no_marks (Some ?i) (with_url u q2))"
    unfolding q2_def [symmetric] using assms(3) ok
    by (intro exec_url [OF d2 assms(2)]) (simp_all add: assms(4) q2_def)
  also have "\<dots> = exec_loop ?S data False (locals_at (Suc (?i + length u) + 10) no_marks (Some ?i) q4)"
    unfolding q4_def by (rule exec_version [OF d3]) (simp_all add: assms(4) with_url_def)
  also have "Suc (?i + length u) + 10 = length (request_line m u)" using s by (simp add: request_line_def crlf_def)
  finally have "exec_loop ?S data False (start_locals q) =
      exec_loop ?S data False (locals_at (length (request_line m u)) no_marks (Some ?i) q4)" .
  moreover have "at_headers m u (handler q) q4"
    using assms(1,3)
    by (simp add: at_headers_def q4_def q2_def with_url_def begun_def clear_parser_def simple_flags_def no_flags_def fresh_def)
  ultimately show ?thesis by blast
qed

text \<open>What the handler is given: \<open>P\<close> in terms of the client's request.\<close>

definition carries ::
    "http_method \<Rightarrow> string \<Rightarrow> query_string \<Rightarrow> (string \<times> string) list \<Rightarrow> string \<Rightarrow> 'h \<Rightarrow> 'h HTTPParser \<Rightarrow> bool" where
  "carries m u Q hs b c P \<longleftrightarrow> fresh P \<and> handler P = c \<and>
     to_request () P = make_request m u (url_path u) Q hs b 1 1 True False False ()"

lemma url_path_take:
  assumes "qs = (if CHR ''?'' \<in> set u then of_nat (length (url_path u)) else 0)" "length u < 2 ^ 64" "url_ok u"
  shows "(if qs \<noteq> 0 then take (unat (qs :: u64)) u else u) = url_path u"
proof (cases "CHR ''?'' \<in> set u")
  case True
  have l: "length (url_path u) \<le> length u" unfolding url_path_def by (rule length_takeWhile_le)
  have n: "unat qs = length (url_path u)" using l assms(1,2) True by (simp add: unat_of_nat)
  have "url_path u \<noteq> []" using assms(3) by (cases u) (auto simp: url_ok_def url_path_def)
  then have "qs \<noteq> 0" using n by (metis length_0_conv unat_0)
  moreover have "take (length (url_path u)) u = url_path u" unfolding url_path_def by (rule takeWhile_eq_take [symmetric])
  ultimately show ?thesis using n by simp
next
  case False
  then have "url_path u = u" by (auto simp: url_path_def takeWhile_eq_all_conv)
  with False assms(1) show ?thesis by simp
qed

lemma carries_message:
  fixes q :: "'h HTTPParser"
  assumes "simple_flags q" "\<not> f_connection_close (flags q)" "http_major q = 1" "http_minor q = 1" "pmethod q = m" "p_raw_url q = u"
    and "qs_point q = (if CHR ''?'' \<in> set u then of_nat (length (url_path u)) else 0)" "length u < 2 ^ 64" "url_ok u"
    and "(if header_field q \<noteq> [] then p_headers q @ [(header_field q, header_value q)] else p_headers q) = hs"
    and "handler q = c" "\<not> lenient_http_headers q"
  shows "carries m u Q hs b c (message Q ((headers_done q)\<lparr>saved_nread := 0, content_length := n, p_body := b, state := s_start_req\<rparr>))"
proof -
  have "(if qs_point q \<noteq> 0 then take (unat (qs_point q)) u else u) = url_path u" by (rule url_path_take [OF assms(7-9)])
  with assms(1-6,10-12) headers_done_keep_alive [of q] show ?thesis
    by (cases "qs_point q = 0")
      (simp_all add: carries_def message_def to_request_def make_request_def fresh_def simple_flags_def)
qed

lemma at_headersD:
  assumes "at_headers m u c q"
  shows "state q = s_header_field_start" "simple_flags q" "flags q = no_flags" "content_length q = -1"
    "header_building_state q = 0" "header_field q = []" "header_value q = []" "p_headers q = []" "p_raw_url q = u"
    "p_body q = []" "qs_point q = (if CHR ''?'' \<in> set u then of_nat (length (url_path u)) else 0)" "pmethod q = m"
    "http_major q = 1" "http_minor q = 1" "handler q = c" "\<not> lenient_http_headers q"
  using assms by (simp_all add: at_headers_def)

text \<open>From the end of the headers, without and with a body.\<close>

lemma deliver_no_body:
  fixes q :: "'h HTTPParser"
  assumes "at_headers m u c q" "\<forall>e\<in>set hs. fst e \<noteq> [] \<and> snd e \<noteq> []" "drop j data = CR # LF # []" "length data \<le> 81920"
    and "length u < 2 ^ 64" "url_ok u" "query_string_of u = Some Q" "keeps_core h" "\<And>p. p_headers p = hs \<Longrightarrow> hh p = Some p"
  shows "\<exists>P. carries m u Q hs [] c P \<and> exec_loop (parser_settings hh h) data False (locals_at j no_marks us
    ((put_headers hs q)\<lparr>index := k, header_state := h', state := s_header_field_start\<rparr>)) = delivered h (length data) P"
proof -
  let ?q = "(put_headers hs q)\<lparr>index := k, header_state := h', state := s_header_field_start\<rparr>"
  let ?P = "message Q ((headers_done ?q)\<lparr>saved_nread := 0, state := s_start_req\<rparr>)"
  note q = at_headersD [OF assms(1)]
  have hs: "(if header_field ?q \<noteq> [] then p_headers ?q @ [(header_field ?q, header_value ?q)] else p_headers ?q) = hs"
    using closed_headers [of hs q] assms(2) q by (cases "header_field (put_headers hs q) = []") (simp_all add: Let_def)
  have "exec_loop (parser_settings hh h) data False (locals_at j no_marks us ?q) = delivered h (length data) ?P"
  proof (rule exec_no_body [OF assms(3)])
    show "hh (headers_done ?q) = Some (headers_done ?q)" by (rule assms(9)) (use hs in simp)
  qed (use q assms(4,7,8) in \<open>simp_all add: simple_flags_def no_flags_def\<close>)
  moreover have rec: "(headers_done ?q)\<lparr>saved_nread := 0, content_length := -1, p_body := [], state := s_start_req\<rparr> =
      (headers_done ?q)\<lparr>saved_nread := 0, state := s_start_req\<rparr>"
    using q headers_done_fields(7,10) [of ?q] by (cases "headers_done ?q") simp
  have "carries m u Q hs [] c
      (message Q ((headers_done ?q)\<lparr>saved_nread := 0, content_length := -1, p_body := [], state := s_start_req\<rparr>))"
    by (rule carries_message [OF _ _ _ _ _ _ _ assms(5,6) hs]) (use q in \<open>simp_all add: simple_flags_def no_flags_def\<close>)
  then have "carries m u Q hs [] c ?P" unfolding rec .
  ultimately show ?thesis by blast
qed

lemma deliver_body:
  fixes q :: "'h HTTPParser"
  assumes "at_headers m u c q" "\<forall>e\<in>set hs. fst e \<noteq> [] \<and> snd e \<noteq> []" "length data \<le> 81920"
    and "drop j data = header_text (''Content-Length'', show_nat (length b)) @ crlf @ b" "b \<noteq> []"
    and "length u < 2 ^ 64" "url_ok u" "query_string_of u = Some Q" "keeps_core h"
    and "\<And>p. p_headers p = hs @ length_header b \<Longrightarrow> hh p = Some p"
  shows "\<exists>P. carries m u Q (hs @ length_header b) b c P \<and> exec_loop (parser_settings hh h) data False (locals_at j no_marks us
    ((put_headers hs q)\<lparr>index := k, header_state := h', state := s_header_field_start\<rparr>)) = delivered h (length data) P"
proof -
  let ?S = "parser_settings hh h" let ?e = "(''Content-Length'', show_nat (length b))" let ?j = "j + length (header_text ?e)"
  let ?q = "(put_headers hs q)\<lparr>index := k, header_state := h', state := s_header_field_start\<rparr>"
  note q = at_headersD [OF assms(1)]
  have lh: "length_header b = [?e]" using assms(5) by (simp add: length_header_def)
  have d: "drop ?j data = CR # LF # b" using drop_appendD [OF assms(4)] by (simp add: crlf_def)
  have small: "length b < 2 ^ 32" using arg_cong [OF d, of length] assms(3) by simp
  obtain i where i: "exec_loop ?S data False (locals_at j no_marks us ?q) = exec_loop ?S data False (locals_at ?j no_marks us
      ((put_header ?e ?q)\<lparr>index := i, header_state := h_content_length_num,
        flags := (flags ?q)\<lparr>f_contentlength := True\<rparr>, content_length := of_nat (length b), state := s_header_value_lws\<rparr>))"
    using exec_length_header [OF assms(4) small, of ?q hh h us] q assms(3) put_headers_building [of q hs]
    by (auto simp: simple_flags_def no_flags_def)
  let ?q1 = "(put_header ?e ?q)\<lparr>index := i, header_state := h_content_length_num,
        flags := (flags ?q)\<lparr>f_contentlength := True\<rparr>, content_length := of_nat (length b), state := s_header_value_lws\<rparr>"
  let ?q2 = "?q1\<lparr>state := s_header_field_start\<rparr>"
  let ?P = "message Q ((headers_done ?q2)\<lparr>saved_nread := 0, content_length := 0, p_body := b, state := s_start_req\<rparr>)"
  have lws: "exec_loop ?S data False (locals_at ?j no_marks us ?q1) = exec_loop ?S data False (locals_at ?j no_marks us ?q2)"
    by (rule exec_line_end [OF d]) (use assms(3) in \<open>simp_all add: CR_def TAB_def\<close>)
  have "(let p = put_headers (hs @ length_header b) q
      in if header_field p \<noteq> [] then p_headers p @ [(header_field p, header_value p)] else p_headers p) =
      p_headers q @ (hs @ length_header b)"
    by (rule closed_headers) (use assms(2) length_header_not_empty [of b] q in auto)
  then have hs: "(if header_field ?q2 \<noteq> [] then p_headers ?q2 @ [(header_field ?q2, header_value ?q2)] else p_headers ?q2) =
      hs @ length_header b"
    using q unfolding lh put_headers_simps by (simp add: Let_def flush_commute)
  have kept: "p_raw_url ?q2 = u" "p_body ?q2 = []" "qs_point ?q2 = qs_point q" "http_major ?q2 = 1" "http_minor ?q2 = 1"
    "handler ?q2 = c" "\<not> lenient_http_headers ?q2" "pmethod ?q2 = m" "simple_flags ?q2" "\<not> f_connection_close (flags ?q2)"
    using q by (simp_all add: put_header_def flush_def simple_flags_def no_flags_def)
  have "exec_loop ?S data False (locals_at ?j no_marks us ?q2) = delivered h (length data) ?P"
  proof (rule exec_body [OF d])
    show "hh (headers_done ?q2) = Some (headers_done ?q2)" by (rule assms(10)) (use hs in simp)
  qed (use kept assms(3,5,8,9) in simp_all)
  moreover have "carries m u Q (hs @ length_header b) b c ?P"
    using kept q assms(6,7) hs by (intro carries_message) simp_all
  ultimately show ?thesis using i lws by auto
qed

lemma request_read:
  assumes "fresh q" "keeps_core h" "url_ok u" "m \<noteq> M_Connect" "\<forall>e\<in>set hs. plain_header e" "query_string_of u = Some Q"
    and "length (request_text m u hs b) \<le> 81920"
    and "\<And>p. p_headers p = hs @ length_header b \<Longrightarrow> hh p = Some p"
  shows "\<exists>P. carries m u Q (hs @ length_header b) b (handler q) P \<and>
    feed hh h (request_text m u hs b) q = map_option (\<lambda>p. (True, p\<lparr>saved_nread := 0\<rparr>)) (h P)"
proof -
  let ?S = "parser_settings hh h"
  define data where "data = request_text m u hs b"
  let ?rest = "concat (map header_text hs) @ concat (map header_text (length_header b)) @ crlf @ b"
  let ?i = "length (request_line m u)" let ?j = "?i + length (concat (map header_text hs))"
  have len: "length data \<le> 81920" using assms(7) by (simp add: data_def)
  have split: "data = request_line m u @ ?rest" by (simp add: data_def request_text_def request_line_def)
  obtain q4 us where q4: "exec_loop ?S data False (start_locals q) = exec_loop ?S data False (locals_at ?i no_marks us q4)"
    "at_headers m u (handler q) q4"
    using exec_request_line [OF assms(1,3,4) len split, of hh h] by auto
  have d: "drop ?i data = ?rest" using split by simp
  have d2: "drop ?j data = concat (map header_text (length_header b)) @ crlf @ b" by (rule drop_appendD [OF d])
  have u64: "length u < 2 ^ 64" using len by (simp add: split request_line_def)
  have plain: "\<forall>e\<in>set hs. fst e \<noteq> [] \<and> snd e \<noteq> []" using assms(5) plain_headerD by auto
  have run: "http_parser_execute ?S q data = exec_loop ?S data False (start_locals q)"
    using assms(1) split method_name_bytes(3) [of m] by (simp add: http_parser_execute_def fresh_def request_line_def)
  have "hd (concat (map header_text (length_header b)) @ crlf @ b) \<in> {CR, CHR ''C''}"
    by (simp add: length_header_def header_text_def crlf_def)
  then have "hd (concat (map header_text (length_header b)) @ crlf @ b) \<notin> {CHR '' '', TAB}" by (auto simp: CR_def TAB_def)
  then obtain k h' where h': "exec_loop ?S data False (locals_at ?i no_marks us q4) = exec_loop ?S data False (locals_at ?j no_marks us
      ((put_headers hs q4)\<lparr>index := k, header_state := h', state := s_header_field_start\<rparr>))"
    using exec_headers [OF d assms(5), of q4 hh h us] q4(2) len by (auto simp: crlf_def simple_flags_def at_headers_def)
  obtain P where P: "carries m u Q (hs @ length_header b) b (handler q) P" "exec_loop ?S data False (locals_at ?j no_marks us
      ((put_headers hs q4)\<lparr>index := k, header_state := h', state := s_header_field_start\<rparr>)) = delivered h (length data) P"
  proof (cases "b = []")
    case True
    with d2 have "drop ?j data = CR # LF # []" by (simp add: length_header_def crlf_def)
    from deliver_no_body [OF q4(2) plain this len u64 assms(3,6,2), of hh] assms(8) True that show thesis
      by (fastforce simp: length_header_def)
  next
    case False
    with d2 have "drop ?j data = header_text (''Content-Length'', show_nat (length b)) @ crlf @ b" by (simp add: length_header_def)
    from deliver_body [OF q4(2) plain len this False u64 assms(3,6,2,8)] that show thesis by blast
  qed
  have "http_parser_execute ?S q data = delivered h (length data) P" using run q4(1) h' P(2) by simp
  moreover have "http_errno p = CHPE_OK" if "h P = Some p" for p
    using that assms(2) P(1) coreD [of p P] by (auto simp: keeps_core_def core_def carries_def fresh_def)
  ultimately have "feed hh h data q = map_option (\<lambda>p. (True, p\<lparr>saved_nread := 0\<rparr>)) (h P)"
    by (cases "h P") (simp_all add: feed_def delivered_def)
  with P(1) show ?thesis unfolding data_def by blast
qed



end
