(* ===== verification/Utility.thy ===== *)
theory Utility
  imports Url_Decode
begin

text \<open>
  \<open>utility.h\<close>: the functions with which the compiler reads the tags of a rule (\<open><int>\<close> and so on), the
  number that stands for a list of argument types, and \<open>sanitize_filename\<close>, which makes the rest of a URL
  safe to use as the name of a file.
\<close>

section \<open>Tags of a rule\<close>

text \<open>\<open>const_str\<close> checks its index; a compile-time exception is a rule that does not compile.\<close>

function find_closing_tag :: "string \<Rightarrow> nat \<Rightarrow> nat outcome" where
  "find_closing_tag s p =
     (if p < length s then (if s ! p = CHR ''>'' then Ret p else find_closing_tag s (p + 1))
      else Throw Out_of_range)"
  by pat_completeness auto
termination by (relation "measure (\<lambda>(s, p). length s - p)") auto

function is_valid :: "string \<Rightarrow> nat \<Rightarrow> int \<Rightarrow> bool" where
  "is_valid s i f \<longleftrightarrow>
     (if i \<ge> length s then f = 0
      else if f < 0 \<or> f \<ge> 2 then False
      else if s ! i = CHR ''<'' then is_valid s (i + 1) (f + 1)
      else if s ! i = CHR ''>'' then is_valid s (i + 1) (f - 1)
      else is_valid s (i + 1) f)"
  by pat_completeness auto
termination by (relation "measure (\<lambda>(s, i, f). length s - i)") auto

fun is_equ_n :: "string \<Rightarrow> nat \<Rightarrow> string \<Rightarrow> nat \<Rightarrow> nat \<Rightarrow> bool" where
  "is_equ_n a ai b bi n \<longleftrightarrow>
     (if length a < ai + n \<or> length b < bi + n then False
      else case n of
        0 \<Rightarrow> True
      | Suc m \<Rightarrow> (if a ! ai \<noteq> b ! bi then False else is_equ_n a (ai + 1) b (bi + 1) m))"

declare find_closing_tag.simps [simp del] is_valid.simps [simp del] is_equ_n.simps [simp del]

definition is_int :: "string \<Rightarrow> nat \<Rightarrow> bool" where
  "is_int s i \<longleftrightarrow> is_equ_n s i ''<int>'' 0 5"

definition is_uint :: "string \<Rightarrow> nat \<Rightarrow> bool" where
  "is_uint s i \<longleftrightarrow> is_equ_n s i ''<uint>'' 0 6"

definition is_float :: "string \<Rightarrow> nat \<Rightarrow> bool" where
  "is_float s i \<longleftrightarrow> is_equ_n s i ''<float>'' 0 7 \<or> is_equ_n s i ''<double>'' 0 8"

definition is_str :: "string \<Rightarrow> nat \<Rightarrow> bool" where
  "is_str s i \<longleftrightarrow> is_equ_n s i ''<str>'' 0 5 \<or> is_equ_n s i ''<string>'' 0 8"

definition is_path :: "string \<Rightarrow> nat \<Rightarrow> bool" where
  "is_path s i \<longleftrightarrow> is_equ_n s i ''<path>'' 0 6"

lemma find_closing_tag_bounds: "find_closing_tag s p = Ret q \<Longrightarrow> p \<le> q \<and> q < length s \<and> s ! q = CHR ''>''"
  by (induction s p rule: find_closing_tag.induct) (subst (asm) (2) find_closing_tag.simps, auto split: if_splits)

text \<open>
  The tags of a rule as the digits of a number to the base 6, the first tag the least. After a tag the
  search goes on at its closing bracket. The number is a \<open>uint64_t\<close>.
\<close>

definition tag_digit :: "string \<Rightarrow> nat \<Rightarrow> nat option" where
  "tag_digit s p =
     (if is_int s p then Some 1 else if is_uint s p then Some 2 else if is_float s p then Some 3
      else if is_str s p then Some 4 else if is_path s p then Some 5 else None)"

function get_parameter_tag :: "string \<Rightarrow> nat \<Rightarrow> nat outcome" where
  "get_parameter_tag s p =
     (if p \<ge> length s then Ret 0
      else if s ! p = CHR ''<'' then
        (case tag_digit s p of
           None \<Rightarrow> Throw (Runtime_error ''invalid parameter type'')
         | Some d \<Rightarrow>
             (case find_closing_tag s p of
                Ret q \<Rightarrow> bind_outcome (get_parameter_tag s q) (\<lambda>t. Ret ((t * 6 + d) mod 2 ^ 64))
              | Throw e \<Rightarrow> Throw e
              | UB \<Rightarrow> UB))
      else get_parameter_tag s (p + 1))"
  by pat_completeness auto
termination
proof (relation "measure (\<lambda>(s, p). length s - p)")
  fix s p d q
  assume *: "\<not> length s \<le> p" "s ! p = CHR ''<''" "find_closing_tag s p = Ret q"
  then have "p \<noteq> q" using find_closing_tag_bounds [of s p q] by auto
  with find_closing_tag_bounds [OF *(3)] show "((s, q), s, p) \<in> measure (\<lambda>(s, p). length s - p)" by auto
qed auto

declare get_parameter_tag.simps [simp del]

text \<open>At run time the rule is a C string, in which a tag that is not closed is another error.\<close>

definition tag_text_at :: "string \<Rightarrow> nat \<Rightarrow> string \<Rightarrow> bool" where
  "tag_text_at s p name \<longleftrightarrow> take (length name) (drop p s) = name"

function find_closing_tag_runtime :: "string \<Rightarrow> nat \<Rightarrow> nat outcome" where
  "find_closing_tag_runtime s p =
     (if p \<ge> length s then Throw (Runtime_error ''unmatched tag <'')
      else if s ! p = CHR ''>'' then Ret p else find_closing_tag_runtime s (p + 1))"
  by pat_completeness auto
termination by (relation "measure (\<lambda>(s, p). length s - p)") auto

declare find_closing_tag_runtime.simps [simp del]

lemma find_closing_tag_runtime_eq:
  "find_closing_tag_runtime s p =
     (case find_closing_tag s p of Ret q \<Rightarrow> Ret q | _ \<Rightarrow> Throw (Runtime_error ''unmatched tag <''))"
  by (induction s p rule: find_closing_tag.induct)
    (simp add: find_closing_tag_runtime.simps find_closing_tag.simps)

definition tag_digit_runtime :: "string \<Rightarrow> nat \<Rightarrow> nat option" where
  "tag_digit_runtime s p =
     (if tag_text_at s p ''<int>'' then Some 1 else if tag_text_at s p ''<uint>'' then Some 2
      else if tag_text_at s p ''<float>'' \<or> tag_text_at s p ''<double>'' then Some 3
      else if tag_text_at s p ''<str>'' \<or> tag_text_at s p ''<string>'' then Some 4
      else if tag_text_at s p ''<path>'' then Some 5 else None)"

function get_parameter_tag_runtime :: "string \<Rightarrow> nat \<Rightarrow> nat outcome" where
  "get_parameter_tag_runtime s p =
     (if p \<ge> length s then Ret 0
      else if s ! p = CHR ''<'' then
        (case tag_digit_runtime s p of
           None \<Rightarrow> Throw (Runtime_error ''invalid parameter type'')
         | Some d \<Rightarrow>
             (case find_closing_tag_runtime s p of
                Ret q \<Rightarrow> bind_outcome (get_parameter_tag_runtime s q) (\<lambda>t. Ret ((t * 6 + d) mod 2 ^ 64))
              | Throw e \<Rightarrow> Throw e
              | UB \<Rightarrow> UB))
      else get_parameter_tag_runtime s (p + 1))"
  by pat_completeness auto
termination
proof (relation "measure (\<lambda>(s, p). length s - p)")
  fix s p d q
  assume *: "\<not> length s \<le> p" "s ! p = CHR ''<''" "find_closing_tag_runtime s p = Ret q"
  then have q: "find_closing_tag s p = Ret q"
    by (auto simp: find_closing_tag_runtime_eq split: outcome.splits)
  then have "p \<noteq> q" using find_closing_tag_bounds [of s p q] * by auto
  with find_closing_tag_bounds [OF q] show "((s, q), s, p) \<in> measure (\<lambda>(s, p). length s - p)" by auto
qed auto

declare get_parameter_tag_runtime.simps [simp del]

section \<open>Types of arguments\<close>

datatype arg_type = T_int64 | T_uint64 | T_double | T_string

fun single_tag_to_type :: "nat \<Rightarrow> arg_type option" where
  "single_tag_to_type n =
     (if n = 1 then Some T_int64 else if n = 2 then Some T_uint64 else if n = 3 then Some T_double
      else if n = 4 \<or> n = 5 then Some T_string else None)"

text \<open>\<open>arguments<Tag>\<close>; \<open>None\<close> is a tag for which the template has no type.\<close>

fun arguments :: "nat \<Rightarrow> arg_type list option" where
  "arguments t =
     (if t = 0 then Some []
      else case (single_tag_to_type (t mod 6), arguments (t div 6)) of
        (Some a, Some as) \<Rightarrow> Some (a # as) | _ \<Rightarrow> None)"

declare arguments.simps [simp del]

text \<open>The types of a handler's arguments; one that is no parameter (a request, say) has the tag 0.\<close>

datatype cpp_type = C_int | C_char | C_short | C_long | C_long_long
  | C_unsigned | C_unsigned_char | C_unsigned_short | C_unsigned_long | C_unsigned_long_long
  | C_double | C_string | C_other

fun parameter_tag :: "cpp_type \<Rightarrow> nat" where
  "parameter_tag C_int = 1"
| "parameter_tag C_char = 1"
| "parameter_tag C_short = 1"
| "parameter_tag C_long = 1"
| "parameter_tag C_long_long = 1"
| "parameter_tag C_unsigned = 2"
| "parameter_tag C_unsigned_char = 2"
| "parameter_tag C_unsigned_short = 2"
| "parameter_tag C_unsigned_long = 2"
| "parameter_tag C_unsigned_long_long = 2"
| "parameter_tag C_double = 3"
| "parameter_tag C_string = 4"
| "parameter_tag C_other = 0"

fun compute_parameter_tag_from_args_list :: "cpp_type list \<Rightarrow> nat" where
  "compute_parameter_tag_from_args_list [] = 0"
| "compute_parameter_tag_from_args_list (a # as) =
     (let sub_value = compute_parameter_tag_from_args_list as
      in if parameter_tag a \<noteq> 0 then sub_value * 6 + parameter_tag a else sub_value)"

text \<open>Both digits are taken from \<open>a\<close>.\<close>

fun is_parameter_tag_compatible :: "nat \<Rightarrow> nat \<Rightarrow> bool" where
  "is_parameter_tag_compatible a b \<longleftrightarrow>
     (if a = 0 then b = 0
      else if b = 0 then a = 0
      else
        (let sa = a mod 6; sb = a mod 6;
             sa' = (if sa = 5 then 4 else sa); sb' = (if sb = 5 then 4 else sb)
         in if sa' \<noteq> sb' then False else is_parameter_tag_compatible (a div 6) (b div 6)))"

declare is_parameter_tag_compatible.simps [simp del]

section \<open>File names\<close>

definition toUpper :: "char \<Rightarrow> char" where
  "toUpper c = (if 97 \<le> byte c \<and> byte c \<le> 122 then char_of (byte c - 32) else c)"

fun special_end :: "string \<Rightarrow> nat \<Rightarrow> string \<Rightarrow> nat option" where
  "special_end source i [] = Some i"
| "special_end source i (p # ps) =
     (if i \<ge> length source then None
      else if toUpper (source ! i) \<noteq> p then None else special_end source (i + 1) ps)"

definition number_end :: "string \<Rightarrow> bool \<Rightarrow> nat \<Rightarrow> nat option" where
  "number_end source includeNumber i =
     (if includeNumber
      then (if i \<ge> length source \<or> byte (source ! i) < 49 \<or> byte (source ! i) > 57 then None else Some (i + 1))
      else Some i)"

definition sanitizeSpecialFile :: "nat \<Rightarrow> string \<Rightarrow> bool \<Rightarrow> char \<Rightarrow> string \<Rightarrow> string" where
  "sanitizeSpecialFile ofs pattern includeNumber replacement source =
     (case Option.bind (special_end source ofs pattern) (number_end source includeNumber) of
        None \<Rightarrow> source
      | Some i \<Rightarrow>
          (if i \<ge> length source \<or> source ! i \<in> {CHR ''.'', CHR '':'', CHR ''/'', CHR 0x5C}
           then (take (ofs + 1) source @ drop i source)[ofs := replacement] else source))"

definition sanitize_entry :: "nat \<Rightarrow> char \<Rightarrow> string \<Rightarrow> string" where
  "sanitize_entry i replacement data =
     (let c = toUpper (data ! i)
      in if c = CHR ''A'' then sanitizeSpecialFile i ''AUX'' False replacement data
         else if c = CHR ''C'' then
           sanitizeSpecialFile i ''COM'' True replacement (sanitizeSpecialFile i ''CON'' False replacement data)
         else if c = CHR ''L'' then sanitizeSpecialFile i ''LPT'' True replacement data
         else if c = CHR ''N'' then sanitizeSpecialFile i ''NUL'' False replacement data
         else if c = CHR ''P'' then sanitizeSpecialFile i ''PRN'' False replacement data
         else if c = CHR ''.'' then sanitizeSpecialFile i ''..'' False replacement data
         else data)"

definition bad_char :: "char \<Rightarrow> bool" where
  "bad_char c \<longleftrightarrow> byte c < 32 \<or> 128 \<le> byte c \<and> byte c \<le> 159 \<or> c \<in> set ''?<>:*|'' \<or> c = CHR 0x22"

definition slash :: "char \<Rightarrow> bool" where
  "slash c \<longleftrightarrow> c = CHR ''/'' \<or> c = CHR 0x5C"

lemma special_end_Some: "special_end s i p = Some k \<Longrightarrow> k = i + length p"
proof (induction p arbitrary: i)
  case (Cons x p)
  then have "special_end s (i + 1) p = Some k" by (simp split: if_splits)
  from Cons.IH [OF this] show ?case by simp
qed simp

lemma number_end_Some: "number_end s b i = Some k \<Longrightarrow> i \<le> k \<and> k \<le> Suc i"
  by (auto simp: number_end_def split: if_splits)

lemma length_sanitizeSpecialFile:
  assumes "p \<noteq> []" "i < length s"
  shows "length (sanitizeSpecialFile i p b r s) \<le> length s"
proof (cases "Option.bind (special_end s i p) (number_end s b)")
  case None
  then show ?thesis by (simp add: sanitizeSpecialFile_def)
next
  case (Some k)
  then obtain j where "special_end s i p = Some j" "number_end s b j = Some k" by (auto simp: bind_eq_Some_conv)
  then have "i < k" using special_end_Some [of s i p j] number_end_Some [of s b j k] assms(1) by (cases p) auto
  then have "Suc (i + (length s - k)) \<le> length s" using assms(2) by arith
  with Some assms(2) show ?thesis by (simp add: sanitizeSpecialFile_def)
qed

lemma sanitizeSpecialFile_index: "i < length s \<Longrightarrow> i < length (sanitizeSpecialFile i p b r s)"
  by (auto simp: sanitizeSpecialFile_def split: option.splits)

lemma length_sanitize_entry:
  assumes "i < length s"
  shows "length (sanitize_entry i r s) \<le> length s"
proof -
  have "length (sanitizeSpecialFile i ''COM'' True r (sanitizeSpecialFile i ''CON'' False r s)) \<le> length s"
    using order_trans [OF length_sanitizeSpecialFile length_sanitizeSpecialFile] assms
    by (simp add: sanitizeSpecialFile_index)
  then show ?thesis using assms by (simp add: sanitize_entry_def Let_def length_sanitizeSpecialFile)
qed

definition check_entry :: "bool \<Rightarrow> nat \<Rightarrow> char \<Rightarrow> string \<Rightarrow> string" where
  "check_entry b i r s = (if b then sanitize_entry i r s else s)"

lemma check_entry_progress: "i < length s \<Longrightarrow> length (check_entry b i r s) - Suc i < length s - i"
  using length_sanitize_entry [of i s r] by (auto simp: check_entry_def)

function sanitize_loop :: "char \<Rightarrow> nat \<Rightarrow> bool \<Rightarrow> string \<Rightarrow> string" where
  "sanitize_loop replacement i checkForSpecialEntries data =
     (if i \<ge> length data then data
      else
        (let d = check_entry checkForSpecialEntries i replacement data; c = d ! i
         in if bad_char c then sanitize_loop replacement (i + 1) False (d[i := replacement])
            else if slash c then
              (if i = 0 then sanitize_loop replacement (i + 1) False (d[i := replacement])
               else sanitize_loop replacement (i + 1) True d)
            else sanitize_loop replacement (i + 1) False d))"
  by pat_completeness auto
termination
  by (relation "measure (\<lambda>(r, i, b, data). length data - i)") 
    (auto intro: check_entry_progress check_entry_progress [where i = 0, simplified])

declare sanitize_loop.simps [simp del]

definition sanitize_filename :: "string \<Rightarrow> char \<Rightarrow> string" where
  "sanitize_filename data replacement = sanitize_loop replacement 0 True (take 255 data)"

end
