(* ===== verification/Url_Trie.thy ===== *)
theory Url_Trie
  imports Url_Decode
begin

text \<open>
  The search tree of the router (\<open>Trie\<close> of \<open>routing.h\<close>): its nodes, how a rule is added, how the tree is
  compressed, and how a URL is looked up with the parameters cut out of it. A node owns its children, so
  that the tree of pointers is a datatype; the walk of \<open>add\<close> down the tree rebuilds the path it takes.
  \<open>ParamType::MAX\<close>, which marks a node without a parameter, is \<open>None\<close>. Positions are \<open>nat\<close>: a URL is
  shorter than the \<open>2^32\<close> of the code's \<open>unsigned\<close>, because the header bytes of a request are limited.
\<close>

section \<open>Numbers in a URL\<close>

text \<open>
  What \<open>strtoll\<close> and \<open>strtoull\<close> with base 10 read: white space, a sign, digits. The results are the sign,
  the value of the digits and the number of bytes consumed, which is 0 when there is no digit.
\<close>

definition is_digit :: "char \<Rightarrow> bool" where
  "is_digit c \<longleftrightarrow> 48 \<le> byte c \<and> byte c \<le> 57"

definition dec_value :: "string \<Rightarrow> nat" where
  "dec_value ds = foldl (\<lambda>n c. 10 * n + (byte c - 48)) 0 ds"

definition scan_number :: "string \<Rightarrow> bool \<times> nat \<times> nat" where
  "scan_number s =
     (let blanks = takeWhile is_space s; s1 = drop (length blanks) s;
          sign = takeWhile (\<lambda>c. c = CHR ''+'' \<or> c = CHR ''-'') (take 1 s1);
          ds = takeWhile is_digit (drop (length sign) s1)
      in (sign = ''-'', dec_value ds, if ds = [] then 0 else length blanks + length sign + length ds))"

text \<open>The value, whether \<open>errno\<close> is \<open>ERANGE\<close>, and where the conversion ended.\<close>

definition strtoll :: "string \<Rightarrow> u64 \<times> bool \<times> nat" where
  "strtoll s =
     (case scan_number s of (negative, v, n) \<Rightarrow>
        if negative then (if v > 2 ^ 63 then (2 ^ 63, True, n) else (- of_nat v, False, n))
        else (if v \<ge> 2 ^ 63 then (2 ^ 63 - 1, True, n) else (of_nat v, False, n)))"

definition strtoull :: "string \<Rightarrow> u64 \<times> bool \<times> nat" where
  "strtoull s =
     (case scan_number s of (negative, v, n) \<Rightarrow>
        if v \<ge> 2 ^ 64 then (- 1, True, n)
        else if negative then (- of_nat v, False, n) else (of_nat v, False, n))"

text \<open>A \<open>double\<close> is opaque, so \<open>strtod\<close> is a parameter; it ends inside the string it reads.\<close>

type_synonym 'd to_double = "string \<Rightarrow> 'd \<times> bool \<times> nat"

definition to_double_ok :: "'d to_double \<Rightarrow> bool" where
  "to_double_ok strtod \<longleftrightarrow> (\<forall>s. snd (snd (strtod s)) \<le> length s)"

section \<open>Nodes\<close>

definition INVALID_BP_ID :: u16 where
  "INVALID_BP_ID = - 1"

definition RULE_SPECIAL_REDIRECT_SLASH :: u16 where
  "RULE_SPECIAL_REDIRECT_SLASH = 1"

datatype node =
  Node (rule_index: u16) (blueprint_index: u16) (key: string) (param: "param_type option") (children: "node list")

definition new_node :: node where
  "new_node = Node 0 INVALID_BP_ID [] None []"

definition IsSimpleNode :: "node \<Rightarrow> bool" where
  "IsSimpleNode nd \<longleftrightarrow>
     rule_index nd = 0 \<and> blueprint_index nd = INVALID_BP_ID \<and> length (children nd) < 2 \<and>
     param nd = None \<and> (\<forall>x \<in> set (children nd). param x = None)"

text \<open>The head of a tree is a node; a new tree is the new node.\<close>

definition trie_is_empty :: "node \<Rightarrow> bool" where
  "trie_is_empty head \<longleftrightarrow> children head = []"

fun get_size :: "node \<Rightarrow> nat" where
  "get_size (Node r b k p chs) = 5 + length k + sum_list (map get_size chs)"

section \<open>Compressing the tree\<close>

lemma size_children: "x \<in> set (children nd) \<Longrightarrow> size x < size nd"
  by (cases nd) (auto dest: size_list_estimation' [where f = size, OF _ order_refl] simp: less_Suc_eq_le)

lemma size_only_child: "size_list size (children (hd (children nd))) \<le> size_list size (children nd)"
  if "children nd \<noteq> []"
proof -
  obtain x xs where "children nd = x # xs" using \<open>children nd \<noteq> []\<close> by (cases "children nd") auto
  then show ?thesis by (cases x) simp
qed

function optimizeNode :: "node \<Rightarrow> node" where
  "optimizeNode nd =
     (if children nd = [] then nd
      else if IsSimpleNode nd
      then (let child_temp = hd (children nd)
            in optimizeNode (Node (rule_index child_temp) (blueprint_index child_temp)
                 (key nd @ key child_temp) (param nd) (children child_temp)))
      else Node (rule_index nd) (blueprint_index nd) (key nd) (param nd) (map optimizeNode (children nd)))"
  by pat_completeness auto
termination
proof (relation "measure size")
  fix nd :: node and child_temp
  assume *: "children nd \<noteq> []" "child_temp = hd (children nd)"
  then have "child_temp \<in> set (children nd)" by simp
  then have "size child_temp < size nd" by (rule size_children)
  then show "(Node (rule_index child_temp) (blueprint_index child_temp) (key nd @ key child_temp)
      (param nd) (children child_temp), nd) \<in> measure size" by (cases child_temp) simp
qed (auto intro: size_children)

declare optimizeNode.simps [simp del]

definition optimize :: "node \<Rightarrow> node" where
  "optimize head =
     Node (rule_index head) (blueprint_index head) (key head) (param head) (map optimizeNode (children head))"

definition trie_validate :: "node \<Rightarrow> node outcome" where
  "trie_validate head =
     (if \<not> IsSimpleNode head then Throw (Runtime_error ''Internal error: Trie header should be simple!'')
      else Ret (optimize head))"

section \<open>Looking up a URL\<close>

text \<open>
  What a node with a parameter cuts off the front of the rest \<open>s\<close> of the URL: the number of bytes and the
  parameters with the new one.
\<close>

fun take_param ::
    "'d to_double \<Rightarrow> param_type \<Rightarrow> string \<Rightarrow> 'd routing_params \<Rightarrow> (nat \<times> 'd routing_params) option" where
  "take_param strtod P_INT s ps =
     (case s of [] \<Rightarrow> None
      | c # _ \<Rightarrow>
          (if is_digit c \<or> c = CHR ''+'' \<or> c = CHR ''-'' then
             (case strtoll (c_str s) of (v, erange, n) \<Rightarrow>
                if \<not> erange \<and> n \<noteq> 0 then Some (n, ps\<lparr>int_params := int_params ps @ [v]\<rparr>) else None)
           else None))"
| "take_param strtod P_UINT s ps =
     (case s of [] \<Rightarrow> None
      | c # _ \<Rightarrow>
          (if is_digit c \<or> c = CHR ''+'' then
             (case strtoull (c_str s) of (v, erange, n) \<Rightarrow>
                if \<not> erange \<and> n \<noteq> 0 then Some (n, ps\<lparr>uint_params := uint_params ps @ [v]\<rparr>) else None)
           else None))"
| "take_param strtod P_DOUBLE s ps =
     (case s of [] \<Rightarrow> None
      | c # _ \<Rightarrow>
          (if is_digit c \<or> c = CHR ''+'' \<or> c = CHR ''-'' \<or> c = CHR ''.'' then
             (case strtod (c_str s) of (v, erange, n) \<Rightarrow>
                if \<not> erange \<and> n \<noteq> 0 then Some (n, ps\<lparr>double_params := double_params ps @ [v]\<rparr>) else None)
           else None))"
| "take_param strtod P_STRING s ps =
     (let part = takeWhile (\<lambda>c. c \<noteq> CHR ''/'') s
      in if part \<noteq> [] then Some (length part, ps\<lparr>string_params := string_params ps @ [part]\<rparr>) else None)"
| "take_param strtod P_PATH s ps =
     (if s \<noteq> [] then Some (length s, ps\<lparr>string_params := string_params ps @ [s]\<rparr>) else None)"

definition fragment ::
    "'d to_double \<Rightarrow> string \<Rightarrow> nat \<Rightarrow> 'd routing_params \<Rightarrow> node \<Rightarrow> (nat \<times> 'd routing_params) option" where
  "fragment strtod req_url pos ps child =
     (case param child of
        Some t \<Rightarrow> map_option (apfst ((+) pos)) (take_param strtod t (drop pos req_url) ps)
      | None \<Rightarrow>
          (if take (length (key child)) (drop pos req_url) = key child
           then Some (pos + length (key child), ps) else None))"

type_synonym 'd found = "u16 \<times> u16 list \<times> 'd routing_params"

fun update_found :: "'d found \<Rightarrow> 'd found \<Rightarrow> 'd found" where
  "update_found (found, found_BP, match_params) (r, bp, ps) =
     (if r \<noteq> 0 \<and> (found = 0 \<or> found > r) then (r, bp, ps) else (found, bp, match_params))"

text \<open>
  \<open>find\<close> returns what it found and the vector of blueprints, which all calls share: at the end of the URL,
  and when no child fits, the vector is moved from, and a moved-from vector is empty. The parameters are
  the same after a call as before it, because each push has its pop.
\<close>

fun trie_find ::
    "'d to_double \<Rightarrow> string \<Rightarrow> node \<Rightarrow> nat \<Rightarrow> 'd routing_params \<Rightarrow> u16 list \<Rightarrow> 'd found \<times> u16 list"
  and find_children ::
    "'d to_double \<Rightarrow> string \<Rightarrow> node list \<Rightarrow> nat \<Rightarrow> 'd routing_params \<Rightarrow> u16 list \<Rightarrow> bool \<Rightarrow> 'd found
       \<Rightarrow> 'd found \<times> u16 list" where
  "trie_find strtod req_url (Node r b k p chs) pos params blueprints =
     (if pos = length req_url then ((r, [], params), [])
      else find_children strtod req_url chs pos params blueprints False (0, [], no_params))"
| "find_children strtod req_url [] pos params blueprints found_fragment (found, found_BP, match_params) =
     (if found_fragment then ((found, found_BP, match_params), blueprints)
      else ((found, blueprints, match_params), []))"
| "find_children strtod req_url (child # chs) pos params blueprints found_fragment acc =
     (case fragment strtod req_url pos params child of
        None \<Rightarrow> find_children strtod req_url chs pos params blueprints found_fragment acc
      | Some (pos', params') \<Rightarrow>
          (case trie_find strtod req_url child pos' params'
                  (if blueprint_index child \<noteq> INVALID_BP_ID then blueprints @ [blueprint_index child]
                   else blueprints) of
             (ret, blueprints') \<Rightarrow>
               find_children strtod req_url chs pos params (butlast blueprints') True (update_found acc ret)))"

definition find_url :: "'d to_double \<Rightarrow> string \<Rightarrow> node \<Rightarrow> 'd found" where
  "find_url strtod req_url head = fst (trie_find strtod req_url head 0 no_params [])"

section \<open>Adding a rule\<close>

definition paramTraits :: "(param_type \<times> string) list" where
  "paramTraits =
     [(P_INT, ''<int>''), (P_UINT, ''<uint>''), (P_DOUBLE, ''<float>''), (P_DOUBLE, ''<double>''),
      (P_STRING, ''<str>''), (P_STRING, ''<string>''), (P_PATH, ''<path>'')]"

definition trait_at :: "string \<Rightarrow> nat \<Rightarrow> (param_type \<times> string) option" where
  "trait_at s i = find (\<lambda>(t, name). take (length name) (drop i s) = name) paramTraits"

text \<open>The first child with a property; \<open>key[0]\<close> of an empty key is the terminator.\<close>

fun index_of :: "('a \<Rightarrow> bool) \<Rightarrow> 'a list \<Rightarrow> nat option" where
  "index_of P [] = None"
| "index_of P (x # xs) = (if P x then Some 0 else map_option Suc (index_of P xs))"

definition key0 :: "node \<Rightarrow> char" where
  "key0 nd = (case key nd of [] \<Rightarrow> CHR 0x00 | c # _ \<Rightarrow> c)"

lemma trait_at_nonempty: "trait_at s i = Some (t, name) \<Longrightarrow> name \<noteq> []"
  by (auto simp: trait_at_def paramTraits_def split: if_splits)

lemma trait_at_progress:
  "trait_at s i = Some (t, name) \<Longrightarrow> i < length s \<Longrightarrow> length s - (i + length name) < length s - i"
  using trait_at_nonempty [of s i t name] by (cases name) auto

text \<open>
  The walk from node \<open>nd\<close> for the rest of the rule at \<open>i\<close>. For a tag that is not in the table the index is
  decremented and incremented again: the loop never ends.
\<close>

function add_from :: "string \<Rightarrow> u16 \<Rightarrow> nat \<Rightarrow> u16 \<Rightarrow> nat \<Rightarrow> node \<Rightarrow> node outcome" where
  "add_from url r bp_prefix_length bp i nd =
     (if i < length url then
        (if url ! i = CHR ''<'' then
           (case trait_at url i of
              None \<Rightarrow> UB
            | Some (t, name) \<Rightarrow>
                (case index_of (\<lambda>child. param child = Some t) (children nd) of
                   Some j \<Rightarrow>
                     bind_outcome (add_from url r bp_prefix_length bp (i + length name) (children nd ! j))
                       (\<lambda>child. Ret (Node (rule_index nd) (blueprint_index nd) (key nd) (param nd)
                          ((children nd)[j := child])))
                 | None \<Rightarrow>
                     bind_outcome (add_from url r bp_prefix_length bp (i + length name)
                         (Node 0 INVALID_BP_ID [] (Some t) []))
                       (\<lambda>child. Ret (Node (rule_index nd) (blueprint_index nd) (key nd) (param nd)
                          (children nd @ [child])))))
         else
           (case index_of (\<lambda>child. key0 child = url ! i) (children nd) of
              Some j \<Rightarrow>
                bind_outcome (add_from url r bp_prefix_length bp (i + 1) (children nd ! j))
                  (\<lambda>child. Ret (Node (rule_index nd) (blueprint_index nd) (key nd) (param nd)
                     ((children nd)[j := child])))
            | None \<Rightarrow>
                bind_outcome (add_from url r bp_prefix_length bp (i + 1)
                    (Node 0 (if bp_prefix_length \<noteq> 0 \<and> bp \<noteq> INVALID_BP_ID \<and> i = bp_prefix_length then bp
                             else INVALID_BP_ID) [url ! i] None []))
                  (\<lambda>child. Ret (Node (rule_index nd) (blueprint_index nd) (key nd) (param nd)
                     (children nd @ [child])))))
      else if rule_index nd \<noteq> 0 then Throw (Runtime_error (''handler already exists for '' @ url))
      else Ret (Node r (blueprint_index nd) (key nd) (param nd) (children nd)))"
  by pat_completeness auto
termination
  by (relation "measure (\<lambda>(url, r, n, bp, i, nd). length url - i)") (auto intro: trait_at_progress)

declare add_from.simps [simp del]

definition trie_add :: "string \<Rightarrow> u16 \<Rightarrow> nat \<Rightarrow> u16 \<Rightarrow> node \<Rightarrow> node outcome" where
  "trie_add url r bp_prefix_length bp head = add_from url r bp_prefix_length bp 0 head"

end
