(* ===== verification/Routing.thy ===== *)
theory Routing
  imports Utility Url_Trie Connection
begin

text \<open>
  The router (\<open>routing.h\<close>): rules with their handlers, blueprints, the tree of each method, and how a
  request finds its handler. A handler works on the response and on the state \<open>'s\<close> of the application;
  its result says whether it has called \<open>end\<close> on the response. That call runs the connection's
  \<open>complete_request\<close>, which is the matter of \<open>Connection\<close>, so here it is only reported.

  Left out: WebSocket rules (\<open>websocket()\<close>, the upgrade of a rule), the base directory of the templates
  that a rule sets before its handler runs, and the log lines. A blueprint is a value: it is complete when
  it is registered.
\<close>

section \<open>Handlers\<close>

text \<open>What a call of a handler leaves: whether it ended the response, the response and the state.\<close>

type_synonym 's reply = "bool outcome \<times> response \<times> 's"

type_synonym ('s, 'd) rule_handler = "crow_request \<Rightarrow> 'd routing_params \<Rightarrow> response \<times> 's \<Rightarrow> 's reply"

type_synonym 's catchall = "crow_request \<Rightarrow> response \<times> 's \<Rightarrow> 's reply"

text \<open>
  The wrapper of a function that returns a response: \<open>res = response(f(...)); res.end();\<close>. Whether the
  function takes the request is up to the function.
\<close>

definition returning :: "('s \<Rightarrow> response outcome \<times> 's) \<Rightarrow> response \<times> 's \<Rightarrow> 's reply" where
  "returning f = (\<lambda>(res, s).
     case f s of
       (Ret r, s') \<Rightarrow> (Ret True, assign r res, s')
     | (Throw e, s') \<Rightarrow> (Throw e, res, s')
     | (UB, s') \<Rightarrow> (UB, res, s'))"

datatype 'd arg = Int_arg u64 | Uint_arg u64 | Double_arg 'd | String_arg string

fun arg_type_of :: "'d arg \<Rightarrow> arg_type" where
  "arg_type_of (Int_arg v) = T_int64"
| "arg_type_of (Uint_arg v) = T_uint64"
| "arg_type_of (Double_arg v) = T_double"
| "arg_type_of (String_arg v) = T_string"

text \<open>
  \<open>call\<close>: each type takes the next position of its kind (\<open>call_pair\<close>), and the handler gets the parameters
  at these positions.
\<close>

fun call_pairs :: "nat \<Rightarrow> nat \<Rightarrow> nat \<Rightarrow> nat \<Rightarrow> arg_type list \<Rightarrow> (arg_type \<times> nat) list" where
  "call_pairs NInt NUint NDouble NString [] = []"
| "call_pairs NInt NUint NDouble NString (T_int64 # as) = (T_int64, NInt) # call_pairs (NInt + 1) NUint NDouble NString as"
| "call_pairs NInt NUint NDouble NString (T_uint64 # as) = (T_uint64, NUint) # call_pairs NInt (NUint + 1) NDouble NString as"
| "call_pairs NInt NUint NDouble NString (T_double # as) = (T_double, NDouble) # call_pairs NInt NUint (NDouble + 1) NString as"
| "call_pairs NInt NUint NDouble NString (T_string # as) = (T_string, NString) # call_pairs NInt NUint NDouble (NString + 1) as"

fun get_arg :: "'d routing_params \<Rightarrow> arg_type \<times> nat \<Rightarrow> 'd arg outcome" where
  "get_arg ps (T_int64, i) = bind_outcome (get_int ps i) (\<lambda>v. Ret (Int_arg v))"
| "get_arg ps (T_uint64, i) = bind_outcome (get_uint ps i) (\<lambda>v. Ret (Uint_arg v))"
| "get_arg ps (T_double, i) = bind_outcome (get_double ps i) (\<lambda>v. Ret (Double_arg v))"
| "get_arg ps (T_string, i) = bind_outcome (get_string ps i) (\<lambda>v. Ret (String_arg v))"

fun get_args :: "'d routing_params \<Rightarrow> (arg_type \<times> nat) list \<Rightarrow> 'd arg list outcome" where
  "get_args ps [] = Ret []"
| "get_args ps (p # pairs) = bind_outcome (get_arg ps p) (\<lambda>a. bind_outcome (get_args ps pairs) (\<lambda>as. Ret (a # as)))"

definition call_handler ::
    "arg_type list \<Rightarrow> ('d arg list \<Rightarrow> crow_request \<Rightarrow> response \<times> 's \<Rightarrow> 's reply) \<Rightarrow> ('s, 'd) rule_handler" where
  "call_handler types f = (\<lambda>req ps (res, s).
     case get_args ps (call_pairs 0 0 0 0 types) of
       Ret args \<Rightarrow> f args req (res, s)
     | Throw e \<Rightarrow> (Throw e, res, s)
     | UB \<Rightarrow> (UB, res, s))"

section \<open>Rules\<close>

record ('s, 'd) base_rule =
  r_rule :: string
  r_name :: string
  r_methods :: u32
  rule_handler :: "('s, 'd) rule_handler option"

definition new_rule :: "string \<Rightarrow> ('s, 'd) base_rule" where
  "new_rule r = \<lparr>r_rule = r, r_name = [], r_methods = 2, rule_handler = None\<rparr>"

text \<open>\<open>1 << method\<close> on \<open>int\<close> has no meaning from 32 on: two of the methods have no bit.\<close>

definition method_shift :: "http_method \<Rightarrow> u32 outcome" where
  "method_shift m = (if method_value m < 32 then Ret (push_bit (method_value m) 1) else UB)"

fun set_methods :: "http_method \<Rightarrow> http_method list \<Rightarrow> ('s, 'd) base_rule \<Rightarrow> ('s, 'd) base_rule outcome" where
  "set_methods m [] r = bind_outcome (method_shift m) (\<lambda>b. Ret (r\<lparr>r_methods := b\<rparr>))"
| "set_methods m (m' # ms) r =
     bind_outcome (set_methods m' ms r)
       (\<lambda>r1. bind_outcome (method_shift m) (\<lambda>b. Ret (r1\<lparr>r_methods := Bit_Operations.or (r_methods r1) b\<rparr>)))"

definition set_name :: "string \<Rightarrow> ('s, 'd) base_rule \<Rightarrow> ('s, 'd) base_rule" where
  "set_name n r = r\<lparr>r_name := n\<rparr>"

text \<open>
  \<open>CROW_ROUTE\<close>: the tags of the rule, read by the compiler, give the types of the handler's arguments. A
  rule whose tags the compiler rejects has no handler that could be set.
\<close>

definition tagged_types :: "string \<Rightarrow> arg_type list outcome" where
  "tagged_types r = bind_outcome (get_parameter_tag r 0) (\<lambda>t. of_option (arguments t))"

definition set_tagged_handler ::
    "('d arg list \<Rightarrow> crow_request \<Rightarrow> response \<times> 's \<Rightarrow> 's reply) \<Rightarrow> ('s, 'd) base_rule \<Rightarrow> ('s, 'd) base_rule outcome" where
  "set_tagged_handler f r =
     bind_outcome (tagged_types (r_rule r)) (\<lambda>types. Ret (r\<lparr>rule_handler := Some (call_handler types f)\<rparr>))"

text \<open>The handler of a dynamic rule is checked at run time against the tags of the rule.\<close>

definition set_dynamic_handler ::
    "cpp_type list \<Rightarrow> arg_type list \<Rightarrow> ('d arg list \<Rightarrow> crow_request \<Rightarrow> response \<times> 's \<Rightarrow> 's reply)
       \<Rightarrow> ('s, 'd) base_rule \<Rightarrow> ('s, 'd) base_rule outcome" where
  "set_dynamic_handler params types f r =
     bind_outcome (get_parameter_tag_runtime (c_str (r_rule r)) 0)
       (\<lambda>t. if \<not> is_parameter_tag_compatible t (compute_parameter_tag_from_args_list params)
            then Throw (Runtime_error (''route_dynamic: Handler type is mismatched with URL parameters: '' @ r_rule r))
            else Ret (r\<lparr>rule_handler := Some (call_handler types f)\<rparr>))"

definition rule_validate :: "('s, 'd) base_rule \<Rightarrow> unit outcome" where
  "rule_validate r =
     (case rule_handler r of
        None \<Rightarrow> Throw (Runtime_error (r_name r @ (if r_name r \<noteq> [] then '': '' else []) @ ''no handler for url '' @ r_rule r))
      | Some h \<Rightarrow> Ret ())"

text \<open>The loop of \<open>foreach_method\<close>: the bit wraps around to 0 behind the 32nd method.\<close>

fun foreach_from :: "u32 \<Rightarrow> u32 \<Rightarrow> http_method list \<Rightarrow> http_method list" where
  "foreach_from ms method_bit [] = []"
| "foreach_from ms method_bit (m # rest) =
     (if and ms method_bit \<noteq> 0 then [m] else []) @ foreach_from ms (push_bit 1 method_bit) rest"

definition foreach_method :: "('s, 'd) base_rule \<Rightarrow> http_method list" where
  "foreach_method r = foreach_from (r_methods r) 1 all_methods"

section \<open>Blueprints\<close>

text \<open>\<open>bp_id\<close> is the address of the blueprint.\<close>

datatype ('s, 'd) blueprint =
  Blueprint (bp_id: nat) (bp_prefix: string) (static_dir: string) (templates_dir: string)
    (bp_rules: "('s, 'd) base_rule list") (bp_catchall: "'s catchall option") (bp_children: "('s, 'd) blueprint list")

definition new_blueprint :: "nat \<Rightarrow> string \<Rightarrow> string \<Rightarrow> string \<Rightarrow> ('s, 'd) blueprint" where
  "new_blueprint a p static templates = Blueprint a p static templates [] None []"

fun bp_new_rule :: "string \<Rightarrow> ('s, 'd) blueprint \<Rightarrow> ('s, 'd) base_rule" where
  "bp_new_rule r (Blueprint a p sd td rs c chs) = new_rule (''/'' @ p @ r)"

fun bp_add_rule :: "('s, 'd) base_rule \<Rightarrow> ('s, 'd) blueprint \<Rightarrow> ('s, 'd) blueprint" where
  "bp_add_rule r (Blueprint a p sd td rs c chs) = Blueprint a p sd td (rs @ [r]) c chs"

text \<open>The prefix of the parent goes in front of everything below it, but only with a slash in the prefixes.\<close>

fun apply_blueprint :: "string \<Rightarrow> string \<Rightarrow> string \<Rightarrow> ('s, 'd) blueprint \<Rightarrow> ('s, 'd) blueprint" where
  "apply_blueprint p sd td (Blueprint a p' sd' td' rs c chs) =
     Blueprint a (p @ ''/'' @ p') (sd @ ''/'' @ sd') (td @ ''/'' @ td')
       (map (\<lambda>r. r\<lparr>r_rule := ''/'' @ p @ r_rule r\<rparr>) rs) c (map (apply_blueprint p sd td) chs)"

definition quoted :: "string \<Rightarrow> string" where
  "quoted s = [CHR 0x22] @ s @ [CHR 0x22]"

definition bp_register :: "('s, 'd) blueprint \<Rightarrow> ('s, 'd) blueprint \<Rightarrow> ('s, 'd) blueprint outcome" where
  "bp_register child parent =
     (if bp_id child \<notin> bp_id ` set (bp_children parent)
      then Ret (Blueprint (bp_id parent) (bp_prefix parent) (static_dir parent) (templates_dir parent)
             (bp_rules parent) (bp_catchall parent)
             (bp_children parent @ [apply_blueprint (bp_prefix parent) (static_dir parent) (templates_dir parent) child]))
      else Throw (Runtime_error (''blueprint '' @ quoted (bp_prefix child) @ '' already exists in blueprint '' @
             quoted (bp_prefix parent))))"

section \<open>The router\<close>

text \<open>The first two entries of \<open>rules\<close> are null pointers: the indices 0 and 1 have a meaning of their own.\<close>

record ('s, 'd) per_method =
  rules :: "('s, 'd) base_rule option list"
  trie :: node

record ('s, 'd) router =
  catchall_rule :: "'s catchall option"
  per_methods :: "http_method \<Rightarrow> ('s, 'd) per_method"
  all_rules :: "('s, 'd) base_rule list"
  blueprints :: "('s, 'd) blueprint list"

definition new_router :: "('s, 'd) router" where
  "new_router = \<lparr>catchall_rule = None, per_methods = (\<lambda>m. \<lparr>rules = [None, None], trie = new_node\<rparr>),
     all_rules = [], blueprints = []\<rparr>"

definition add_rule :: "('s, 'd) base_rule \<Rightarrow> ('s, 'd) router \<Rightarrow> ('s, 'd) router" where
  "add_rule r g = g\<lparr>all_rules := all_rules g @ [r]\<rparr>"

definition router_register :: "('s, 'd) blueprint \<Rightarrow> ('s, 'd) router \<Rightarrow> ('s, 'd) router outcome" where
  "router_register b g =
     (if bp_id b \<notin> bp_id ` set (blueprints g) then Ret (g\<lparr>blueprints := blueprints g @ [b]\<rparr>)
      else Throw (Runtime_error (''blueprint '' @ quoted (bp_prefix b) @ '' already exists in router'')))"

text \<open>An index of a vector of blueprints.\<close>

definition bp_at :: "'b list \<Rightarrow> nat \<Rightarrow> 'b outcome" where
  "bp_at bs i = (if i < length bs then Ret (bs ! i) else UB)"

text \<open>
  One method of \<open>internal_add_rule_object\<close>. A rule that ends in a slash also has an entry without it; the
  length of the prefix is taken from the router's own blueprints there.
\<close>

definition prefix_length :: "u16 \<Rightarrow> ('s, 'd) blueprint list \<Rightarrow> nat outcome" where
  "prefix_length BP_index bps =
     (if BP_index \<noteq> INVALID_BP_ID
      then bind_outcome (bp_at bps (unat BP_index)) (\<lambda>b. Ret (length (bp_prefix b))) else Ret 0)"

definition add_for_method ::
    "string \<Rightarrow> ('s, 'd) base_rule \<Rightarrow> u16 \<Rightarrow> ('s, 'd) blueprint list \<Rightarrow> ('s, 'd) router \<Rightarrow> http_method
       \<Rightarrow> ('s, 'd) router outcome" where
  "add_for_method rule ruleObject BP_index bps g m =
     (let pm = per_methods g m; rules' = rules pm @ [Some ruleObject]
      in bind_outcome (prefix_length BP_index bps)
           (\<lambda>n. bind_outcome (trie_add rule (of_nat (length rules' - 1)) n BP_index (trie pm))
              (\<lambda>t. bind_outcome
                 (if length rule > 1 \<and> last rule = CHR ''/''
                  then bind_outcome (prefix_length BP_index (blueprints g))
                         (\<lambda>n'. trie_add (butlast rule) RULE_SPECIAL_REDIRECT_SLASH n' BP_index t)
                  else Ret t)
                 (\<lambda>t'. Ret (g\<lparr>per_methods := (per_methods g)(m := \<lparr>rules = rules', trie = t'\<rparr>)\<rparr>)))))"

fun fold_outcome :: "('a \<Rightarrow> 'b \<Rightarrow> 'b outcome) \<Rightarrow> 'a list \<Rightarrow> 'b \<Rightarrow> 'b outcome" where
  "fold_outcome f [] s = Ret s"
| "fold_outcome f (x # xs) s = bind_outcome (f x s) (fold_outcome f xs)"

definition internal_add_rule_object ::
    "('s, 'd) base_rule \<Rightarrow> u16 \<Rightarrow> ('s, 'd) blueprint list \<Rightarrow> ('s, 'd) router \<Rightarrow> ('s, 'd) router outcome" where
  "internal_add_rule_object r BP_index bps g =
     fold_outcome (\<lambda>m g. add_for_method (r_rule r) r BP_index bps g m) (foreach_method r) g"

definition validate_rule ::
    "u16 \<Rightarrow> ('s, 'd) blueprint list \<Rightarrow> ('s, 'd) base_rule \<Rightarrow> ('s, 'd) router \<Rightarrow> ('s, 'd) router outcome" where
  "validate_rule BP_index bps r g = bind_outcome (rule_validate r) (\<lambda>_. internal_add_rule_object r BP_index bps g)"

text \<open>
  A blueprint without rules and files of its own gets its prefix into the trees of the methods that its
  children serve. The loop over these methods has a variable \<open>i\<close> of its own, the number of the method, so
  that this number is taken for the index of the blueprint; and \<open>add\<close> is told that the prefix ends where
  the URL ends, a position that it never reaches.
\<close>

fun get_recursive_child_methods :: "('s, 'd) blueprint \<Rightarrow> http_method list \<Rightarrow> http_method list"
  and get_child_methods :: "('s, 'd) blueprint list \<Rightarrow> http_method list \<Rightarrow> http_method list" where
  "get_recursive_child_methods (Blueprint a p sd td rs c chs) ms =
     foldl (\<lambda>ms m. if m \<notin> set ms then ms @ [m] else ms)
       (if sd = [] \<and> rs = [] then get_child_methods chs ms else if sd \<noteq> [] then ms @ [M_Get] else ms)
       (concat (map foreach_method rs))"
| "get_child_methods [] ms = ms"
| "get_child_methods (b # bs) ms = get_child_methods bs (get_recursive_child_methods b ms)"

definition add_prefix :: "string \<Rightarrow> http_method \<Rightarrow> ('s, 'd) router \<Rightarrow> ('s, 'd) router outcome" where
  "add_prefix p m g =
     (let pm = per_methods g m
      in bind_outcome (trie_add p 0 (length p) (of_nat (method_value m)) (trie pm))
           (\<lambda>t. Ret (g\<lparr>per_methods := (per_methods g)(m := pm\<lparr>trie := t\<rparr>)\<rparr>)))"

fun validate_bp :: "('s, 'd) blueprint \<Rightarrow> nat \<Rightarrow> ('s, 'd) blueprint list \<Rightarrow> ('s, 'd) router \<Rightarrow> ('s, 'd) router outcome"
  and validate_bps :: "('s, 'd) blueprint list \<Rightarrow> nat \<Rightarrow> ('s, 'd) blueprint list \<Rightarrow> ('s, 'd) router \<Rightarrow> ('s, 'd) router outcome"
  where
  "validate_bp (Blueprint a p sd td rs c chs) i bps g =
     bind_outcome
       (if sd = [] \<and> rs = []
        then fold_outcome (add_prefix p) (get_recursive_child_methods (Blueprint a p sd td rs c chs) []) g else Ret g)
       (\<lambda>g1. bind_outcome (fold_outcome (validate_rule (of_nat i) bps) rs g1) (\<lambda>g2. validate_bps chs 0 chs g2))"
| "validate_bps [] i bps g = Ret g"
| "validate_bps (b # rest) i bps g = bind_outcome (validate_bp b i bps g) (\<lambda>g1. validate_bps rest (i + 1) bps g1)"

definition validate_trie :: "http_method \<Rightarrow> ('s, 'd) router \<Rightarrow> ('s, 'd) router outcome" where
  "validate_trie m g =
     bind_outcome (trie_validate (trie (per_methods g m)))
       (\<lambda>t. Ret (g\<lparr>per_methods := (per_methods g)(m := (per_methods g m)\<lparr>trie := t\<rparr>)\<rparr>))"

definition router_validate :: "('s, 'd) router \<Rightarrow> ('s, 'd) router outcome" where
  "router_validate g =
     bind_outcome (validate_bps (blueprints g) 0 (blueprints g) g)
       (\<lambda>g1. bind_outcome (fold_outcome (validate_rule INVALID_BP_ID (blueprints g)) (all_rules g) g1)
          (fold_outcome validate_trie all_methods))"

section \<open>Requests\<close>

definition find_rule :: "'d to_double \<Rightarrow> ('s, 'd) router \<Rightarrow> http_method \<Rightarrow> string \<Rightarrow> 'd found" where
  "find_rule strtod g m u = find_url strtod u (trie (per_methods g m))"

definition found_by :: "'d to_double \<Rightarrow> ('s, 'd) router \<Rightarrow> string \<Rightarrow> http_method list" where
  "found_by strtod g u = [m \<leftarrow> all_methods. fst (find_rule strtod g m u) \<noteq> 0]"

text \<open>\<open>res = response(code); res.end();\<close>\<close>

definition answer :: "int \<Rightarrow> response \<times> 's \<Rightarrow> 's reply" where
  "answer c = (\<lambda>(res, s). (Ret True, assign (response_code c) res, s))"

definition redirect_slash :: "crow_request \<Rightarrow> response \<times> 's \<Rightarrow> 's reply" where
  "redirect_slash req = (\<lambda>(res, s).
     let host = get_header_value (req_headers req) ''Host'';
         location = (if host = [] then url req @ ''/'' else ''http://'' @ host @ url req @ ''/'')
     in (Ret True, add_response_header ''Location'' location (assign (response_code 301) res), s))"

definition prefix_verified :: "u16 list \<Rightarrow> nat \<Rightarrow> ('s, 'd) blueprint list \<Rightarrow> ('s, 'd) blueprint list \<Rightarrow> bool outcome" where
  "prefix_verified bp_i idx bps found_bps =
     (if idx > 0 \<and> unat (bp_i ! idx) < length bps
      then bind_outcome (bp_at found_bps (idx - 1))
             (\<lambda>parent. Ret (take (length (bp_prefix parent) + 1) (bp_prefix (bps ! unat (bp_i ! idx))) =
                          bp_prefix parent @ ''/''))
      else Ret False)"

function get_found_bp ::
    "('s, 'd) blueprint list \<Rightarrow> u16 list \<Rightarrow> ('s, 'd) blueprint list \<Rightarrow> ('s, 'd) blueprint list \<Rightarrow> nat
       \<Rightarrow> ('s, 'd) blueprint list outcome" where
  "get_found_bp router_bps bp_i bps found_bps idx =
     (if idx < length bp_i then
        bind_outcome (prefix_verified bp_i idx bps found_bps)
          (\<lambda>verified.
             if verified then
               get_found_bp router_bps bp_i (bp_children (bps ! unat (bp_i ! idx)))
                 (found_bps @ [bps ! unat (bp_i ! idx)]) (idx + 1)
             else if length found_bps < 2 then
               bind_outcome (bp_at router_bps (unat (bp_i ! idx)))
                 (\<lambda>b. get_found_bp router_bps bp_i (bp_children b) [b] (idx + 1))
             else
               bind_outcome (bp_at (bp_children (last (butlast found_bps))) (unat (bp_i ! idx)))
                 (\<lambda>b. get_found_bp router_bps bp_i (bp_children b) (butlast found_bps @ [b]) (idx + 1)))
      else Ret found_bps)"
  by pat_completeness auto
termination
  by (relation "measure (\<lambda>(router_bps, bp_i, bps, found_bps, idx). length bp_i - idx)") auto

declare get_found_bp.simps [simp del]

text \<open>The loop runs down to the index 1: the catch-all rule of the first blueprint is not asked.\<close>

definition get_error ::
    "('s, 'd) router \<Rightarrow> int \<Rightarrow> u16 list \<Rightarrow> crow_request \<Rightarrow> response \<times> 's \<Rightarrow> 's reply" where
  "get_error g error_code found_BP req = (\<lambda>(res, s).
     let res1 = res\<lparr>code := error_code\<rparr>
     in case get_found_bp (blueprints g) found_BP (blueprints g) [] 0 of
          Throw e \<Rightarrow> (Throw e, res1, s)
        | UB \<Rightarrow> (UB, res1, s)
        | Ret bps_found \<Rightarrow>
            (case find (\<lambda>b. bp_catchall b \<noteq> None) (rev (tl bps_found)) of
               Some b \<Rightarrow> the (bp_catchall b) req (res1, s)
             | None \<Rightarrow>
                 (case catchall_rule g of Some h \<Rightarrow> h req (res1, s) | None \<Rightarrow> (Ret False, res1, s))))"

text \<open>\<open>get_error\<close> and \<open>res.end()\<close> behind it.\<close>

definition error_reply ::
    "('s, 'd) router \<Rightarrow> int \<Rightarrow> u16 list \<Rightarrow> crow_request \<Rightarrow> response \<times> 's \<Rightarrow> 's reply" where
  "error_reply g error_code found_BP req x =
     (case get_error g error_code found_BP req x of
        (Ret b, y) \<Rightarrow> (Ret True, y) | (Throw e, y) \<Rightarrow> (Throw e, y) | (UB, y) \<Rightarrow> (UB, y))"

text \<open>The handler in its \<open>try\<close>: any exception is a response 500.\<close>

definition guarded :: "(response \<times> 's \<Rightarrow> 's reply) \<Rightarrow> response \<times> 's \<Rightarrow> 's reply" where
  "guarded h x = (case h x of (Throw e, y) \<Rightarrow> answer 500 y | r \<Rightarrow> r)"

text \<open>\<open>allow\<close> loses its last two bytes.\<close>

definition allow_header :: "http_method list \<Rightarrow> string" where
  "allow_header ms =
     (let allow = ''OPTIONS, HEAD, '' @ concat (map (\<lambda>m. method_name m @ '', '') ms) in take (length allow - 2) allow)"

definition handle_options :: "'d to_double \<Rightarrow> ('s, 'd) router \<Rightarrow> crow_request \<Rightarrow> response \<times> 's \<Rightarrow> 's reply" where
  "handle_options strtod g req = (\<lambda>(res, s).
     if url req = ''/*'' then
       (Ret True, set_header ''Allow'' (allow_header [m \<leftarrow> all_methods. \<not> trie_is_empty (trie (per_methods g m))])
          (assign (response_code 204) res), s)
     else if found_by strtod g (url req) \<noteq> [] then
       (Ret True, set_header ''Allow'' (allow_header (found_by strtod g (url req))) (assign (response_code 204) res), s)
     else answer 404 (res, s))"

text \<open>The part of \<open>handle\<close> behind the special methods, for the tree of method \<open>m\<close>.\<close>

definition dispatch ::
    "'d to_double \<Rightarrow> ('s, 'd) router \<Rightarrow> http_method \<Rightarrow> crow_request \<Rightarrow> response \<times> 's \<Rightarrow> 's reply" where
  "dispatch strtod g m req x =
     (case find_rule strtod g m (url req) of
        (found_rule, found_BP, params) \<Rightarrow>
          if found_rule = 0 then
            (if found_by strtod g (url req) \<noteq> [] then error_reply g 405 found_BP req x
             else error_reply g 404 found_BP req x)
          else if unat found_rule \<ge> length (rules (per_methods g m))
          then (Throw (Runtime_error ''Trie internal structure corrupted!''), x)
          else if found_rule = RULE_SPECIAL_REDIRECT_SLASH then redirect_slash req x
          else
            (case rules (per_methods g m) ! unat found_rule of
               None \<Rightarrow> (UB, x)
             | Some r \<Rightarrow>
                 (case rule_handler r of
                    None \<Rightarrow> answer 500 x
                  | Some h \<Rightarrow> guarded (h req params) x)))"

text \<open>
  \<open>handle\<close>. A request that has a method outside the enumeration is not possible here. An empty
  \<open>std::function\<close>, which a validated rule does not have, throws when it is called.
\<close>

definition router_handle ::
    "'d to_double \<Rightarrow> ('s, 'd) router \<Rightarrow> crow_request \<Rightarrow> response \<times> 's \<Rightarrow> 's reply" where
  "router_handle strtod g req = (\<lambda>(res, s).
     if req_method req = M_Head then dispatch strtod g M_Get req (res\<lparr>skip_body := True\<rparr>, s)
     else if req_method req = M_Options then handle_options strtod g req (res, s)
     else dispatch strtod g (req_method req) req (res, s))"

text \<open>No rule speaks another protocol: the default is a response 404.\<close>

definition router_handle_upgrade ::
    "'d to_double \<Rightarrow> ('s, 'd) router \<Rightarrow> crow_request \<Rightarrow> response \<times> 's \<Rightarrow> 's reply" where
  "router_handle_upgrade strtod g req x =
     (case find_rule strtod g (req_method req) (url req) of
        (found_rule, found_BP, params) \<Rightarrow>
          if found_rule = 0 then
            (if found_by strtod g (url req) \<noteq> [] then answer 405 x else answer 404 x)
          else if unat found_rule \<ge> length (rules (per_methods g (req_method req)))
          then (Throw (Runtime_error ''Trie internal structure corrupted!''), x)
          else if found_rule = RULE_SPECIAL_REDIRECT_SLASH then redirect_slash req x
          else answer 404 x)"

end
