(* ===== verification/Trie_Correct.thy ===== *)
theory Trie_Correct
  imports Url_Trie
begin

text \<open>
  What the router's tree computes. A rule is a list of tokens (bytes and parameters), matching a URL
  against it is a function, and a tree stands for the rules along its paths (\<open>routes\<close>). Adding a rule adds
  it to that set, compressing the tree changes nothing, and looking up a URL finds the least index among
  the rules that match, with the parameters of its match.
\<close>

section \<open>Rules as tokens\<close>

datatype rule_token = Lit char | Par param_type

function pattern_from :: "string \<Rightarrow> nat \<Rightarrow> rule_token list option" where
  "pattern_from s i =
     (if i < length s then
        (if s ! i = CHR ''<'' then
           (case trait_at s i of
              None \<Rightarrow> None
            | Some (t, name) \<Rightarrow> map_option ((#) (Par t)) (pattern_from s (i + length name)))
         else map_option ((#) (Lit (s ! i))) (pattern_from s (i + 1)))
      else Some [])"
  by pat_completeness auto
termination
  by (relation "measure (\<lambda>(s, i). length s - i)") (auto intro: trait_at_progress)

declare pattern_from.simps [simp del]

definition pattern :: "string \<Rightarrow> rule_token list option" where
  "pattern rule = pattern_from rule 0"

fun match_url :: "'d to_double \<Rightarrow> rule_token list \<Rightarrow> string \<Rightarrow> 'd routing_params \<Rightarrow> 'd routing_params option" where
  "match_url strtod [] s ps = (if s = [] then Some ps else None)"
| "match_url strtod (Lit c # ts) s ps =
     (case s of [] \<Rightarrow> None | d # s' \<Rightarrow> if d = c then match_url strtod ts s' ps else None)"
| "match_url strtod (Par t # ts) s ps =
     (case take_param strtod t s ps of None \<Rightarrow> None | Some (n, ps') \<Rightarrow> match_url strtod ts (drop n s) ps')"

section \<open>The rules of a tree\<close>

definition label :: "node \<Rightarrow> rule_token list" where
  "label nd = (case param nd of Some t \<Rightarrow> [Par t] | None \<Rightarrow> map Lit (key nd))"

fun routes :: "node \<Rightarrow> (rule_token list \<times> u16) list" where
  "routes (Node r b k p chs) =
     (if r = 0 then [] else [([], r)]) @
     concat (map (\<lambda>child. map (apfst ((@) (label child))) (routes child)) chs)"

definition labelled_routes :: "node \<Rightarrow> (rule_token list \<times> u16) list" where
  "labelled_routes nd = map (apfst ((@) (label nd))) (routes nd)"

lemma routes_node:
  "routes nd = (if rule_index nd = 0 then [] else [([], rule_index nd)]) @ concat (map labelled_routes (children nd))"
  by (cases nd) (simp add: labelled_routes_def [abs_def])

declare routes.simps [simp del]

text \<open>Every node below the head consumes at least a byte.\<close>

fun labels_ok :: "node \<Rightarrow> bool" where
  "labels_ok (Node r b k p chs) \<longleftrightarrow> (\<forall>child \<in> set chs. label child \<noteq> [] \<and> labels_ok child)"

lemma labels_ok_node: "labels_ok nd \<longleftrightarrow> (\<forall>child \<in> set (children nd). label child \<noteq> [] \<and> labels_ok child)"
  by (cases nd) simp

declare labels_ok.simps [simp del]

section \<open>The least of the matches\<close>

fun pick :: "u16 \<times> 'd routing_params \<Rightarrow> u16 \<times> 'd routing_params \<Rightarrow> u16 \<times> 'd routing_params" where
  "pick (f, ps) (r, qs) = (if r \<noteq> 0 \<and> (f = 0 \<or> f > r) then (r, qs) else (f, ps))"

definition best :: "(u16 \<times> 'd routing_params) list \<Rightarrow> u16 \<times> 'd routing_params" where
  "best xs = foldl pick (0, no_params) xs"

definition candidates ::
    "'d to_double \<Rightarrow> (rule_token list \<times> u16) list \<Rightarrow> string \<Rightarrow> 'd routing_params \<Rightarrow> (u16 \<times> 'd routing_params) list" where
  "candidates strtod rs s ps =
     concat (map (\<lambda>(ts, r). case match_url strtod ts s ps of None \<Rightarrow> [] | Some qs \<Rightarrow> [(r, qs)]) rs)"

lemma candidates_append [simp]:
  "candidates strtod (xs @ ys) s ps = candidates strtod xs s ps @ candidates strtod ys s ps"
  by (simp add: candidates_def)

lemma candidates_Nil [simp]: "candidates strtod [] s ps = []"
  by (simp add: candidates_def)

lemma set_candidates:
  "set (candidates strtod rs s ps) = {(r, qs). \<exists>ts. (ts, r) \<in> set rs \<and> match_url strtod ts s ps = Some qs}"
  by (auto simp: candidates_def split: option.splits)

lemma pick_assoc: "pick (pick a b) c = pick a (pick b c)"
  by (cases a; cases b; cases c) auto

lemma pick_zero: "pick a (0, no_params) = a" "fst b = 0 \<Longrightarrow> pick a b = a" "fst b \<noteq> 0 \<Longrightarrow> pick (0, ps) b = b"
  by (cases a; cases b; auto)+

lemma pick_left_zero: "pick a (pick (pick (0, no_params) x) y) = pick a (pick x y)"
proof -
  have "pick a (pick (0, no_params) x) = pick a x"
    unfolding pick_assoc [symmetric] pick_zero(1) by (rule refl)
  then have "pick (pick a (pick (0, no_params) x)) y = pick (pick a x) y" by (rule arg_cong)
  then show ?thesis unfolding pick_assoc .
qed

lemma foldl_pick: "foldl pick a xs = pick a (best xs)"
proof (induction xs arbitrary: a)
  case Nil
  then show ?case by (simp add: best_def pick_zero)
next
  case (Cons x xs)
  have "foldl pick a (x # xs) = pick (pick a x) (best xs)" by (simp add: Cons.IH)
  also have "\<dots> = pick a (pick x (best xs))" by (rule pick_assoc)
  also have "\<dots> = pick a (pick (pick (0, no_params) x) (best xs))" by (simp only: pick_left_zero)
  also have "\<dots> = pick a (best (x # xs))" by (simp add: best_def [of "x # xs"] Cons.IH)
  finally show ?case .
qed

lemma best_append: "best (xs @ ys) = pick (best xs) (best ys)"
  using foldl_pick [of "foldl pick (0, no_params) xs" ys] unfolding best_def [of xs] best_def [of "xs @ ys"] by simp

lemma best_Nil: "best [] = (0, no_params)"
  by (simp add: best_def)

text \<open>The best of some rules with indices other than 0 is one of them, and none is smaller.\<close>

lemma best_least:
  assumes "\<forall>x \<in> set xs. fst x \<noteq> 0"
  shows "if xs = [] then fst (best xs) = 0
    else fst (best xs) \<noteq> 0 \<and> best xs \<in> set xs \<and> (\<forall>x \<in> set xs. fst (best xs) \<le> fst x)"
  using assms
proof (induction xs rule: rev_induct)
  case Nil
  then show ?case by (simp add: best_Nil)
next
  case (snoc x xs)
  have "best (xs @ [x]) = pick (best xs) x"
    by (simp add: best_def)
  with snoc show ?case
    by (cases x; cases "best xs") (auto split: if_splits simp: best_Nil)
qed

section \<open>Looking up\<close>

lemma strto_end:
  "snd (snd (strtoll s)) \<le> length s" "snd (snd (strtoull s)) \<le> length s"
proof -
  have scan: "snd (snd (scan_number s)) \<le> length s"
  proof -
    let ?b = "takeWhile is_space s"
    let ?s1 = "drop (length ?b) s"
    let ?g = "takeWhile (\<lambda>c. c = CHR ''+'' \<or> c = CHR ''-'') (take 1 ?s1)"
    have "length ?g \<le> length ?s1"
      by (rule order_trans [OF length_takeWhile_le]) simp
    moreover have "length (takeWhile is_digit (drop (length ?g) ?s1)) \<le> length (drop (length ?g) ?s1)"
      by (rule length_takeWhile_le)
    moreover have "length ?b \<le> length s" by (rule length_takeWhile_le)
    ultimately show ?thesis by (auto simp: scan_number_def Let_def)
  qed
  then show "snd (snd (strtoll s)) \<le> length s" "snd (snd (strtoull s)) \<le> length s"
    by (auto simp: strtoll_def strtoull_def split: prod.splits)
qed

lemma length_c_str: "length (c_str s) \<le> length s"
  by (simp add: c_str_def length_takeWhile_le)

lemma take_param_bounds:
  assumes "to_double_ok strtod" "take_param strtod t s ps = Some (n, qs)"
  shows "0 < n \<and> n \<le> length s"
proof (cases t)
  case P_INT
  with assms show ?thesis using strto_end(1) [of "c_str s"] length_c_str [of s]
    by (auto split: list.splits if_splits prod.splits)
next
  case P_UINT
  with assms show ?thesis using strto_end(2) [of "c_str s"] length_c_str [of s]
    by (auto split: list.splits if_splits prod.splits)
next
  case P_DOUBLE
  have "snd (snd (strtod (c_str s))) \<le> length (c_str s)" using assms(1) by (simp add: to_double_ok_def)
  with P_DOUBLE assms(2) show ?thesis using length_c_str [of s]
    by (auto split: list.splits if_splits prod.splits)
next
  case P_STRING
  with assms show ?thesis
    by (auto simp: Let_def length_takeWhile_le split: if_splits)
next
  case P_PATH
  with assms show ?thesis by (auto split: if_splits)
qed

lemma take_param_Nil [simp]: "take_param strtod t [] ps = None"
  by (cases t) simp_all

text \<open>One step of a lookup is a prefix of the match.\<close>

lemma match_literal:
  "match_url strtod (map Lit k @ ts) s ps =
     (if take (length k) s = k then match_url strtod ts (drop (length k) s) ps else None)"
proof (induction k arbitrary: s)
  case Nil
  then show ?case by simp
next
  case (Cons c k)
  then show ?case by (cases s) auto
qed

lemma match_label:
  "match_url strtod (label nd @ ts) (drop pos url) ps =
     (case fragment strtod url pos ps nd of
        None \<Rightarrow> None | Some (pos', ps') \<Rightarrow> match_url strtod ts (drop pos' url) ps')"
  by (auto simp: label_def fragment_def match_literal add.commute split: option.splits)

lemma match_label_Nil: "label nd \<noteq> [] \<Longrightarrow> match_url strtod (label nd @ ts) [] ps = None"
  by (auto simp: label_def match_literal split: option.splits)

lemma fragment_bound:
  assumes "to_double_ok strtod" "fragment strtod url pos ps nd = Some (pos', ps')" "pos \<le> length url"
  shows "pos' \<le> length url"
proof (cases "param nd")
  case None
  then have *: "pos' = pos + length (key nd)" "take (length (key nd)) (drop pos url) = key nd"
    using assms(2) by (auto simp: fragment_def split: if_splits)
  from *(2) have "length (key nd) \<le> length (drop pos url)" by (metis length_take min.cobounded1)
  with * assms(3) show ?thesis by simp
next
  case (Some t)
  with assms(2) obtain n where "take_param strtod t (drop pos url) ps = Some (n, ps')" "pos' = pos + n"
    by (auto simp: fragment_def)
  with take_param_bounds [OF assms(1)] assms(3) show ?thesis by fastforce
qed

lemma candidates_labelled:
  "candidates strtod (labelled_routes nd) (drop pos url) ps =
     (case fragment strtod url pos ps nd of
        None \<Rightarrow> [] | Some (pos', ps') \<Rightarrow> candidates strtod (routes nd) (drop pos' url) ps')"
  by (auto simp: candidates_def labelled_routes_def match_label comp_def split_def
      split: option.splits cong: option.case_cong)

lemma candidates_labelled_Nil: "label nd \<noteq> [] \<Longrightarrow> candidates strtod (labelled_routes nd) [] ps = []"
  by (auto simp: candidates_def labelled_routes_def match_label_Nil)

lemma candidates_here: "candidates strtod [([], r)] s ps = (if s = [] then [(r, ps)] else [])"
  by (simp add: candidates_def)

lemma best_single: "r \<noteq> 0 \<Longrightarrow> best [(r, ps)] = (r, ps)"
  by (simp add: best_def)

definition rule_and_params :: "'d found \<Rightarrow> u16 \<times> 'd routing_params" where
  "rule_and_params x = (fst x, snd (snd x))"

lemma update_found_pick: "rule_and_params (update_found a b) = pick (rule_and_params a) (rule_and_params b)"
  by (cases a; cases b) (auto simp: rule_and_params_def)

definition finds :: "u16 \<times> 'd routing_params \<Rightarrow> u16 \<times> 'd routing_params \<Rightarrow> bool" where
  "finds a b \<longleftrightarrow> fst a = fst b \<and> (fst a \<noteq> 0 \<longrightarrow> a = b)"

lemma pick_finds: "finds b c \<Longrightarrow> pick a b = pick a c"
  by (cases a; cases b; cases c) (auto simp: finds_def)

lemma trie_find_best:
  "to_double_ok strtod \<Longrightarrow> labels_ok nd \<Longrightarrow> pos \<le> length url \<Longrightarrow>
     finds (rule_and_params (fst (trie_find strtod url nd pos ps bps)))
       (best (candidates strtod (routes nd) (drop pos url) ps))"
  "to_double_ok strtod \<Longrightarrow> \<forall>nd \<in> set chs. label nd \<noteq> [] \<and> labels_ok nd \<Longrightarrow> pos < length url \<Longrightarrow>
     rule_and_params (fst (find_children strtod url chs pos ps bps ff acc)) =
       pick (rule_and_params acc) (best (candidates strtod (concat (map labelled_routes chs)) (drop pos url) ps))"
proof (induction strtod url nd pos ps bps and strtod url chs pos ps bps ff acc
    rule: trie_find_find_children.induct)
  case (1 strtod url r b k p chs pos params blueprints)
  have children: "\<forall>nd \<in> set chs. label nd \<noteq> [] \<and> labels_ok nd"
    using 1(3) by (simp add: labels_ok.simps)
  show ?case
  proof (cases "pos = length url")
    case True
    have "candidates strtod (concat (map labelled_routes chs)) [] params = []"
      using children by (induction chs) (simp_all add: candidates_labelled_Nil)
    then show ?thesis using True
      by (simp add: routes_node candidates_here best_single best_Nil finds_def rule_and_params_def)
  next
    case False
    then have *: "rule_and_params (fst (trie_find strtod url (Node r b k p chs) pos params blueprints)) =
        pick (0, no_params) (best (candidates strtod (concat (map labelled_routes chs)) (drop pos url) params))"
      using 1 children by (simp add: rule_and_params_def)
    have "candidates strtod (routes (Node r b k p chs)) (drop pos url) params =
        candidates strtod (concat (map labelled_routes chs)) (drop pos url) params"
      using False 1(4) by (simp add: routes_node candidates_here)
    with * show ?thesis by (cases "best (candidates strtod (concat (map labelled_routes chs)) (drop pos url) params)")
        (auto simp: finds_def)
  qed
next
  case (2 strtod url pos ps bps ff found bp qs)
  then show ?case by (simp add: rule_and_params_def best_Nil pick_zero)
next
  case (3 strtod url child chs pos ps bps ff acc)
  show ?case
  proof (cases "fragment strtod url pos ps child")
    case None
    with 3 show ?thesis by (simp add: candidates_labelled)
  next
    case (Some f)
    obtain pos' ps' where f: "f = (pos', ps')" by (cases f)
    let ?bps = "if blueprint_index child \<noteq> INVALID_BP_ID then bps @ [blueprint_index child] else bps"
    obtain ret bps' where ret: "trie_find strtod url child pos' ps' ?bps = (ret, bps')" by fastforce
    have "finds (rule_and_params ret) (best (candidates strtod (routes child) (drop pos' url) ps'))"
      using "3.IH"(2) [OF Some f [symmetric]] 3(4,5,6) fragment_bound [of strtod url pos ps child pos' ps'] Some f ret
      by auto
    then have ret': "pick a (rule_and_params ret) = pick a (best (candidates strtod (routes child) (drop pos' url) ps'))" for a
      by (rule pick_finds)
    have "rule_and_params (fst (find_children strtod url (child # chs) pos ps bps ff acc)) =
        rule_and_params (fst (find_children strtod url chs pos ps (butlast bps') True (update_found acc ret)))"
      using Some f ret by simp
    also have "\<dots> = pick (rule_and_params (update_found acc ret))
        (best (candidates strtod (concat (map labelled_routes chs)) (drop pos url) ps))"
      using "3.IH"(3) [OF Some f [symmetric] ret [symmetric]] 3(4,5,6) by simp
    finally show ?thesis
      using Some f by (simp add: update_found_pick ret' candidates_labelled best_append pick_assoc)
  qed
qed

text \<open>A lookup is the best of all the rules in the tree.\<close>

lemma find_url_best:
  assumes "to_double_ok strtod" "labels_ok head"
  shows "finds (rule_and_params (find_url strtod url head)) (best (candidates strtod (routes head) url no_params))"
  using trie_find_best(1) [OF assms, of 0 url no_params "[]"] by (simp add: find_url_def)

section \<open>Compressing\<close>

lemma optimizeNode_routes:
  "labelled_routes (optimizeNode nd) = labelled_routes nd \<and>
     (label nd \<noteq> [] \<longrightarrow> label (optimizeNode nd) \<noteq> []) \<and> (labels_ok nd \<longrightarrow> labels_ok (optimizeNode nd))"
proof (induction nd rule: optimizeNode.induct)
  case (1 nd)
  show ?case
  proof (cases "children nd = []")
    case True
    then show ?thesis by (simp add: optimizeNode.simps)
  next
    case nonempty: False
    show ?thesis
    proof (cases "IsSimpleNode nd")
      case True
      then obtain child where child: "children nd = [child]"
        using nonempty by (cases "children nd") (auto simp: IsSimpleNode_def)
      let ?nd = "Node (rule_index child) (blueprint_index child) (key nd @ key child) (param nd) (children child)"
      have none: "param nd = None" "param child = None" "rule_index nd = 0"
        using True child by (auto simp: IsSimpleNode_def)
      have "routes ?nd = routes child" by (simp add: routes_node)
      moreover have "routes nd = labelled_routes child" using none child by (simp add: routes_node)
      ultimately have "labelled_routes ?nd = labelled_routes nd"
        using none by (simp add: labelled_routes_def label_def comp_def apfst_def map_prod_def split_def)
      moreover have "label nd \<noteq> [] \<Longrightarrow> label ?nd \<noteq> []" using none by (simp add: label_def)
      moreover have "labels_ok nd \<Longrightarrow> labels_ok ?nd"
        using child labels_ok_node [of nd] labels_ok_node [of child] by (simp add: labels_ok_node [of ?nd])
      moreover have "optimizeNode nd = optimizeNode ?nd"
        using True nonempty child by (simp add: optimizeNode.simps [of nd])
      ultimately show ?thesis using "1.IH"(1) [OF nonempty True, of child] child by simp
    next
      case False
      let ?nd = "Node (rule_index nd) (blueprint_index nd) (key nd) (param nd) (map optimizeNode (children nd))"
      have "optimizeNode nd = ?nd" using False nonempty by (simp add: optimizeNode.simps [of nd])
      moreover have "map labelled_routes (map optimizeNode (children nd)) = map labelled_routes (children nd)"
        using "1.IH"(2) [OF nonempty False] by simp
      then have "routes ?nd = routes nd" by (simp only: routes_node node.sel)
      moreover have "labels_ok nd \<Longrightarrow> labels_ok ?nd"
        using "1.IH"(2) [OF nonempty False] by (auto simp: labels_ok_node [of nd] labels_ok_node [of ?nd])
      ultimately show ?thesis by (simp add: labelled_routes_def label_def cong: option.case_cong)
    qed
  qed
qed

lemma optimize_routes:
  "routes (optimize head) = routes head" "labels_ok head \<Longrightarrow> labels_ok (optimize head)"
proof -
  have "map labelled_routes (map optimizeNode (children head)) = map labelled_routes (children head)"
    using optimizeNode_routes by simp
  then show "routes (optimize head) = routes head" by (simp only: optimize_def routes_node node.sel)
  show "labels_ok head \<Longrightarrow> labels_ok (optimize head)"
    using optimizeNode_routes by (auto simp: optimize_def labels_ok_node [of head] labels_ok_node [of "Node _ _ _ _ _"])
qed

section \<open>Adding\<close>

text \<open>A tree before it is compressed: a node consumes one byte or one parameter, no two siblings the same.\<close>

definition single :: "node \<Rightarrow> bool" where
  "single child \<longleftrightarrow>
     (case param child of Some t \<Rightarrow> key child = [] | None \<Rightarrow> \<exists>c. key child = [c] \<and> c \<noteq> CHR 0x00)"

fun dict :: "node \<Rightarrow> bool" where
  "dict (Node r b k p chs) \<longleftrightarrow> distinct (map label chs) \<and> (\<forall>child \<in> set chs. single child \<and> dict child)"

lemma dict_node:
  "dict nd \<longleftrightarrow> distinct (map label (children nd)) \<and> (\<forall>child \<in> set (children nd). single child \<and> dict child)"
  by (cases nd) simp

declare dict.simps [simp del]

lemma single_label: "single child \<Longrightarrow> \<exists>tok. label child = [tok]"
  by (auto simp: single_def label_def split: option.splits)

lemma dict_labels_ok: "dict nd \<Longrightarrow> labels_ok nd"
proof (induction nd)
  case (Node r b k p chs)
  then show ?case by (auto simp: dict.simps labels_ok.simps dest!: single_label)
qed

text \<open>What adding the tokens \<open>ts\<close> with index \<open>r\<close> below a node does: an error, or the set with one more.\<close>

definition adds :: "exn \<Rightarrow> rule_token list \<Rightarrow> u16 \<Rightarrow> node \<Rightarrow> node outcome \<Rightarrow> bool" where
  "adds e ts r nd res \<longleftrightarrow>
     (if ts \<in> fst ` set (routes nd) then res = Throw e
      else \<exists>nd'. res = Ret nd' \<and> dict nd' \<and> key nd' = key nd \<and> param nd' = param nd \<and>
             set (routes nd') = insert (ts, r) (set (routes nd)) \<and>
             rule_index nd' = (if ts = [] then r else rule_index nd) \<and> blueprint_index nd' = blueprint_index nd \<and>
             set (map label (children nd')) \<subseteq> insert (take 1 ts) (set (map label (children nd))))"

lemma index_of_cases:
  obtains (None) "index_of P xs = None" "\<forall>x \<in> set xs. \<not> P x"
  | (Some) j where "index_of P xs = Some j" "j < length xs" "P (xs ! j)"
proof -
  have "case index_of P xs of None \<Rightarrow> \<forall>x \<in> set xs. \<not> P x | Some j \<Rightarrow> j < length xs \<and> P (xs ! j)"
    by (induction xs) (auto split: option.splits)
  then show ?thesis using that by (auto split: option.splits)
qed

lemma set_update_distinct:
  assumes "distinct xs" "j < length xs"
  shows "set (xs[j := x]) = insert x (set xs - {xs ! j})"
proof (rule set_eqI)
  fix y
  have "y \<in> set (xs[j := x]) \<longleftrightarrow> (\<exists>i < length xs. y = (if i = j then x else xs ! i))"
    by (auto simp: in_set_conv_nth)
  also have "\<dots> \<longleftrightarrow> y \<in> insert x (set xs - {xs ! j})"
    using assms by (auto simp: in_set_conv_nth nth_eq_iff_index_eq)
  finally show "y \<in> set (xs[j := x]) \<longleftrightarrow> y \<in> insert x (set xs - {xs ! j})" .
qed

lemma set_labelled_routes: "label nd = [tok] \<Longrightarrow> set (labelled_routes nd) = (\<lambda>(ts, r). (tok # ts, r)) ` set (routes nd)"
  by (auto simp: labelled_routes_def image_iff) force+

text \<open>One step down the tree, into the first child with property \<open>P\<close> or into a new one.\<close>

lemma descend:
  assumes nd: "dict nd" and P: "\<And>child. child \<in> set (children nd) \<Longrightarrow> P child \<longleftrightarrow> label child = [tok]"
    and new: "single new" "label new = [tok]" "children new = []" "rule_index new = 0"
    and r: "r \<noteq> 0"
    and cont: "\<And>child. single child \<Longrightarrow> dict child \<Longrightarrow> label child = [tok] \<Longrightarrow> adds e ts r child (cont child)"
  shows "adds e (tok # ts) r nd
    (case index_of P (children nd) of
       Some j \<Rightarrow> bind_outcome (cont (children nd ! j))
         (\<lambda>child. Ret (Node (rule_index nd) (blueprint_index nd) (key nd) (param nd) ((children nd)[j := child])))
     | None \<Rightarrow> bind_outcome (cont new)
         (\<lambda>child. Ret (Node (rule_index nd) (blueprint_index nd) (key nd) (param nd) (children nd @ [child]))))"
    (is "adds e (tok # ts) r nd ?res")
proof (cases rule: index_of_cases [where P = P and xs = "children nd"])
  case None
  then have other: "\<forall>child \<in> set (children nd). label child \<noteq> [tok]" using P by auto
  have "routes new = []" using new by (simp add: routes_node)
  moreover have "dict new" using new by (simp add: dict_node [of new])
  ultimately obtain ch where ch: "cont new = Ret ch" "dict ch" "key ch = key new" "param ch = param new"
      "set (routes ch) = {(ts, r)}"
    using cont [OF new(1) _ new(2)] by (auto simp: adds_def)
  have lab: "label ch = [tok]" "single ch" using ch(3,4) new(1,2) by (simp_all add: label_def single_def cong: option.case_cong)
  let ?nd = "Node (rule_index nd) (blueprint_index nd) (key nd) (param nd) (children nd @ [ch])"
  have "(tok # ts) \<notin> fst ` set (routes nd)"
  proof
    assume "(tok # ts) \<in> fst ` set (routes nd)"
    then obtain child where "child \<in> set (children nd)" "(tok # ts) \<in> fst ` set (labelled_routes child)"
      by (auto simp: routes_node split: if_splits)
    moreover from this obtain tok' where "label child = [tok']"
      using nd single_label unfolding dict_node [of nd] by blast
    ultimately show False using other by (auto simp: set_labelled_routes)
  qed
  moreover have "dict ?nd"
    using nd ch(2) lab other by (auto simp: dict_node [of nd] dict_node [of ?nd])
  moreover have "set (routes ?nd) = insert (tok # ts, r) (set (routes nd))"
  proof -
    have "set (labelled_routes ch) = {(tok # ts, r)}" using ch(5) by (simp add: set_labelled_routes [OF lab(1)])
    then show ?thesis by (simp add: routes_node [of nd] routes_node [of ?nd])
  qed
  moreover have "?res = Ret ?nd" using None ch(1) by (simp add: outcome_simps)
  ultimately show ?thesis using lab by (auto simp: adds_def)
next
  case (Some j)
  let ?old = "children nd ! j"
  have old: "?old \<in> set (children nd)" "label ?old = [tok]" "single ?old" "dict ?old"
    using Some P nd unfolding dict_node [of nd] by auto
  have unique: "child = ?old" if "child \<in> set (children nd)" "label child = [tok]" for child
  proof -
    have "inj_on label (set (children nd))" using nd unfolding dict_node [of nd] by (simp add: distinct_map)
    then show ?thesis by (rule inj_onD) (use that old(1,2) in simp_all)
  qed
  have there: "(tok # ts) \<in> fst ` set (routes nd) \<longleftrightarrow> ts \<in> fst ` set (routes ?old)"
  proof
    assume "(tok # ts) \<in> fst ` set (routes nd)"
    then obtain child where *: "child \<in> set (children nd)" "(tok # ts) \<in> fst ` set (labelled_routes child)"
      by (auto simp: routes_node split: if_splits)
    moreover from this obtain tok' where "label child = [tok']"
      using nd single_label unfolding dict_node [of nd] by blast
    ultimately have "label child = [tok]" by (auto simp: set_labelled_routes)
    with * unique show "ts \<in> fst ` set (routes ?old)" by (force simp: set_labelled_routes)
  next
    assume "ts \<in> fst ` set (routes ?old)"
    then obtain q where "(ts, q) \<in> set (routes ?old)" by auto
    then have "(tok # ts, q) \<in> set (labelled_routes ?old)" by (force simp: set_labelled_routes [OF old(2)])
    with old(1) have "(tok # ts, q) \<in> set (routes nd)" by (auto simp: routes_node [of nd])
    then show "(tok # ts) \<in> fst ` set (routes nd)" by force
  qed
  show ?thesis
  proof (cases "ts \<in> fst ` set (routes ?old)")
    case True
    then have "cont ?old = Throw e" using cont [OF old(3,4,2)] by (simp add: adds_def)
    then show ?thesis using True there Some by (simp add: adds_def outcome_simps)
  next
    case False
    then obtain ch where ch: "cont ?old = Ret ch" "dict ch" "key ch = key ?old" "param ch = param ?old"
        "set (routes ch) = insert (ts, r) (set (routes ?old))"
      using cont [OF old(3,4,2)] by (auto simp: adds_def)
    have lab: "label ch = [tok]" "single ch" using ch(3,4) old(2,3) by (simp_all add: label_def single_def cong: option.case_cong)
    let ?chs = "(children nd)[j := ch]"
    let ?nd = "Node (rule_index nd) (blueprint_index nd) (key nd) (param nd) ?chs"
    have labels: "map label ?chs = map label (children nd)"
      using lab(1) old(2) Some(2) by (simp add: map_update list_update_same_conv)
    have sub: "set ?chs \<subseteq> insert ch (set (children nd))" by (rule set_update_subset_insert)
    have "dict ?nd" using nd ch(2) lab(2) labels sub by (auto simp: dict_node [of nd] dict_node [of ?nd])
    moreover have "set (routes ?nd) = insert (tok # ts, r) (set (routes nd))"
    proof -
      have "(\<Union>c \<in> set ?chs. set (labelled_routes c)) =
          insert (tok # ts, r) (\<Union>c \<in> set (children nd). set (labelled_routes c))"
      proof -
        have "set (labelled_routes ch) = insert (tok # ts, r) (set (labelled_routes ?old))"
          by (simp add: set_labelled_routes [OF lab(1)] set_labelled_routes [OF old(2)] ch(5))
        moreover have "set ?chs = insert ch (set (children nd) - {?old})"
        proof -
          have "distinct (children nd)" using nd unfolding dict_node [of nd] by (auto simp: distinct_map)
          then show ?thesis using Some(2) by (rule set_update_distinct)
        qed
        ultimately show ?thesis using old(1) by auto
      qed
      then show ?thesis by (simp add: routes_node [of nd] routes_node [of ?nd])
    qed
    moreover have "set (map label ?chs) \<subseteq> insert (take 1 (tok # ts)) (set (map label (children nd)))"
      unfolding labels by auto
    moreover have "?res = Ret ?nd" using Some ch(1) by (simp add: outcome_simps)
    ultimately show ?thesis using False there by (simp add: adds_def)
  qed
qed

lemma single_key0:
  assumes "single child" "c \<noteq> CHR 0x00"
  shows "key0 child = c \<longleftrightarrow> label child = [Lit c]"
  using assms by (auto simp: single_def key0_def label_def split: option.splits)

lemma single_param: "single child \<Longrightarrow> param child = Some t \<longleftrightarrow> label child = [Par t]"
  by (auto simp: single_def label_def split: option.splits)

text \<open>\<open>add\<close> adds the tokens of the rest of the rule below the node; a rule with an unknown tag never returns.\<close>

definition added :: "string \<Rightarrow> u16 \<Rightarrow> nat \<Rightarrow> node \<Rightarrow> node outcome \<Rightarrow> bool" where
  "added url r i nd res \<longleftrightarrow>
     (case pattern_from url i of
        None \<Rightarrow> res = UB
      | Some ts \<Rightarrow> adds (Runtime_error (''handler already exists for '' @ url)) ts r nd res)"

lemma added_step:
  assumes nd: "dict nd" and P: "\<And>child. child \<in> set (children nd) \<Longrightarrow> P child \<longleftrightarrow> label child = [tok]"
    and new: "single new" "label new = [tok]" "children new = []" "rule_index new = 0"
    and r: "r \<noteq> 0"
    and pat: "pattern_from url i = map_option ((#) tok) (pattern_from url i')"
    and cont: "\<And>child. dict child \<Longrightarrow> added url r i' child (cont child)"
  shows "added url r i nd
    (case index_of P (children nd) of
       Some j \<Rightarrow> bind_outcome (cont (children nd ! j))
         (\<lambda>child. Ret (Node (rule_index nd) (blueprint_index nd) (key nd) (param nd) ((children nd)[j := child])))
     | None \<Rightarrow> bind_outcome (cont new)
         (\<lambda>child. Ret (Node (rule_index nd) (blueprint_index nd) (key nd) (param nd) (children nd @ [child]))))"
proof (cases "pattern_from url i'")
  case None
  then have "cont new = UB" "\<And>child. child \<in> set (children nd) \<Longrightarrow> cont child = UB"
    using cont new(3) nd by (auto simp: added_def dict_node [of nd] dict_node [of new])
  then show ?thesis
    using None pat
    by (cases rule: index_of_cases [where P = P and xs = "children nd"]) (simp_all add: added_def outcome_simps)
next
  case (Some ts)
  then have "adds (Runtime_error (''handler already exists for '' @ url)) ts r child (cont child)" if "dict child" for child
    using cont [OF that] by (simp add: added_def)
  from descend [OF nd P new r this] show ?thesis using Some pat by (simp add: added_def)
qed

lemma added_end:
  assumes "dict nd" "r \<noteq> 0" "length url \<le> i"
  shows "added url r i nd (add_from url r n bp i nd)"
proof -
  have "set (routes nd) = (if rule_index nd = 0 then {} else {([], rule_index nd)}) \<union>
      (\<Union>child \<in> set (children nd). set (labelled_routes child))" by (simp add: routes_node [of nd])
  moreover have "[] \<notin> fst ` set (labelled_routes child)" if "child \<in> set (children nd)" for child
    using that assms(1) single_label [of child] unfolding dict_node [of nd] by (auto simp: set_labelled_routes)
  ultimately have here: "[] \<in> fst ` set (routes nd) \<longleftrightarrow> rule_index nd \<noteq> 0" by auto
  let ?nd = "Node r (blueprint_index nd) (key nd) (param nd) (children nd)"
  have "dict ?nd" using assms(1) by (simp add: dict_node [of nd] dict_node [of ?nd])
  moreover have "rule_index nd = 0 \<Longrightarrow> set (routes ?nd) = insert ([], r) (set (routes nd))"
    using assms(2) by (simp add: routes_node [of nd] routes_node [of ?nd])
  ultimately show ?thesis using assms(3) here
    by (auto simp: add_from.simps [of url r n bp i nd] pattern_from.simps [of url i] adds_def added_def)
qed

lemma add_from_added:
  assumes "CHR 0x00 \<notin> set url" "r \<noteq> 0" "dict nd"
  shows "added url r i nd (add_from url r n bp i nd)"
  using assms(3)
proof (induction "length url - i" arbitrary: i nd rule: less_induct)
  case less
  show ?case
  proof (cases "i < length url")
    case False
    then show ?thesis by (intro added_end less assms(2)) simp
  next
    case inside: True
    have siblings: "single child" if "child \<in> set (children nd)" for child
      using less(2) that unfolding dict_node [of nd] by simp
    show ?thesis
    proof (cases "url ! i = CHR ''<''")
      case True
      show ?thesis
      proof (cases "trait_at url i")
        case None
        then show ?thesis using inside True
          by (simp add: add_from.simps [of url r n bp i nd] pattern_from.simps [of url i] added_def)
      next
        case (Some x)
        obtain t name where x: "x = (t, name)" by (cases x)
        have "added url r (i + length name) child (add_from url r n bp (i + length name) child)" if "dict child" for child
          using less(1) [OF _ that] trait_at_progress [OF Some [unfolded x] inside] by blast
        from added_step [where tok = "Par t" and new = "Node 0 INVALID_BP_ID [] (Some t) []" and i = i,
            OF less(2) single_param [OF siblings] _ _ _ _ assms(2) _ this]
        show ?thesis using inside True Some x
          by (simp add: add_from.simps [of url r n bp i nd] pattern_from.simps [of url i] label_def single_def)
      qed
    next
      case False
      let ?bp = "if n \<noteq> 0 \<and> bp \<noteq> INVALID_BP_ID \<and> i = n then bp else INVALID_BP_ID"
      have nul: "url ! i \<noteq> CHR 0x00" using assms(1) inside by (metis nth_mem)
      have "added url r (i + 1) child (add_from url r n bp (i + 1) child)" if "dict child" for child
        using less(1) [OF _ that] inside by simp
      from added_step [where tok = "Lit (url ! i)" and new = "Node 0 ?bp [url ! i] None []" and i = i,
          OF less(2) single_key0 [OF siblings nul] _ _ _ _ assms(2) _ this]
      show ?thesis using inside False nul
        by (simp add: add_from.simps [of url r n bp i nd] pattern_from.simps [of url i] label_def single_def)
    qed
  qed
qed

section \<open>A tree of rules that start with a slash\<close>

definition rooted :: "string \<Rightarrow> bool" where
  "rooted rule \<longleftrightarrow> rule \<noteq> [] \<and> hd rule = CHR ''/'' \<and> CHR 0x00 \<notin> set rule"

definition rule_tree :: "node \<Rightarrow> (rule_token list \<times> u16) set \<Rightarrow> bool" where
  "rule_tree head rs \<longleftrightarrow>
     dict head \<and> set (routes head) = rs \<and> rule_index head = 0 \<and> blueprint_index head = INVALID_BP_ID \<and>
     key head = [] \<and> param head = None \<and> (\<forall>child \<in> set (children head). label child = [Lit CHR ''/''])"

lemma rule_tree_new: "rule_tree new_node {}"
  by (simp add: rule_tree_def new_node_def dict.simps routes_node)

lemma pattern_rooted:
  assumes "rooted rule" "pattern rule = Some ts"
  shows "\<exists>us. ts = Lit CHR ''/'' # us"
proof -
  have "rule ! 0 = CHR ''/''" "0 < length rule" using assms(1) by (auto simp: rooted_def hd_conv_nth)
  with assms(2) show ?thesis by (auto simp: pattern_def pattern_from.simps [of rule 0])
qed

lemma rule_tree_add:
  assumes "rule_tree head rs" "rooted rule" "r \<noteq> 0"
  shows "case pattern rule of
      None \<Rightarrow> trie_add rule r n bp head = UB
    | Some ts \<Rightarrow>
        (if ts \<in> fst ` rs then trie_add rule r n bp head = Throw (Runtime_error (''handler already exists for '' @ rule))
         else \<exists>head'. trie_add rule r n bp head = Ret head' \<and> rule_tree head' (insert (ts, r) rs))"
proof -
  have "CHR 0x00 \<notin> set rule" "dict head" using assms by (auto simp: rooted_def rule_tree_def)
  from add_from_added [OF this(1) assms(3) this(2), of 0 n bp]
  have added: "added rule r 0 head (trie_add rule r n bp head)" by (simp add: trie_add_def)
  show ?thesis
  proof (cases "pattern rule")
    case None
    with added show ?thesis by (simp add: added_def pattern_def)
  next
    case (Some ts)
    then obtain us where us: "ts = Lit CHR ''/'' # us" using pattern_rooted [OF assms(2)] by blast
    have "rule_tree head' (insert (ts, r) rs)"
      if "dict head'" "key head' = key head" "param head' = param head"
        "set (routes head') = insert (ts, r) (set (routes head))" "rule_index head' = (if ts = [] then r else rule_index head)"
        "blueprint_index head' = blueprint_index head"
        "set (map label (children head')) \<subseteq> insert (take 1 ts) (set (map label (children head)))" for head'
    proof -
      have "label child = [Lit CHR ''/'']" if child: "child \<in> set (children head')" for child
      proof -
        have "label child \<in> insert (take 1 ts) (set (map label (children head)))"
          using \<open>set (map label (children head')) \<subseteq> _\<close> child by auto
        then show ?thesis using assms(1) us by (auto simp: rule_tree_def)
      qed
      then show ?thesis using that assms(1) us by (simp add: rule_tree_def)
    qed
    moreover have "set (routes head) = rs" using assms(1) by (simp add: rule_tree_def)
    moreover have "adds (Runtime_error (''handler already exists for '' @ rule)) ts r head (trie_add rule r n bp head)"
      using added Some by (simp add: added_def pattern_def)
    ultimately show ?thesis using Some unfolding adds_def by auto
  qed
qed

text \<open>Such a tree has a simple head, so that \<open>validate\<close> accepts it.\<close>

lemma rule_tree_validate:
  assumes "rule_tree head rs"
  obtains head' where "trie_validate head = Ret head'" "set (routes head') = rs" "labels_ok head'"
proof -
  have head: "dict head" "\<forall>child \<in> set (children head). label child = [Lit CHR ''/'']"
    using assms by (auto simp: rule_tree_def)
  have "length (children head) < 2"
  proof (cases "children head")
    case (Cons a xs)
    have "distinct (map label (children head))" using head(1) unfolding dict_node [of head] by simp
    with Cons head(2) show ?thesis by (cases xs) auto
  qed simp
  moreover have "param child = None" if "child \<in> set (children head)" for child
    using head(2) that by (auto simp: label_def split: option.splits)
  ultimately have "IsSimpleNode head" using assms by (simp add: IsSimpleNode_def rule_tree_def)
  then have "trie_validate head = Ret (optimize head)" by (simp add: trie_validate_def)
  moreover have "set (routes (optimize head)) = rs" using assms by (simp add: optimize_routes(1) rule_tree_def)
  moreover have "labels_ok (optimize head)" using head(1) by (intro optimize_routes(2) dict_labels_ok)
  ultimately show ?thesis by (rule that)
qed

section \<open>What a lookup finds\<close>

definition rule_match :: "'d to_double \<Rightarrow> string \<Rightarrow> string \<Rightarrow> 'd routing_params option" where
  "rule_match strtod rule u = (case pattern rule of None \<Rightarrow> None | Some ts \<Rightarrow> match_url strtod ts u no_params)"

lemma find_url_least:
  assumes "to_double_ok strtod" "labels_ok head" "\<forall>(ts, r) \<in> set (routes head). r \<noteq> 0"
  shows "case find_url strtod u head of (i, bps, ps) \<Rightarrow>
    (i = 0 \<and> (\<forall>(ts, r) \<in> set (routes head). match_url strtod ts u no_params = None)) \<or>
    (\<exists>ts. (ts, i) \<in> set (routes head) \<and> i \<noteq> 0 \<and> match_url strtod ts u no_params = Some ps \<and>
       (\<forall>(us, r) \<in> set (routes head). match_url strtod us u no_params \<noteq> None \<longrightarrow> i \<le> r))"
proof -
  obtain i bps ps where found: "find_url strtod u head = (i, bps, ps)" by (cases "find_url strtod u head")
  let ?c = "candidates strtod (routes head) u no_params"
  have c: "set ?c = {(r, qs). \<exists>ts. (ts, r) \<in> set (routes head) \<and> match_url strtod ts u no_params = Some qs}"
    by (rule set_candidates)
  then have nz: "\<forall>x \<in> set ?c. fst x \<noteq> 0" using assms(3) by auto
  have b: "i = fst (best ?c)" "i \<noteq> 0 \<Longrightarrow> (i, ps) = best ?c"
    using find_url_best [OF assms(1,2), of u] found by (auto simp: finds_def rule_and_params_def)
  show ?thesis
  proof (cases "?c = []")
    case True
    then have "i = 0" using b(1) by (simp add: best_Nil)
    moreover have "match_url strtod ts u no_params = None" if "(ts, r) \<in> set (routes head)" for ts r
    proof (rule ccontr)
      assume "match_url strtod ts u no_params \<noteq> None"
      then obtain qs where "match_url strtod ts u no_params = Some qs" by blast
      with that have "(r, qs) \<in> set ?c" unfolding c by blast
      with True show False by simp
    qed
    ultimately show ?thesis using found by auto
  next
    case False
    then have least: "fst (best ?c) \<noteq> 0" "best ?c \<in> set ?c" "\<forall>x \<in> set ?c. fst (best ?c) \<le> fst x"
      using best_least [OF nz] by simp_all
    have i: "i \<noteq> 0" "(i, ps) \<in> set ?c" using b least by simp_all
    have "i \<le> r" if us: "(us, r) \<in> set (routes head)" "match_url strtod us u no_params \<noteq> None" for us r
    proof -
      from us(2) obtain qs where "match_url strtod us u no_params = Some qs" by blast
      with us(1) have "(r, qs) \<in> set ?c" unfolding c by blast
      with least(3) b(1) show ?thesis by force
    qed
    with i found show ?thesis unfolding c by auto
  qed
qed

text \<open>Without blueprints in the tree no vector of blueprints is ever filled.\<close>

fun no_blueprints :: "node \<Rightarrow> bool" where
  "no_blueprints (Node r b k p chs) \<longleftrightarrow> b = INVALID_BP_ID \<and> (\<forall>child \<in> set chs. no_blueprints child)"

lemma no_blueprints_node:
  "no_blueprints nd \<longleftrightarrow> blueprint_index nd = INVALID_BP_ID \<and> (\<forall>child \<in> set (children nd). no_blueprints child)"
  by (cases nd) simp

lemma find_no_blueprints:
  "no_blueprints nd \<Longrightarrow> bps = [] \<Longrightarrow>
     snd (trie_find strtod u nd pos ps bps) = [] \<and> fst (snd (fst (trie_find strtod u nd pos ps bps))) = []"
  "\<forall>nd \<in> set chs. no_blueprints nd \<Longrightarrow> bps = [] \<Longrightarrow> fst (snd acc) = [] \<Longrightarrow>
     snd (find_children strtod u chs pos ps bps ff acc) = [] \<and>
     fst (snd (fst (find_children strtod u chs pos ps bps ff acc))) = []"
proof (induction strtod u nd pos ps bps and strtod u chs pos ps bps ff acc rule: trie_find_find_children.induct)
  case (1 strtod u r b k p chs pos params bps)
  then show ?case by simp
next
  case (2 strtod u pos ps bps ff found bp qs)
  then show ?case by simp
next
  case (3 strtod u child chs pos ps bps ff acc)
  show ?case
  proof (cases "fragment strtod u pos ps child")
    case None
    with 3 show ?thesis by simp
  next
    case (Some f)
    obtain pos' ps' where f: "f = (pos', ps')" by (cases f)
    have child: "no_blueprints child" "blueprint_index child = INVALID_BP_ID"
      using 3(4) no_blueprints_node [of child] by auto
    obtain ret bps' where ret: "trie_find strtod u child pos' ps' bps = (ret, bps')" by fastforce
    have "bps' = []" "fst (snd ret) = []"
      using "3.IH"(2) [OF Some f [symmetric]] child 3(5) ret by auto
    moreover have "fst (snd (update_found acc ret)) = []"
      using 3(6) \<open>fst (snd ret) = []\<close> by (cases acc; cases ret) auto
    ultimately show ?thesis
      using "3.IH"(3) [OF Some f [symmetric], of ret bps'] child 3(4,5) ret Some f by simp
  qed
qed

lemma find_url_no_blueprints: "no_blueprints head \<Longrightarrow> fst (snd (find_url strtod u head)) = []"
  using find_no_blueprints(1) [of head "[]" strtod u 0 no_params] by (simp add: find_url_def)

lemma no_blueprints_update:
  "no_blueprints nd \<Longrightarrow> no_blueprints child \<Longrightarrow>
     no_blueprints (Node r (blueprint_index nd) k p ((children nd)[j := child]))"
  "no_blueprints nd \<Longrightarrow> no_blueprints child \<Longrightarrow>
     no_blueprints (Node r (blueprint_index nd) k p (children nd @ [child]))"
  using set_update_subset_insert [of "children nd" j child] by (auto simp: no_blueprints_node [of nd])

lemma no_blueprints_add:
  "no_blueprints nd \<Longrightarrow> add_from rule r n INVALID_BP_ID i nd = Ret nd' \<Longrightarrow> no_blueprints nd'"
proof (induction rule r n "INVALID_BP_ID" i nd arbitrary: nd' rule: add_from.induct)
  case (1 rule r n i nd)
  show ?case
  proof (cases "i < length rule")
    case False
    then show ?thesis using 1(5,6)
      by (auto simp: add_from.simps [of rule r n INVALID_BP_ID i nd] no_blueprints_node [of nd] split: if_splits)
  next
    case inside: True
    have child: "no_blueprints (children nd ! j)" if "index_of P (children nd) = Some j" for P j
      using 1(5) that by (cases rule: index_of_cases [where P = P and xs = "children nd"])
        (auto simp: no_blueprints_node [of nd])
    show ?thesis
    proof (cases "rule ! i = CHR ''<''")
      case True
      with inside 1(6) obtain t name where t: "trait_at rule i = Some (t, name)"
        by (auto simp: add_from.simps [of rule r n INVALID_BP_ID i nd] split: option.splits)
      show ?thesis
      proof (cases "index_of (\<lambda>child. param child = Some t) (children nd)")
        case None
        with inside True t 1(6) obtain ch where ch:
          "add_from rule r n INVALID_BP_ID (i + length name) (Node 0 INVALID_BP_ID [] (Some t) []) = Ret ch"
          "nd' = Node (rule_index nd) (blueprint_index nd) (key nd) (param nd) (children nd @ [ch])"
          by (auto simp: add_from.simps [of rule r n INVALID_BP_ID i nd] bind_outcome_eq_Ret)
        with 1(1) [OF inside True t refl None] have "no_blueprints ch" by simp
        with 1(5) show ?thesis unfolding ch(2) by (rule no_blueprints_update)
      next
        case (Some j)
        with inside True t 1(6) obtain ch where ch:
          "add_from rule r n INVALID_BP_ID (i + length name) (children nd ! j) = Ret ch"
          "nd' = Node (rule_index nd) (blueprint_index nd) (key nd) (param nd) ((children nd)[j := ch])"
          by (auto simp: add_from.simps [of rule r n INVALID_BP_ID i nd] bind_outcome_eq_Ret)
        with 1(2) [OF inside True t refl Some] child [OF Some] have "no_blueprints ch" by simp
        with 1(5) show ?thesis unfolding ch(2) by (rule no_blueprints_update)
      qed
    next
      case False
      show ?thesis
      proof (cases "index_of (\<lambda>child. key0 child = rule ! i) (children nd)")
        case None
        with inside False 1(6) obtain ch where ch:
          "add_from rule r n INVALID_BP_ID (i + 1) (Node 0 INVALID_BP_ID [rule ! i] None []) = Ret ch"
          "nd' = Node (rule_index nd) (blueprint_index nd) (key nd) (param nd) (children nd @ [ch])"
          by (auto simp: add_from.simps [of rule r n INVALID_BP_ID i nd] bind_outcome_eq_Ret)
        with 1(3) [OF inside False None] have "no_blueprints ch" by simp
        with 1(5) show ?thesis unfolding ch(2) by (rule no_blueprints_update)
      next
        case (Some j)
        with inside False 1(6) obtain ch where ch:
          "add_from rule r n INVALID_BP_ID (i + 1) (children nd ! j) = Ret ch"
          "nd' = Node (rule_index nd) (blueprint_index nd) (key nd) (param nd) ((children nd)[j := ch])"
          by (auto simp: add_from.simps [of rule r n INVALID_BP_ID i nd] bind_outcome_eq_Ret)
        with 1(4) [OF inside False Some] child [OF Some] have "no_blueprints ch" by simp
        with 1(5) show ?thesis unfolding ch(2) by (rule no_blueprints_update)
      qed
    qed
  qed
qed

lemma no_blueprints_optimize: "no_blueprints nd \<Longrightarrow> no_blueprints (optimizeNode nd)"
proof (induction nd rule: optimizeNode.induct)
  case (1 nd)
  show ?case
  proof (cases "children nd = []")
    case True
    with 1(3) show ?thesis by (simp add: optimizeNode.simps)
  next
    case nonempty: False
    show ?thesis
    proof (cases "IsSimpleNode nd")
      case True
      then obtain child where child: "children nd = [child]"
        using nonempty by (cases "children nd") (auto simp: IsSimpleNode_def)
      have "no_blueprints child" using 1(3) child by (simp add: no_blueprints_node [of nd])
      then show ?thesis using "1.IH"(1) [OF nonempty True, of child] child True nonempty
        by (simp add: optimizeNode.simps [of nd] no_blueprints_node [of child])
    next
      case False
      then show ?thesis using "1.IH"(2) [OF nonempty False] 1(3) nonempty
        by (auto simp: optimizeNode.simps [of nd] no_blueprints_node [of nd])
    qed
  qed
qed

end
