(* ===== verification/Routing_Correct.thy ===== *)
theory Routing_Correct
  imports Routing Trie_Correct
begin

text \<open>
  What the router holds after \<open>validate\<close>: for each method the rules that serve it, in the order in which
  they were added, and a tree of exactly their patterns. The state during registration is \<open>registered\<close>;
  \<open>spec_find\<close> says which rule a URL has by going through the rules one by one.
\<close>

section \<open>Registration\<close>

definition served :: "http_method \<Rightarrow> ('s, 'd) base_rule list \<Rightarrow> ('s, 'd) base_rule list" where
  "served m rs = [r \<leftarrow> rs. m \<in> set (foreach_method r)]"

definition slash_rule :: "string \<Rightarrow> bool" where
  "slash_rule rule \<longleftrightarrow> length rule > 1 \<and> last rule = CHR ''/''"

definition entries :: "('s, 'd) base_rule list \<Rightarrow> (rule_token list \<times> u16) set" where
  "entries sv =
     {(ts, i). \<exists>k < length sv. pattern (r_rule (sv ! k)) = Some ts \<and> i = of_nat (k + 2)} \<union>
     {(ts, i). (\<exists>r \<in> set sv. slash_rule (r_rule r) \<and> pattern (butlast (r_rule r)) = Some ts) \<and> i = 1}"

definition registered :: "('s, 'd) per_method \<Rightarrow> ('s, 'd) base_rule list \<Rightarrow> bool" where
  "registered pm sv \<longleftrightarrow>
     rules pm = None # None # map Some sv \<and> rule_tree (trie pm) (entries sv) \<and> no_blueprints (trie pm)"

text \<open>A rule that can be added to others: it has a pattern, and none of its entries exists already.\<close>

definition acceptable :: "('s, 'd) base_rule list \<Rightarrow> ('s, 'd) base_rule \<Rightarrow> bool" where
  "acceptable sv r \<longleftrightarrow>
     (case pattern (r_rule r) of
        None \<Rightarrow> False
      | Some ts \<Rightarrow> ts \<notin> fst ` entries sv \<and>
          (slash_rule (r_rule r) \<longrightarrow>
             (case pattern (butlast (r_rule r)) of
                None \<Rightarrow> False | Some us \<Rightarrow> us \<notin> fst ` insert (ts, of_nat (length sv + 2)) (entries sv))))"

lemma entries_snoc:
  assumes "pattern (r_rule r) = Some ts"
  shows "entries (sv @ [r]) = insert (ts, of_nat (length sv + 2)) (entries sv) \<union>
    {(us, i). slash_rule (r_rule r) \<and> pattern (butlast (r_rule r)) = Some us \<and> i = 1}"
proof -
  have "(\<exists>k < length (sv @ [r]). pattern (r_rule ((sv @ [r]) ! k)) = Some us \<and> i = of_nat (k + 2)) \<longleftrightarrow>
      (\<exists>k < length sv. pattern (r_rule (sv ! k)) = Some us \<and> i = of_nat (k + 2)) \<or>
      us = ts \<and> i = of_nat (length sv + 2)" for us :: "rule_token list" and i :: u16
  proof -
    have "(\<exists>k < Suc n. P k) \<longleftrightarrow> (\<exists>k < n. P k) \<or> P n" for n and P :: "nat \<Rightarrow> bool"
      by (auto simp: less_Suc_eq)
    then show ?thesis using assms by (simp add: nth_append cong: conj_cong) auto
  qed
  then show ?thesis unfolding entries_def by auto
qed

lemma entries_Nil: "entries [] = {}"
  by (simp add: entries_def)

lemma rooted_butlast: "rooted rule \<Longrightarrow> slash_rule rule \<Longrightarrow> rooted (butlast rule)"
  by (cases rule) (auto simp: rooted_def slash_rule_def dest: in_set_butlastD split: if_splits)

lemma registered_new: "registered \<lparr>rules = [None, None], trie = new_node\<rparr> []"
  using rule_tree_new by (simp add: registered_def entries_Nil) (simp add: new_node_def)

lemma small_index:
  assumes "n < 65534"
  shows "(of_nat (n + 2) :: u16) \<noteq> 0" "unat (of_nat (n + 2) :: u16) = n + 2"
proof -
  show u: "unat (of_nat (n + 2) :: u16) = n + 2" using assms unfolding unat_of_nat by simp
  then show "(of_nat (n + 2) :: u16) \<noteq> 0" by auto
qed

lemma prefix_length_INVALID: "prefix_length INVALID_BP_ID bps = Ret 0"
  by (simp add: prefix_length_def)

lemma add_for_method_step:
  assumes pm: "registered (per_methods g m) sv" and root: "rooted (r_rule r)" and short: "length sv < 65534"
  shows "if acceptable sv r
    then \<exists>pm. add_for_method (r_rule r) r INVALID_BP_ID bps g m = Ret (g\<lparr>per_methods := (per_methods g)(m := pm)\<rparr>) \<and>
           registered pm (sv @ [r])
    else \<forall>g'. add_for_method (r_rule r) r INVALID_BP_ID bps g m \<noteq> Ret g'"
proof -
  let ?t = "trie (per_methods g m)" and ?i = "of_nat (length sv + 2) :: u16"
  have tree: "rule_tree ?t (entries sv)" "no_blueprints ?t" "rules (per_methods g m) = None # None # map Some sv"
    using pm by (simp_all add: registered_def)
  have i: "of_nat (length (rules (per_methods g m) @ [Some r]) - 1) = ?i" "?i \<noteq> 0"
    using tree(3) small_index [OF short] by simp_all
  have eq0: "add_for_method (r_rule r) r INVALID_BP_ID bps g m =
      bind_outcome (trie_add (r_rule r) ?i 0 INVALID_BP_ID ?t)
        (\<lambda>t. bind_outcome
           (if slash_rule (r_rule r) then trie_add (butlast (r_rule r)) RULE_SPECIAL_REDIRECT_SLASH 0 INVALID_BP_ID t
            else Ret t)
           (\<lambda>t'. Ret (g\<lparr>per_methods := (per_methods g)(m := \<lparr>rules = rules (per_methods g m) @ [Some r], trie = t'\<rparr>)\<rparr>)))"
    unfolding add_for_method_def Let_def i(1) prefix_length_INVALID slash_rule_def bind_outcome.simps by simp
  note first = rule_tree_add [OF tree(1) root i(2), of 0 INVALID_BP_ID]
  show ?thesis
  proof (cases "pattern (r_rule r)")
    case None
    with first show ?thesis
      by (simp add: acceptable_def eq0)
  next
    case (Some ts)
    show ?thesis
    proof (cases "ts \<in> fst ` entries sv")
      case True
      with first Some show ?thesis
        by (simp add: acceptable_def eq0)
    next
      case new: False
      with first Some obtain t where t: "trie_add (r_rule r) ?i 0 INVALID_BP_ID ?t = Ret t"
        "rule_tree t (insert (ts, ?i) (entries sv))" by auto
      have nb: "no_blueprints t" using t(1) tree(2) no_blueprints_add unfolding trie_add_def by blast
      show ?thesis
      proof (cases "slash_rule (r_rule r)")
        case False
        let ?pm = "\<lparr>rules = rules (per_methods g m) @ [Some r], trie = t\<rparr>"
        have "add_for_method (r_rule r) r INVALID_BP_ID bps g m = Ret (g\<lparr>per_methods := (per_methods g)(m := ?pm)\<rparr>)"
          unfolding eq0 t(1) using False by simp
        moreover have "registered ?pm (sv @ [r])"
          using tree(3) t(2) nb False by (simp add: registered_def entries_snoc [OF Some])
        ultimately show ?thesis using Some new False by (auto simp: acceptable_def)
      next
        case slash: True
        have one: "RULE_SPECIAL_REDIRECT_SLASH \<noteq> 0" by (simp add: RULE_SPECIAL_REDIRECT_SLASH_def)
        note second = rule_tree_add [OF t(2) rooted_butlast [OF root slash] one, of 0 INVALID_BP_ID]
        have eq: "add_for_method (r_rule r) r INVALID_BP_ID bps g m =
            bind_outcome (trie_add (butlast (r_rule r)) RULE_SPECIAL_REDIRECT_SLASH 0 INVALID_BP_ID t)
              (\<lambda>t'. Ret (g\<lparr>per_methods := (per_methods g)(m := \<lparr>rules = rules (per_methods g m) @ [Some r], trie = t'\<rparr>)\<rparr>))"
          unfolding eq0 t(1) using slash by simp
        show ?thesis
        proof (cases "\<exists>us. pattern (butlast (r_rule r)) = Some us \<and> us \<notin> fst ` insert (ts, ?i) (entries sv)")
          case True
          then obtain us where us: "pattern (butlast (r_rule r)) = Some us" "us \<notin> fst ` insert (ts, ?i) (entries sv)"
            by blast
          with second obtain t' where t': "trie_add (butlast (r_rule r)) RULE_SPECIAL_REDIRECT_SLASH 0 INVALID_BP_ID t = Ret t'"
            "rule_tree t' (insert (us, RULE_SPECIAL_REDIRECT_SLASH) (insert (ts, ?i) (entries sv)))" by auto
          have "entries (sv @ [r]) = insert (us, RULE_SPECIAL_REDIRECT_SLASH) (insert (ts, ?i) (entries sv))"
            using us(1) slash by (auto simp: entries_snoc [OF Some] RULE_SPECIAL_REDIRECT_SLASH_def)
          with t' tree(3) have "registered \<lparr>rules = rules (per_methods g m) @ [Some r], trie = t'\<rparr> (sv @ [r])"
            using no_blueprints_add [OF nb] unfolding trie_add_def by (simp add: registered_def)
          with eq t'(1) us Some new slash show ?thesis by (auto simp: acceptable_def outcome_simps)
        next
          case False
          then have "\<not> acceptable sv r" using Some new slash by (auto simp: acceptable_def split: option.splits)
          moreover have "trie_add (butlast (r_rule r)) RULE_SPECIAL_REDIRECT_SLASH 0 INVALID_BP_ID t \<noteq> Ret t'" for t'
            using second False by (auto split: option.splits if_splits)
          ultimately show ?thesis using eq by (auto simp: outcome_simps)
        qed
      qed
    qed
  qed
qed

text \<open>The methods of a rule, one after the other.\<close>

lemma foreach_from_sub: "distinct ms \<Longrightarrow> distinct (foreach_from bits b ms) \<and> set (foreach_from bits b ms) \<subseteq> set ms"
proof (induction ms arbitrary: b)
  case (Cons m ms)
  then have "distinct (foreach_from bits (push_bit 1 b) ms)" "set (foreach_from bits (push_bit 1 b) ms) \<subseteq> set ms"
    by auto
  with Cons.prems show ?case by auto
qed simp

lemma distinct_all_methods: "distinct all_methods"
  by (simp add: all_methods_def)

lemma distinct_foreach_method: "distinct (foreach_method r)"
  using foreach_from_sub [OF distinct_all_methods] by (simp add: foreach_method_def)

definition frame :: "('s, 'd) router \<Rightarrow> ('s, 'd) router \<Rightarrow> bool" where
  "frame g g' \<longleftrightarrow> g' = g\<lparr>per_methods := per_methods g'\<rparr>"

lemma frame_refl: "frame g g"
  by (simp add: frame_def)

lemma frame_update: "frame g (g\<lparr>per_methods := f\<rparr>)"
  by (simp add: frame_def)

lemma frame_trans: "frame g g' \<Longrightarrow> frame g' g'' \<Longrightarrow> frame g g''"
  by (cases g; cases g'; cases g'') (simp add: frame_def)

lemma fold_add_for_method:
  assumes "distinct ms" "\<forall>m. registered (per_methods g m) (sv m)" "rooted (r_rule r)"
    "\<forall>m \<in> set ms. length (sv m) < 65534"
  shows "if \<forall>m \<in> set ms. acceptable (sv m) r
    then \<exists>g'. fold_outcome (\<lambda>m g. add_for_method (r_rule r) r INVALID_BP_ID bps g m) ms g = Ret g' \<and> frame g g' \<and>
           (\<forall>m. registered (per_methods g' m) (if m \<in> set ms then sv m @ [r] else sv m))
    else \<forall>g'. fold_outcome (\<lambda>m g. add_for_method (r_rule r) r INVALID_BP_ID bps g m) ms g \<noteq> Ret g'"
  using assms
proof (induction ms arbitrary: g sv)
  case Nil
  then show ?case by (simp add: frame_def)
next
  case (Cons m ms)
  have "length (sv m) < 65534" using Cons.prems(4) by simp
  note step = add_for_method_step [of g m "sv m" r bps, OF spec [OF Cons.prems(2)] Cons.prems(3) this]
  show ?case
  proof (cases "acceptable (sv m) r")
    case False
    with step show ?thesis by (simp add: outcome_simps)
  next
    case True
    with step obtain pm where pm:
      "add_for_method (r_rule r) r INVALID_BP_ID bps g m = Ret (g\<lparr>per_methods := (per_methods g)(m := pm)\<rparr>)"
      "registered pm (sv m @ [r])" by auto
    let ?g = "g\<lparr>per_methods := (per_methods g)(m := pm)\<rparr>"
    let ?sv = "sv(m := sv m @ [r])"
    have new: "m' \<in> set ms \<Longrightarrow> ?sv m' = sv m'" for m' using Cons.prems(1) by auto
    have reg: "\<forall>m'. registered (per_methods ?g m') (?sv m')" using Cons.prems(2) pm(2) by simp
    have short: "\<forall>m' \<in> set ms. length (?sv m') < 65534" using Cons.prems(4) new by simp
    have fold: "fold_outcome (\<lambda>m g. add_for_method (r_rule r) r INVALID_BP_ID bps g m) (m # ms) g =
        fold_outcome (\<lambda>m g. add_for_method (r_rule r) r INVALID_BP_ID bps g m) ms ?g"
      using pm(1) by simp
    have all: "(\<forall>m' \<in> set (m # ms). acceptable (sv m') r) \<longleftrightarrow> (\<forall>m' \<in> set ms. acceptable (?sv m') r)"
      using True new by simp
    have "distinct ms" using Cons.prems(1) by simp
    note rest = Cons.IH [of ?g ?sv, OF this reg Cons.prems(3) short]
    show ?thesis
    proof (cases "\<forall>m' \<in> set ms. acceptable (?sv m') r")
      case False
      show ?thesis using rest unfolding fold all if_not_P [OF False] .
    next
      case ok: True
      from rest [unfolded if_P [OF ok]] obtain g' where g': "fold_outcome (\<lambda>m g. add_for_method (r_rule r) r INVALID_BP_ID bps g m) ms ?g = Ret g'"
        "frame ?g g'" "\<forall>m'. registered (per_methods g' m') (if m' \<in> set ms then ?sv m' @ [r] else ?sv m')" by auto
      have "registered (per_methods g' m') (if m' \<in> set (m # ms) then sv m' @ [r] else sv m')" for m'
        using spec [OF g'(3), of m'] Cons.prems(1) by (auto split: if_splits)
      moreover have "frame g g'" using frame_trans [OF frame_update g'(2)] .
      ultimately show ?thesis using g'(1) unfolding fold all if_P [OF ok] by auto
    qed
  qed
qed

text \<open>All the rules: accepted when each has a handler and can be added behind those before it.\<close>

fun acceptable_rules :: "('s, 'd) base_rule list \<Rightarrow> ('s, 'd) base_rule list \<Rightarrow> bool" where
  "acceptable_rules done [] \<longleftrightarrow> True"
| "acceptable_rules done (r # rs) \<longleftrightarrow>
     rule_handler r \<noteq> None \<and> (\<forall>m \<in> set (foreach_method r). acceptable (served m done) r) \<and>
     acceptable_rules (done @ [r]) rs"

lemma served_snoc: "served m (rs @ [r]) = (if m \<in> set (foreach_method r) then served m rs @ [r] else served m rs)"
  by (simp add: served_def)

lemma length_served: "length (served m rs) \<le> length rs"
  by (simp add: served_def)

lemma fold_validate_rule:
  assumes "\<forall>m. registered (per_methods g m) (served m before)" "\<forall>r \<in> set rs. rooted (r_rule r)"
    "length before + length rs < 65534"
  shows "if acceptable_rules before rs
    then \<exists>g'. fold_outcome (validate_rule INVALID_BP_ID bps) rs g = Ret g' \<and> frame g g' \<and>
           (\<forall>m. registered (per_methods g' m) (served m (before @ rs)))
    else \<forall>g'. fold_outcome (validate_rule INVALID_BP_ID bps) rs g \<noteq> Ret g'"
  using assms
proof (induction rs arbitrary: g before)
  case Nil
  then show ?case by (simp add: frame_refl)
next
  case (Cons r rs)
  have short: "\<forall>m \<in> set (foreach_method r). length (served m before) < 65534"
    using Cons.prems(3) by (auto intro!: le_less_trans [OF length_served])
  have root: "rooted (r_rule r)" using Cons.prems(2) by simp
  note step = fold_add_for_method [OF distinct_foreach_method Cons.prems(1) root short, of bps]
  show ?case
  proof (cases "rule_handler r \<noteq> None \<and> (\<forall>m \<in> set (foreach_method r). acceptable (served m before) r)")
    case False
    have "validate_rule INVALID_BP_ID bps r g \<noteq> Ret g1" for g1
    proof (cases "rule_handler r")
      case None
      then show ?thesis by (simp add: validate_rule_def rule_validate_def)
    next
      case (Some h)
      with False have "\<not> (\<forall>m \<in> set (foreach_method r). acceptable (served m before) r)" by simp
      from step [unfolded if_not_P [OF this]] Some show ?thesis
        by (simp add: validate_rule_def internal_add_rule_object_def rule_validate_def)
    qed
    with False show ?thesis by (auto simp: bind_outcome_eq_Ret)
  next
    case True
    with step obtain g1 where g1: "validate_rule INVALID_BP_ID bps r g = Ret g1" "frame g g1"
      "\<forall>m. registered (per_methods g1 m) (served m (before @ [r]))"
      by (auto simp: validate_rule_def internal_add_rule_object_def rule_validate_def served_snoc)
    from Cons.IH [OF g1(3), unfolded append_assoc append_Cons append_Nil] Cons.prems(2,3)
    have rest: "if acceptable_rules (before @ [r]) rs
      then \<exists>g'. fold_outcome (validate_rule INVALID_BP_ID bps) rs g1 = Ret g' \<and> frame g1 g' \<and>
             (\<forall>m. registered (per_methods g' m) (served m (before @ r # rs)))
      else \<forall>g'. fold_outcome (validate_rule INVALID_BP_ID bps) rs g1 \<noteq> Ret g'" by simp
    show ?thesis
    proof (cases "acceptable_rules (before @ [r]) rs")
      case ok: True
      with rest frame_trans [OF g1(2)] show ?thesis using True g1(1) by auto
    next
      case False
      with rest g1(1) show ?thesis by simp
    qed
  qed
qed

text \<open>The patterns of the entries as a list, for evaluation.\<close>

definition option_list :: "'a option \<Rightarrow> 'a list" where
  "option_list x = (case x of None \<Rightarrow> [] | Some y \<Rightarrow> [y])"

lemma set_option_list: "y \<in> set (option_list x) \<longleftrightarrow> x = Some y"
  by (cases x) (auto simp: option_list_def)

definition entry_patterns :: "string \<Rightarrow> rule_token list list" where
  "entry_patterns rule =
     option_list (pattern rule) @ option_list (if slash_rule rule then pattern (butlast rule) else None)"

lemma mem_entry_patterns:
  "ts \<in> set (entry_patterns rule) \<longleftrightarrow> pattern rule = Some ts \<or> slash_rule rule \<and> pattern (butlast rule) = Some ts"
  by (simp add: entry_patterns_def set_option_list)

lemma set_entry_patterns: "set (concat (map (\<lambda>r. entry_patterns (r_rule r)) sv)) = fst ` entries sv"
proof -
  have "ts \<in> fst ` entries sv \<longleftrightarrow> (\<exists>r \<in> set sv. pattern (r_rule r) = Some ts \<or>
      slash_rule (r_rule r) \<and> pattern (butlast (r_rule r)) = Some ts)" for ts
  proof
    assume "ts \<in> fst ` entries sv"
    then obtain i where "(ts, i) \<in> entries sv" by auto
    then show "\<exists>r \<in> set sv. pattern (r_rule r) = Some ts \<or> slash_rule (r_rule r) \<and> pattern (butlast (r_rule r)) = Some ts"
      unfolding entries_def using nth_mem by blast
  next
    assume "\<exists>r \<in> set sv. pattern (r_rule r) = Some ts \<or> slash_rule (r_rule r) \<and> pattern (butlast (r_rule r)) = Some ts"
    then obtain r where "r \<in> set sv"
      "pattern (r_rule r) = Some ts \<or> slash_rule (r_rule r) \<and> pattern (butlast (r_rule r)) = Some ts" by blast
    moreover from this(1) obtain k where "k < length sv" "sv ! k = r" by (auto simp: in_set_conv_nth)
    ultimately have "\<exists>i. (ts, i) \<in> entries sv" unfolding entries_def by blast
    then show "ts \<in> fst ` entries sv" by force
  qed
  then show ?thesis by (simp add: set_eq_iff mem_entry_patterns)
qed

lemma acceptable_code [code]:
  "acceptable sv r \<longleftrightarrow>
     (let old = concat (map (\<lambda>r. entry_patterns (r_rule r)) sv)
      in case pattern (r_rule r) of
           None \<Rightarrow> False
         | Some ts \<Rightarrow> ts \<notin> set old \<and>
             (slash_rule (r_rule r) \<longrightarrow>
                (case pattern (butlast (r_rule r)) of None \<Rightarrow> False | Some us \<Rightarrow> us \<noteq> ts \<and> us \<notin> set old)))"
  unfolding acceptable_def Let_def set_entry_patterns by (auto split: option.splits)

section \<open>After validation\<close>

definition validated :: "('s, 'd) per_method \<Rightarrow> ('s, 'd) base_rule list \<Rightarrow> bool" where
  "validated pm sv \<longleftrightarrow>
     rules pm = None # None # map Some sv \<and> set (routes (trie pm)) = entries sv \<and> labels_ok (trie pm) \<and>
     no_blueprints (trie pm)"

lemma fold_validate_trie:
  assumes "distinct ms" "\<forall>m \<in> set ms. registered (per_methods g m) (sv m)"
  obtains g' where "fold_outcome validate_trie ms g = Ret g'" "frame g g'"
    "\<forall>m. if m \<in> set ms then validated (per_methods g' m) (sv m) else per_methods g' m = per_methods g m"
proof -
  have "\<exists>g'. fold_outcome validate_trie ms g = Ret g' \<and> frame g g' \<and>
      (\<forall>m. if m \<in> set ms then validated (per_methods g' m) (sv m) else per_methods g' m = per_methods g m)"
    using assms
  proof (induction ms arbitrary: g)
    case Nil
    then show ?case by (simp add: frame_refl)
  next
    case (Cons m ms)
    have reg: "registered (per_methods g m) (sv m)" using Cons.prems(2) by simp
    then have tree: "rule_tree (trie (per_methods g m)) (entries (sv m))" "no_blueprints (trie (per_methods g m))"
      by (simp_all add: registered_def)
    obtain t where t: "trie_validate (trie (per_methods g m)) = Ret t" "set (routes t) = entries (sv m)" "labels_ok t"
      using rule_tree_validate [OF tree(1)] .
    have "t = optimize (trie (per_methods g m))" using t(1) by (simp add: trie_validate_def split: if_splits)
    then have nb: "no_blueprints t"
      using tree(2) no_blueprints_optimize by (auto simp: optimize_def no_blueprints_node [of "trie (per_methods g m)"])
    let ?pm = "(per_methods g m)\<lparr>trie := t\<rparr>"
    let ?g = "g\<lparr>per_methods := (per_methods g)(m := ?pm)\<rparr>"
    have valid: "validated ?pm (sv m)" using reg t nb by (simp add: validated_def registered_def)
    have "\<forall>m' \<in> set ms. registered (per_methods ?g m') (sv m')" "distinct ms" using Cons.prems by auto
    from Cons.IH [OF this(2,1)] obtain g' where g': "fold_outcome validate_trie ms ?g = Ret g'" "frame ?g g'"
      "\<forall>m'. if m' \<in> set ms then validated (per_methods g' m') (sv m') else per_methods g' m' = per_methods ?g m'" by auto
    have "if m' \<in> set (m # ms) then validated (per_methods g' m') (sv m') else per_methods g' m' = per_methods g m'" for m'
      using spec [OF g'(3), of m'] valid Cons.prems(1) by (cases "m' = m") auto
    moreover have "fold_outcome validate_trie (m # ms) g = Ret g'" using t(1) g'(1) by (simp add: validate_trie_def)
    moreover have "frame g g'" using frame_trans [OF frame_update g'(2)] .
    ultimately show ?case by blast
  qed
  with that show ?thesis by blast
qed

lemma all_methods_all: "m \<in> set all_methods"
  by (cases m) (simp_all add: all_methods_def)

text \<open>A router without blueprints, before \<open>validate\<close>.\<close>

definition plain_router :: "'s catchall option \<Rightarrow> ('s, 'd) base_rule list \<Rightarrow> ('s, 'd) router" where
  "plain_router c rs = new_router\<lparr>catchall_rule := c, all_rules := rs\<rparr>"

lemma router_validate_plain:
  assumes "\<forall>r \<in> set rs. rooted (r_rule r)" "length rs < 65534"
  shows "if acceptable_rules [] rs
    then \<exists>g. router_validate (plain_router c rs) = Ret g \<and> frame (plain_router c rs) g \<and>
           (\<forall>m. validated (per_methods g m) (served m rs))
    else \<forall>g. router_validate (plain_router c rs) \<noteq> Ret g"
proof -
  let ?g = "plain_router c rs"
  have eq: "router_validate ?g = bind_outcome (fold_outcome (validate_rule INVALID_BP_ID []) rs ?g) (fold_outcome validate_trie all_methods)"
    by (simp add: router_validate_def plain_router_def new_router_def)
  have start: "\<forall>m. registered (per_methods ?g m) (served m [])"
    using registered_new by (simp add: plain_router_def new_router_def served_def)
  note rs = fold_validate_rule [OF start assms(1), of "[]", unfolded append_Nil list.size(3) add_0, OF assms(2)]
  show ?thesis
  proof (cases "acceptable_rules [] rs")
    case False
    show ?thesis using rs [unfolded if_not_P [OF False]] unfolding if_not_P [OF False] eq
      by (simp add: bind_outcome_eq_Ret)
  next
    case True
    from rs [unfolded if_P [OF True]] obtain g1 where g1:
      "fold_outcome (validate_rule INVALID_BP_ID []) rs ?g = Ret g1" "frame ?g g1"
      "\<forall>m. registered (per_methods g1 m) (served m rs)" by auto
    have "\<forall>m \<in> set all_methods. registered (per_methods g1 m) (served m rs)" using g1(3) by simp
    from fold_validate_trie [OF distinct_all_methods this] obtain g where
      "fold_outcome validate_trie all_methods g1 = Ret g" "frame g1 g"
      "\<forall>m. if m \<in> set all_methods then validated (per_methods g m) (served m rs)
           else per_methods g m = per_methods g1 m" .
    with g1 frame_trans [OF g1(2)] show ?thesis unfolding if_P [OF True] eq by (auto simp: all_methods_all)
  qed
qed

section \<open>Finding a rule\<close>

datatype ('s, 'd) target = No_rule | Redirect_slash | Target "('s, 'd) base_rule" "'d routing_params"

fun first_match ::
    "'d to_double \<Rightarrow> ('s, 'd) base_rule list \<Rightarrow> string \<Rightarrow> (('s, 'd) base_rule \<times> 'd routing_params) option" where
  "first_match strtod [] u = None"
| "first_match strtod (r # rs) u =
     (case rule_match strtod (r_rule r) u of Some ps \<Rightarrow> Some (r, ps) | None \<Rightarrow> first_match strtod rs u)"

definition redirects :: "'d to_double \<Rightarrow> ('s, 'd) base_rule list \<Rightarrow> string \<Rightarrow> bool" where
  "redirects strtod sv u \<longleftrightarrow>
     (\<exists>r \<in> set sv. slash_rule (r_rule r) \<and> rule_match strtod (butlast (r_rule r)) u \<noteq> None)"

text \<open>The rule of a URL: a redirection goes first, then the first rule that matches.\<close>

definition spec_find :: "'d to_double \<Rightarrow> ('s, 'd) base_rule list \<Rightarrow> string \<Rightarrow> ('s, 'd) target" where
  "spec_find strtod sv u =
     (if redirects strtod sv u then Redirect_slash
      else case first_match strtod sv u of Some (r, ps) \<Rightarrow> Target r ps | None \<Rightarrow> No_rule)"

lemma first_match_Some:
  "first_match strtod sv u = Some (r, ps) \<longleftrightarrow>
     (\<exists>k < length sv. sv ! k = r \<and> rule_match strtod (r_rule r) u = Some ps \<and>
        (\<forall>j < k. rule_match strtod (r_rule (sv ! j)) u = None))"
proof (induction sv)
  case (Cons q sv)
  have split: "(\<exists>k < length (q # sv). P k) \<longleftrightarrow> P 0 \<or> (\<exists>k < length sv. P (Suc k))" for P
    by (simp add: Ex_less_Suc2)
  have all: "(\<forall>j < Suc k. P j) \<longleftrightarrow> P 0 \<and> (\<forall>j < k. P (Suc j))" for P and k :: nat
    by (simp add: All_less_Suc2)
  show ?case
  proof (cases "rule_match strtod (r_rule q) u")
    case None
    then show ?thesis unfolding split by (auto simp: Cons.IH all)
  next
    case (Some qs)
    then show ?thesis unfolding split by (auto simp: all)
  qed
qed simp

lemma first_match_None:
  "first_match strtod sv u = None \<longleftrightarrow> (\<forall>r \<in> set sv. rule_match strtod (r_rule r) u = None)"
  by (induction sv) (auto split: option.splits)

lemma entries_cases:
  assumes "(ts, i) \<in> entries sv" "length sv < 65534"
  obtains (rule) k where "k < length sv" "pattern (r_rule (sv ! k)) = Some ts" "i = of_nat (k + 2)" "unat i = k + 2"
  | (slash) r where "r \<in> set sv" "slash_rule (r_rule r)" "pattern (butlast (r_rule r)) = Some ts" "i = 1"
proof -
  from assms(1) consider k where "k < length sv" "pattern (r_rule (sv ! k)) = Some ts" "i = of_nat (k + 2)"
    | r where "r \<in> set sv" "slash_rule (r_rule r)" "pattern (butlast (r_rule r)) = Some ts" "i = 1"
    unfolding entries_def by blast
  then show ?thesis
  proof cases
    case (1 k)
    have "unat i = k + 2" unfolding 1(3) using 1(1) assms(2) by (intro small_index(2)) simp
    with 1 show ?thesis by (rule rule)
  next
    case (2 r)
    then show ?thesis by (rule slash)
  qed
qed

lemma find_url_spec:
  assumes ok: "to_double_ok strtod" and pm: "validated pm sv" and short: "length sv < 65534"
  shows "case spec_find strtod sv u of
      No_rule \<Rightarrow> fst (find_url strtod u (trie pm)) = 0
    | Redirect_slash \<Rightarrow> fst (find_url strtod u (trie pm)) = RULE_SPECIAL_REDIRECT_SLASH
    | Target r ps \<Rightarrow> \<exists>k < length sv. sv ! k = r \<and> rule_match strtod (r_rule r) u = Some ps \<and>
        find_url strtod u (trie pm) = (of_nat (k + 2), [], ps)"
proof -
  obtain i bps ps where found: "find_url strtod u (trie pm) = (i, bps, ps)" by (cases "find_url strtod u (trie pm)")
  have bps: "bps = []" using find_url_no_blueprints [of "trie pm" strtod u] pm found by (simp add: validated_def)
  have routes: "set (routes (trie pm)) = entries sv" "labels_ok (trie pm)" using pm by (simp_all add: validated_def)
  have nz: "r \<noteq> 0" if "(ts, r) \<in> entries sv" for ts r
    using that short by (cases rule: entries_cases) auto
  then have "\<forall>(ts, r) \<in> set (routes (trie pm)). r \<noteq> 0" unfolding routes(1) by auto
  from find_url_least [OF ok routes(2) this, of u]
  have least: "(i = 0 \<and> (\<forall>(ts, r) \<in> entries sv. match_url strtod ts u no_params = None)) \<or>
    (\<exists>ts. (ts, i) \<in> entries sv \<and> i \<noteq> 0 \<and> match_url strtod ts u no_params = Some ps \<and>
       (\<forall>(us, r) \<in> entries sv. match_url strtod us u no_params \<noteq> None \<longrightarrow> i \<le> r))"
    unfolding routes(1) found by simp
  have rule_in: "\<exists>ts. (ts, of_nat (k + 2)) \<in> entries sv \<and> match_url strtod ts u no_params = Some qs"
    if "k < length sv" "rule_match strtod (r_rule (sv ! k)) u = Some qs" for k qs
    using that by (auto simp: rule_match_def entries_def split: option.splits)
  have slash_in: "\<exists>ts. (ts, 1) \<in> entries sv \<and> match_url strtod ts u no_params \<noteq> None" if "redirects strtod sv u"
    using that by (fastforce simp: redirects_def rule_match_def entries_def split: option.splits)
  show ?thesis
  proof (cases "redirects strtod sv u")
    case True
    from slash_in [OF this] obtain ts where ts: "(ts, 1) \<in> entries sv" "match_url strtod ts u no_params \<noteq> None" by blast
    with least have "i \<noteq> 0" "i \<le> 1" by auto
    then have "unat i \<noteq> 0" "unat i \<le> unat (1 :: u16)" by (simp_all only: word_le_nat_alt unat_eq_zero not_False_eq_True)
    then have "unat i = 1" by simp
    then have "i = of_nat 1" by (simp add: word_unat_eq_iff)
    then have "i = 1" by simp
    with True found show ?thesis by (simp add: spec_find_def RULE_SPECIAL_REDIRECT_SLASH_def)
  next
    case no_slash: False
    show ?thesis
    proof (cases "first_match strtod sv u")
      case None
      have "i = 0"
      proof (rule ccontr)
        assume "i \<noteq> 0"
        with least obtain ts where ts: "(ts, i) \<in> entries sv" "match_url strtod ts u no_params = Some ps" by auto
        from ts(1) short show False
        proof (cases rule: entries_cases)
          case (rule k)
          with ts(2) None show False by (auto simp: first_match_None rule_match_def dest!: bspec [OF _ nth_mem])
        next
          case (slash r)
          with ts(2) no_slash show False by (auto simp: redirects_def rule_match_def)
        qed
      qed
      with None no_slash found show ?thesis by (simp add: spec_find_def)
    next
      case (Some x)
      obtain r qs where x: "x = (r, qs)" by (cases x)
      with Some obtain k where k: "k < length sv" "sv ! k = r" "rule_match strtod (r_rule r) u = Some qs"
        "\<forall>j < k. rule_match strtod (r_rule (sv ! j)) u = None" by (auto simp: first_match_Some)
      from rule_in [OF k(1)] k(2,3) obtain ts where ts: "(ts, of_nat (k + 2)) \<in> entries sv"
        "match_url strtod ts u no_params = Some qs" by blast
      have uk: "unat (of_nat (k + 2) :: u16) = k + 2" using k(1) short by (intro small_index(2)) simp
      from least ts obtain us where us: "(us, i) \<in> entries sv" "match_url strtod us u no_params = Some ps"
        "i \<le> of_nat (k + 2)" by auto
      from us(1) short show ?thesis
      proof (cases rule: entries_cases)
        case (rule j)
        have "unat i \<le> unat (of_nat (k + 2) :: u16)" using us(3) by (simp only: word_le_nat_alt)
        then have "j \<le> k" unfolding uk rule(4) by simp
        moreover have "rule_match strtod (r_rule (sv ! j)) u = Some ps"
          using rule(2) us(2) by (simp add: rule_match_def)
        ultimately have "j = k" using k(4) by (metis le_neq_implies_less option.distinct(1))
        with \<open>rule_match strtod (r_rule (sv ! j)) u = Some ps\<close> k have "ps = qs" by simp
        with \<open>j = k\<close> rule(3) k(1,2,3) found bps Some x no_slash show ?thesis by (auto simp: spec_find_def)
      next
        case (slash q)
        with us(2) no_slash show ?thesis by (auto simp: redirects_def rule_match_def)
      qed
    qed
  qed
qed

end
