(* ===== verification/Utility_Theorems.thy ===== *)
theory Utility_Theorems
  imports Utility
begin

text \<open>
  \<open>sanitize_filename\<close> against its purpose: the loop over an index is the recursion \<open>clean\<close> over the rest of
  the name, and no component of the result is special. The tags of a rule are read alike by the compiler
  and at run time.
\<close>

section \<open>The loop as a recursion\<close>

lemma special_end_shift:
  "special_end (pre @ s) (length pre + i) p = map_option ((+) (length pre)) (special_end s i p)"
proof (induction p arbitrary: i)
  case (Cons x p)
  from Cons.IH [of "i + 1"] show ?case by simp
qed simp

lemma number_end_shift:
  "number_end (pre @ s) b (length pre + i) = map_option ((+) (length pre)) (number_end s b i)"
  by (simp add: number_end_def)

lemma sanitizeSpecialFile_shift:
  "s \<noteq> [] \<Longrightarrow> p \<noteq> [] \<Longrightarrow>
     sanitizeSpecialFile (length pre) p b r (pre @ s) = pre @ sanitizeSpecialFile 0 p b r s"
proof -
  assume ne: "s \<noteq> []" "p \<noteq> []"
  have "Option.bind (special_end (pre @ s) (length pre) p) (number_end (pre @ s) b) =
      map_option ((+) (length pre)) (Option.bind (special_end s 0 p) (number_end s b))"
    using special_end_shift [of pre s 0 p] number_end_shift [of pre s b]
    by (cases "special_end s 0 p") auto
  moreover have "take 1 s \<noteq> []" using ne by (cases s) auto
  ultimately show ?thesis
    using ne by (cases "Option.bind (special_end s 0 p) (number_end s b)")
      (auto simp: sanitizeSpecialFile_def list_update_append nth_append)
qed

lemma sanitizeSpecialFile_ne: "s \<noteq> [] \<Longrightarrow> sanitizeSpecialFile i p b r s \<noteq> []"
  by (auto simp: sanitizeSpecialFile_def split: option.splits)

lemma check_entry_shift:
  "s \<noteq> [] \<Longrightarrow> check_entry b (length pre) r (pre @ s) = pre @ check_entry b 0 r s"
proof -
  assume ne: "s \<noteq> []"
  then have "(pre @ s) ! length pre = s ! 0" by (cases s) simp_all
  with ne show ?thesis
    by (simp add: check_entry_def sanitize_entry_def Let_def sanitizeSpecialFile_shift sanitizeSpecialFile_ne)
qed

lemma check_entry_ne: "s \<noteq> [] \<Longrightarrow> check_entry b i r s \<noteq> []"
  by (simp add: check_entry_def sanitize_entry_def Let_def sanitizeSpecialFile_ne)

lemma length_check_entry: "length (check_entry b 0 r s) \<le> length s \<or> s = []"
  using length_sanitize_entry [of 0 s r] by (auto simp: check_entry_def)

function clean :: "char \<Rightarrow> bool \<Rightarrow> string \<Rightarrow> string" where
  "clean r b s =
     (if s = [] then []
      else (case check_entry b 0 r s of
              [] \<Rightarrow> []
            | c # t \<Rightarrow> if bad_char c then r # clean r False t else c # clean r (slash c) t))"
  by pat_completeness auto
termination
proof (relation "measure (\<lambda>(r, b, s). length s)")
  fix r :: char and b and s :: string and c t
  assume "s \<noteq> []" "check_entry b 0 r s = c # t"
  with length_check_entry [of b r s] have "length t < length s" by simp
  then show "((r, False, t), r, b, s) \<in> measure (\<lambda>(r, b, s). length s)"
    "((r, slash c, t), r, b, s) \<in> measure (\<lambda>(r, b, s). length s)" by simp_all
qed simp

declare clean.simps [simp del]

lemma sanitize_loop_clean:
  "pre \<noteq> [] \<Longrightarrow> sanitize_loop r (length pre) b (pre @ s) = pre @ clean r b s"
proof (induction r b s arbitrary: pre rule: clean.induct)
  case (1 r b s)
  show ?case
  proof (cases "s = []")
    case True
    then show ?thesis by (simp add: sanitize_loop.simps clean.simps)
  next
    case False
    then obtain c t where ct: "check_entry b 0 r s = c # t" using check_entry_ne by (cases "check_entry b 0 r s") auto
    have step: "sanitize_loop r (length pre) b (pre @ s) =
        (if bad_char c then sanitize_loop r (length (pre @ [r])) False ((pre @ [r]) @ t)
         else if slash c then sanitize_loop r (length (pre @ [c])) True ((pre @ [c]) @ t)
         else sanitize_loop r (length (pre @ [c])) False ((pre @ [c]) @ t))"
      using False 1(3) check_entry_shift [OF False, of b pre r] ct
      by (simp add: sanitize_loop.simps [of r "length pre"] Let_def)
    show ?thesis
      unfolding step using "1.IH"(1) [OF False ct, of "pre @ [r]"] "1.IH"(2) [OF False ct, of "pre @ [c]"]
      by (cases "bad_char c"; cases "slash c") (simp_all add: clean.simps [of r b s] False ct)
  qed
qed

lemma sanitize_start:
  assumes "s \<noteq> []"
  obtains c t where "check_entry True 0 r s = c # t"
    "sanitize_loop r 0 True s = (if bad_char c \<or> slash c then r # clean r False t else c # clean r False t)"
proof -
  obtain c t where ct: "check_entry True 0 r s = c # t"
    using assms check_entry_ne by (cases "check_entry True 0 r s") auto
  have "sanitize_loop r 0 True s = (if bad_char c \<or> slash c then r # clean r False t else c # clean r False t)"
    using assms ct sanitize_loop_clean [of "[r]" r False t] sanitize_loop_clean [of "[c]" r False t]
    by (simp add: sanitize_loop.simps [of r 0] Let_def)
  with ct that show ?thesis by blast
qed

section \<open>Special components\<close>

definition ends :: "string \<Rightarrow> bool" where
  "ends s \<longleftrightarrow> s = [] \<or> hd s \<in> {CHR ''.'', CHR '':'', CHR ''/'', CHR 0x5C}"

lemma ends_Nil [simp]: "ends []"
  by (simp add: ends_def)

fun hits :: "string \<Rightarrow> bool \<Rightarrow> string \<Rightarrow> bool" where
  "hits [] b s = (if b then s \<noteq> [] \<and> 49 \<le> byte (hd s) \<and> byte (hd s) \<le> 57 \<and> ends (tl s) else ends s)"
| "hits (p # ps) b s \<longleftrightarrow> s \<noteq> [] \<and> toUpper (hd s) = p \<and> hits ps b (tl s)"

lemma hits_special:
  "hits p b (drop i s) \<longleftrightarrow>
     (case Option.bind (special_end s i p) (number_end s b) of
        None \<Rightarrow> False
      | Some k \<Rightarrow> k \<ge> length s \<or> s ! k \<in> {CHR ''.'', CHR '':'', CHR ''/'', CHR 0x5C})"
proof (induction p arbitrary: i)
  case Nil
  have e: "ends (drop k s) \<longleftrightarrow> k \<ge> length s \<or> s ! k \<in> {CHR ''.'', CHR '':'', CHR ''/'', CHR 0x5C}" for k
    by (cases "k < length s") (simp_all add: ends_def hd_drop_conv_nth)
  have "tl (drop i s) = drop (i + 1) s" by (simp add: tl_drop drop_Suc)
  then show ?case
    by (cases "i < length s") (auto simp: number_end_def hd_drop_conv_nth e)
next
  case (Cons x p)
  have "tl (drop i s) = drop (i + 1) s" by (simp add: tl_drop drop_Suc)
  with Cons [of "i + 1"] show ?case
    by (cases "i < length s") (simp_all add: hd_drop_conv_nth)
qed

text \<open>The names that are special, with those that take a number.\<close>

definition specials :: "(string \<times> bool) list" where
  "specials = [(''AUX'', False), (''CON'', False), (''COM'', True), (''LPT'', True), (''NUL'', False),
     (''PRN'', False), (''..'', False)]"

definition special :: "string \<Rightarrow> bool" where
  "special s \<longleftrightarrow> (\<exists>(p, b) \<in> set specials. hits p b s)"

lemma sanitizeSpecialFile_hits:
  "sanitizeSpecialFile 0 p b r s = s \<and> \<not> hits p b s \<or> hits p b s \<and> (\<exists>t. sanitizeSpecialFile 0 p b r s = r # t)"
  if "s \<noteq> []"
proof -
  have "(take 1 s @ drop k s)[0 := r] = r # drop k s" for k using that by (cases s) auto
  then show ?thesis using hits_special [of p b 0 s]
    by (auto simp: sanitizeSpecialFile_def split: option.splits)
qed

lemma special_first: "special s \<Longrightarrow> s \<noteq> [] \<and> toUpper (hd s) \<in> set ''ACLNP.''"
  by (auto simp: special_def specials_def)

lemma not_special_underscore: "\<not> special (CHR ''_'' # t)"
  using special_first [of "CHR ''_'' # t"] by (auto simp: toUpper_def byte_def)

lemma hits_first: "hits (p # ps) b s \<Longrightarrow> toUpper (hd s) = p"
  by simp

lemma specials_by_letter:
  assumes "special s"
  shows "(toUpper (hd s) = CHR ''A'' \<and> hits ''AUX'' False s) \<or>
    (toUpper (hd s) = CHR ''C'' \<and> (hits ''CON'' False s \<or> hits ''COM'' True s)) \<or>
    (toUpper (hd s) = CHR ''L'' \<and> hits ''LPT'' True s) \<or> (toUpper (hd s) = CHR ''N'' \<and> hits ''NUL'' False s) \<or>
    (toUpper (hd s) = CHR ''P'' \<and> hits ''PRN'' False s) \<or> (toUpper (hd s) = CHR ''.'' \<and> hits ''..'' False s)"
  using assms by (auto simp: special_def specials_def simp del: hits.simps dest: hits_first)

lemma hits_underscore: "p \<noteq> [] \<Longrightarrow> hd p \<noteq> CHR ''_'' \<Longrightarrow> \<not> hits p b (CHR ''_'' # t)"
  by (cases p) (auto simp: toUpper_def byte_def)

lemma check_entry_not_special:
  assumes "s \<noteq> []"
  shows "\<not> special (check_entry True 0 CHR ''_'' s)"
proof
  let ?f = "\<lambda>p b s. sanitizeSpecialFile 0 p b CHR ''_'' s"
  let ?s = "check_entry True 0 CHR ''_'' s"
  assume sp: "special ?s"
  have hd: "s ! 0 = hd s" using assms by (simp add: hd_conv_nth)
  have f: "?f p b s = s \<and> \<not> hits p b s" if "special (?f p b s)" for p b
    using sanitizeSpecialFile_hits [OF assms, of p b "CHR ''_''"] not_special_underscore that by auto
  have con: "?f ''COM'' True (?f ''CON'' False s) =
      (if hits ''CON'' False s then ?f ''CON'' False s else ?f ''COM'' True s)"
  proof (cases "hits ''CON'' False s")
    case True
    then obtain t where t: "?f ''CON'' False s = CHR ''_'' # t"
      using sanitizeSpecialFile_hits [OF assms, of "''CON''" False "CHR ''_''"] by auto
    have "?f ''COM'' True (CHR ''_'' # t) = CHR ''_'' # t"
      using sanitizeSpecialFile_hits [of "CHR ''_'' # t" "''COM''" True "CHR ''_''"] hits_underscore [of "''COM''" True t]
      by auto
    with t True show ?thesis by simp
  next
    case False
    then show ?thesis using sanitizeSpecialFile_hits [OF assms, of "''CON''" False "CHR ''_''"] by auto
  qed
  show False
  proof (cases "?s = s")
    case True
    then show False
      using specials_by_letter [of s] sp hd con f [of "''AUX''" False] f [of "''CON''" False] f [of "''COM''" True]
        f [of "''LPT''" True] f [of "''NUL''" False] f [of "''PRN''" False] f [of "''..''" False]
      by (auto simp: check_entry_def sanitize_entry_def Let_def split: if_splits)
  next
    case False
    then show False
      using sp hd con f [of "''AUX''" False] f [of "''CON''" False] f [of "''COM''" True]
        f [of "''LPT''" True] f [of "''NUL''" False] f [of "''PRN''" False] f [of "''..''" False]
      by (auto simp: check_entry_def sanitize_entry_def Let_def split: if_splits)
  qed
qed

section \<open>The result of \<open>sanitize_filename\<close>\<close>

lemma clean_True: "s \<noteq> [] \<Longrightarrow> clean r True s = clean r False (check_entry True 0 r s)"
  by (simp add: clean.simps [of r True s] clean.simps [of r False "check_entry True 0 r s"] check_entry_ne)
    (simp add: check_entry_def [of False])

lemma clean_Cons:
  "clean r False (c # t) = (if bad_char c then r # clean r False t else c # clean r (slash c) t)"
  by (simp add: clean.simps [of r False "c # t"] check_entry_def)

lemma clean_Nil [simp]: "clean r b [] = []"
  by (simp add: clean.simps)

lemma clean_empty_iff [simp]: "clean r b s = [] \<longleftrightarrow> s = []"
  using check_entry_ne [of s b 0 r] by (auto simp: clean.simps [of r b s] split: list.splits)

text \<open>Cleaning the rest of a component makes nothing special.\<close>

lemma hits_clean:
  assumes "hits p b (clean CHR ''_'' False s)" "set p \<subseteq> set ''AUXCONMLPTR.''"
  shows "hits p b s"
  using assms
proof (induction p arbitrary: s)
  case Nil
  have ends: "ends t" if "ends (clean CHR ''_'' False t)" for t
  proof (cases t)
    case (Cons c u)
    with that show ?thesis by (auto simp: clean_Cons ends_def split: if_splits)
  qed simp
  show ?case
  proof (cases b)
    case True
    with Nil obtain c t where s: "s = c # t" by (cases s) auto
    have c: "\<not> bad_char c"
    proof
      assume "bad_char c"
      with Nil True s show False by (simp add: clean_Cons byte_def)
    qed
    with Nil True s have n: "49 \<le> byte c" "byte c \<le> 57" by (auto simp: clean_Cons)
    then have "\<not> slash c" by (auto simp: slash_def byte_def)
    with Nil True s ends [of t] c n show ?thesis by (simp add: clean_Cons)
  next
    case False
    with Nil ends show ?thesis by simp
  qed
next
  case (Cons x p)
  then obtain c t where s: "s = c # t" by (cases s) auto
  have x: "x \<in> set ''AUXCONMLPTR.''" using Cons.prems by simp
  have "\<not> bad_char c"
  proof
    assume "bad_char c"
    with Cons.prems(1) s have "toUpper CHR ''_'' = x" by (simp add: clean_Cons)
    with x show False by (auto simp: toUpper_def byte_def)
  qed
  with Cons.prems(1) s have up: "toUpper c = x" by (simp add: clean_Cons)
  have "\<not> slash c"
  proof
    assume "slash c"
    then have "toUpper c = c" by (auto simp: slash_def toUpper_def byte_def)
    with up x \<open>slash c\<close> show False by (auto simp: slash_def)
  qed
  with Cons.prems s \<open>\<not> bad_char c\<close> have "hits p b (clean CHR ''_'' False t)" by (simp add: clean_Cons)
  with Cons.IH Cons.prems(2) up s show ?case by simp
qed

lemma special_clean: "special (clean CHR ''_'' False s) \<Longrightarrow> special s"
  unfolding special_def specials_def using hits_clean [of _ _ s] by (auto simp del: hits.simps)

lemma clean_not_special: "\<not> special (clean CHR ''_'' True s)"
proof (cases "s = []")
  case True
  then show ?thesis using special_first [of "[]"] by auto
next
  case False
  then show ?thesis using check_entry_not_special [OF False] special_clean by (auto simp: clean_True)
qed

lemma clean_component:
  "clean CHR ''_'' b s = x @ y \<Longrightarrow> x \<noteq> [] \<Longrightarrow> slash (last x) \<Longrightarrow> \<not> special y"
proof (induction "CHR ''_''" b s arbitrary: x rule: clean.induct)
  case (1 b s)
  have u: "\<not> slash CHR ''_''" by (simp add: slash_def)
  from 1(3,4) have "s \<noteq> []" by auto
  then obtain c t where ct: "check_entry b 0 CHR ''_'' s = c # t"
    using check_entry_ne by (cases "check_entry b 0 CHR ''_'' s") auto
  obtain x0 xs where x: "x = x0 # xs" using 1(4) by (cases x) auto
  show ?case
  proof (cases "bad_char c")
    case True
    then have *: "x0 = CHR ''_''" "clean CHR ''_'' False t = xs @ y"
      using 1(3) x ct \<open>s \<noteq> []\<close> by (auto simp: clean.simps [of _ b s])
    then have "xs \<noteq> []" using 1(5) x u by auto
    with 1(1) [OF \<open>s \<noteq> []\<close> ct True *(2)] 1(5) x show ?thesis by simp
  next
    case False
    then have *: "x0 = c" "clean CHR ''_'' (slash c) t = xs @ y"
      using 1(3) x ct \<open>s \<noteq> []\<close> by (auto simp: clean.simps [of _ b s])
    show ?thesis
    proof (cases "xs = []")
      case True
      with 1(5) x * have "y = clean CHR ''_'' True t" by simp
      then show ?thesis using clean_not_special by simp
    next
      case False
      with 1(2) [OF \<open>s \<noteq> []\<close> ct \<open>\<not> bad_char c\<close> *(2)] 1(5) x show ?thesis by simp
    qed
  qed
qed

lemma clean_chars: "c \<in> set (clean CHR ''_'' b s) \<Longrightarrow> \<not> bad_char c"
proof (induction "CHR ''_''" b s rule: clean.induct)
  case (1 b s)
  have u: "\<not> bad_char CHR ''_''" by (simp add: bad_char_def byte_def)
  from 1(3) have "s \<noteq> []" by auto
  then obtain d t where ct: "check_entry b 0 CHR ''_'' s = d # t"
    using check_entry_ne by (cases "check_entry b 0 CHR ''_'' s") auto
  show ?case
    using 1(1) [OF \<open>s \<noteq> []\<close> ct] 1(2) [OF \<open>s \<noteq> []\<close> ct] 1(3) u ct \<open>s \<noteq> []\<close>
    by (auto simp: clean.simps [of _ b s] split: if_splits)
qed

lemma length_clean: "length (clean r b s) \<le> length s"
proof (induction r b s rule: clean.induct)
  case (1 r b s)
  show ?case
  proof (cases "s = []")
    case False
    then obtain d t where ct: "check_entry b 0 r s = d # t" using check_entry_ne by (cases "check_entry b 0 r s") auto
    with length_check_entry [of b r s] False have "Suc (length t) \<le> length s" by simp
    with "1.IH"(1) [OF False ct] "1.IH"(2) [OF False ct] show ?thesis
      by (cases "bad_char d") (simp_all add: clean.simps [of r b s] False ct)
  qed simp
qed

text \<open>The components of a path, and the name of a device: the part of a component before a dot or a colon.\<close>

fun components :: "string \<Rightarrow> string list" where
  "components [] = [[]]"
| "components (c # s) =
     (if slash c then [] # components s
      else (case components s of [] \<Rightarrow> [[c]] | p # ps \<Rightarrow> (c # p) # ps))"

definition stem :: "string \<Rightarrow> string" where
  "stem p = map toUpper (takeWhile (\<lambda>c. c \<noteq> CHR ''.'' \<and> c \<noteq> CHR '':'') p)"

definition device :: "string \<Rightarrow> bool" where
  "device p \<longleftrightarrow> stem p \<in> {''AUX'', ''CON'', ''NUL'', ''PRN''} \<or>
     (\<exists>d \<in> set ''123456789''. stem p = ''COM'' @ [d] \<or> stem p = ''LPT'' @ [d])"

definition closed :: "string \<Rightarrow> bool" where
  "closed y \<longleftrightarrow> y = [] \<or> slash (hd y)"

lemma components_split:
  "components s \<noteq> [] \<and> (\<exists>y. s = hd (components s) @ y \<and> closed y) \<and>
     (\<forall>p \<in> set (tl (components s)). \<exists>x y. s = x @ p @ y \<and> x \<noteq> [] \<and> slash (last x) \<and> closed y)"
proof (induction s)
  case Nil
  then show ?case by (simp add: closed_def)
next
  case (Cons c s)
  then obtain q qs where q: "components s = q # qs" by (cases "components s") auto
  with Cons obtain y where y: "s = q @ y" "closed y" by auto
  have rest: "\<exists>x y. c # s = x @ p @ y \<and> x \<noteq> [] \<and> slash (last x) \<and> closed y" if "p \<in> set qs" for p
  proof -
    from Cons q that obtain x z where "s = x @ p @ z" "x \<noteq> []" "slash (last x)" "closed z" by auto
    then have "c # s = (c # x) @ p @ z" "slash (last (c # x))" "closed z" by simp_all
    then show ?thesis by blast
  qed
  show ?case
  proof (cases "slash c")
    case True
    have "\<exists>x y. c # s = x @ q @ y \<and> x \<noteq> [] \<and> slash (last x) \<and> closed y"
      using y True by (intro exI [of _ "[c]"] exI [of _ y]) simp
    with True q rest show ?thesis by (auto simp: closed_def)
  next
    case False
    with q rest y show ?thesis by auto
  qed
qed

lemma hits_prefix: "map toUpper u = p \<Longrightarrow> ends z \<Longrightarrow> hits p False (u @ z)"
  by (induction p arbitrary: u) auto

lemma hits_prefix_number:
  "map toUpper u = p \<Longrightarrow> 49 \<le> byte d \<Longrightarrow> byte d \<le> 57 \<Longrightarrow> ends z \<Longrightarrow> hits p True (u @ d # z)"
  by (induction p arbitrary: u) auto

lemma closed_ends: "closed y \<Longrightarrow> ends y"
  by (auto simp: closed_def ends_def slash_def)

lemma toUpper_digit:
  assumes "toUpper d = e" "e \<in> set ''123456789''"
  shows "49 \<le> byte d \<and> byte d \<le> 57"
proof (cases "97 \<le> byte d \<and> byte d \<le> 122")
  case True
  then have "e = char_of (byte d - 32)" using assms(1) by (simp add: toUpper_def)
  then have "byte e = byte d - 32" using True by (auto simp: byte_def intro!: mod_less)
  moreover have "byte e \<le> 57" using assms(2) by (auto simp: byte_def)
  ultimately show ?thesis using True by arith
next
  case False
  then have "d = e" using assms(1) by (auto simp: toUpper_def)
  with assms(2) show ?thesis by (auto simp: byte_def)
qed

lemma special_component:
  assumes "closed y" "\<not> special (p @ y)"
  shows "p \<noteq> ''..'' \<and> \<not> device p"
proof -
  let ?u = "takeWhile (\<lambda>c. c \<noteq> CHR ''.'' \<and> c \<noteq> CHR '':'') p"
  let ?z = "dropWhile (\<lambda>c. c \<noteq> CHR ''.'' \<and> c \<noteq> CHR '':'') p @ y"
  have z: "ends ?z"
  proof (cases "dropWhile (\<lambda>c. c \<noteq> CHR ''.'' \<and> c \<noteq> CHR '':'') p")
    case Nil
    show ?thesis unfolding Nil using closed_ends [OF assms(1)] by simp
  next
    case (Cons a as)
    then have "\<not> (a \<noteq> CHR ''.'' \<and> a \<noteq> CHR '':'')" 
      using hd_dropWhile [of "\<lambda>c. c \<noteq> CHR ''.'' \<and> c \<noteq> CHR '':''" p] by simp
    with Cons show ?thesis by (auto simp: ends_def)
  qed
  have py: "p @ y = ?u @ ?z" by simp
  have no: "\<not> hits q b (p @ y)" if "(q, b) \<in> set specials" for q b
    using assms(2) that by (auto simp: special_def)
  have dots: "p \<noteq> ''..''"
  proof
    assume "p = ''..''"
    then have "hits ''..'' False (p @ y)"
      using closed_ends [OF assms(1)] by (intro hits_prefix) (simp_all add: toUpper_def byte_def)
    moreover have "(''..'', False) \<in> set specials" by (simp add: specials_def)
    ultimately show False using no by blast
  qed
  have plain: "stem p \<noteq> q" if "(q, False) \<in> set specials" for q
    using no [OF that] hits_prefix [OF _ z] unfolding py stem_def by blast
  have numbered: "stem p \<noteq> q @ [e]" if q: "(q, True) \<in> set specials" and e: "e \<in> set ''123456789''" for q e
  proof
    assume "stem p = q @ [e]"
    then obtain u d where u: "?u = u @ [d]" "map toUpper u = q" "toUpper d = e"
      by (auto simp: stem_def map_eq_append_conv)
    from hits_prefix_number [OF u(2) _ _ z] toUpper_digit [OF u(3) e] have "hits q True (u @ d # ?z)" by blast
    moreover have "u @ d # ?z = p @ y" unfolding py u(1) by simp
    ultimately show False using no [OF q] by simp
  qed
  have "\<not> device p"
    using plain [of "''AUX''"] plain [of "''CON''"] plain [of "''NUL''"] plain [of "''PRN''"]
      numbered [of "''COM''"] numbered [of "''LPT''"] unfolding device_def specials_def by auto
  with dots show ?thesis by simp
qed

text \<open>C40: A file name that \<open>sanitize_filename\<close> returns stays below its directory: it is at most 255 bytes
  long, is not absolute, no component of it is two dots or the name of a device, and it has no control
  character and none of the characters that file systems give a meaning to.\<close>

theorem sanitize_filename_safe:
  fixes data :: string
  defines "name \<equiv> sanitize_filename data CHR ''_''"
  shows "length name \<le> 255 \<and> (\<forall>c \<in> set name. \<not> bad_char c) \<and> (name = [] \<or> \<not> slash (hd name)) \<and>
    (\<forall>p \<in> set (components name). p \<noteq> ''..'' \<and> \<not> device p)"
proof (cases "data = []")
  case True
  then have "name = []" by (simp add: name_def sanitize_filename_def sanitize_loop.simps)
  then show ?thesis by (simp add: device_def stem_def)
next
  case False
  let ?s = "take 255 data" let ?c = "check_entry True 0 CHR ''_'' ?s"
  have ne: "?s \<noteq> []" using False by (cases data) auto
  obtain c t where ct: "?c = c # t"
    and name: "name = (if bad_char c \<or> slash c then CHR ''_'' # clean CHR ''_'' False t
                       else c # clean CHR ''_'' False t)"
    using sanitize_start [OF ne, of "CHR ''_''"] unfolding name_def sanitize_filename_def by metis
  have u: "\<not> bad_char CHR ''_''" "\<not> slash CHR ''_''" by (simp_all add: bad_char_def byte_def slash_def)
  have len: "length name \<le> 255"
  proof -
    have "length name = Suc (length (clean CHR ''_'' False t))" unfolding name by simp
    also have "\<dots> \<le> length ?c" using length_clean [of "CHR ''_''" False t] ct by simp
    also have "\<dots> \<le> length ?s" using length_check_entry [of True "CHR ''_''" ?s] ne by simp
    finally show ?thesis by simp
  qed
  have chars: "\<forall>c \<in> set name. \<not> bad_char c" unfolding name using clean_chars u by auto
  have start: "\<not> slash (hd name)" unfolding name using u by auto
  have first: "\<not> special name"
  proof (cases "bad_char c \<or> slash c")
    case True
    then show ?thesis using name not_special_underscore by simp
  next
    case False
    then have "name = clean CHR ''_'' True ?s" using name ne ct by (simp add: clean_True clean_Cons)
    then show ?thesis using clean_not_special by simp
  qed
  have later: "\<not> special y" if xy: "name = x @ y" "x \<noteq> []" "slash (last x)" for x y
  proof -
    let ?c0 = "if bad_char c \<or> slash c then CHR ''_'' else c"
    have "name = ?c0 # clean CHR ''_'' False t" unfolding name by simp
    moreover have "\<not> slash ?c0" using u by auto
    ultimately have "clean CHR ''_'' False t = tl x @ y \<and> tl x \<noteq> [] \<and> slash (last (tl x))"
      using xy by (cases x; cases "tl x = []") auto
    then show ?thesis using clean_component by blast
  qed
  have "p \<noteq> ''..'' \<and> \<not> device p" if p: "p \<in> set (components name)" for p
  proof -
    obtain q qs where q: "components name = q # qs" using components_split by (cases "components name") auto
    show ?thesis
    proof (cases "p = q")
      case True
      with components_split [of name] q obtain y where "name = p @ y" "closed y" by auto
      with first special_component show ?thesis by metis
    next
      case False
      with p q have "p \<in> set (tl (components name))" by simp
      with components_split [of name] obtain x y
        where "name = x @ p @ y" "x \<noteq> []" "slash (last x)" "closed y" by blast
      with later special_component show ?thesis by blast
    qed
  qed
  with len chars start show ?thesis by blast
qed

theorem sanitize_filename_safe_witness:
  "sanitize_filename ''../CON.txt'' CHR ''_'' = ''_/_.txt'' \<and> components ''_/_.txt'' = [''_'', ''_.txt''] \<and>
     ''_'' \<noteq> ''..'' \<and> \<not> device ''_'' \<and> ''_.txt'' \<noteq> ''..'' \<and> \<not> device ''_.txt''"
proof -
  have "sanitize_filename ''../CON.txt'' CHR ''_'' = ''_/_.txt''" by code_simp
  moreover have "components ''_/_.txt'' = [''_'', ''_.txt'']" by code_simp
  ultimately show ?thesis using sanitize_filename_safe [of "''../CON.txt''"] by simp
qed

end
