(* ===== verification/Routing_Theorems.thy ===== *)
theory Routing_Theorems
  imports Routing_Correct Utility_Theorems
begin

text \<open>
  The properties of the router: a request gets the handler of the first rule that matches its URL, a
  redirection or an error, and a handler gets arguments of the types that its rule names.
\<close>

section \<open>Types of arguments\<close>

fun params_of :: "rule_token list \<Rightarrow> param_type list" where
  "params_of [] = []"
| "params_of (Lit c # ts) = params_of ts"
| "params_of (Par t # ts) = t # params_of ts"

fun type_of_param :: "param_type \<Rightarrow> arg_type" where
  "type_of_param P_INT = T_int64"
| "type_of_param P_UINT = T_uint64"
| "type_of_param P_DOUBLE = T_double"
| "type_of_param P_STRING = T_string"
| "type_of_param P_PATH = T_string"

fun digit_of_param :: "param_type \<Rightarrow> nat" where
  "digit_of_param P_INT = 1"
| "digit_of_param P_UINT = 2"
| "digit_of_param P_DOUBLE = 3"
| "digit_of_param P_STRING = 4"
| "digit_of_param P_PATH = 5"

fun tag_value :: "param_type list \<Rightarrow> nat" where
  "tag_value [] = 0"
| "tag_value (t # ts) = tag_value ts * 6 + digit_of_param t"

lemma digit_of_param_bounds: "0 < digit_of_param t" "digit_of_param t < 6"
  by (cases t; simp)+

lemma tag_value_bound: "tag_value ts < 6 ^ length ts"
proof (induction ts)
  case (Cons t ts)
  have "tag_value ts * 6 + digit_of_param t < (tag_value ts + 1) * 6" using digit_of_param_bounds(2) [of t] by simp
  also have "\<dots> \<le> 6 ^ length ts * 6" using Cons by (intro mult_le_mono1) simp
  finally show ?case by simp
qed simp

lemma tag_value_small: "length ts \<le> 24 \<Longrightarrow> tag_value ts < 2 ^ 64"
proof -
  assume "length ts \<le> 24"
  then have "(6 :: nat) ^ length ts \<le> 6 ^ 24" by (intro power_increasing) simp_all
  also have "\<dots> < 2 ^ 64" by simp
  finally show ?thesis using tag_value_bound [of ts] by simp
qed

lemma arguments_tag_value: "arguments (tag_value ts) = Some (map type_of_param ts)"
proof (induction ts)
  case Nil
  then show ?case by (simp add: arguments.simps)
next
  case (Cons t ts)
  have "tag_value (t # ts) div 6 = tag_value ts" "tag_value (t # ts) mod 6 = digit_of_param t" "tag_value (t # ts) \<noteq> 0"
    using digit_of_param_bounds [of t] by simp_all
  moreover have "single_tag_to_type (digit_of_param t) = Some (type_of_param t)" by (cases t) simp_all
  ultimately show ?case using Cons
    by (subst arguments.simps) (simp del: single_tag_to_type.simps tag_value.simps)
qed

lemma is_equ_n_iff:
  "is_equ_n a i b j n \<longleftrightarrow> i + n \<le> length a \<and> j + n \<le> length b \<and> take n (drop i a) = take n (drop j b)"
proof (induction n arbitrary: i j)
  case 0
  then show ?case by (simp add: is_equ_n.simps [of a i b j 0])
next
  case (Suc n)
  have "take (Suc n) (drop i a) = a ! i # take n (drop (Suc i) a)" if "i < length a"
    using that by (metis Cons_nth_drop_Suc take_Suc_Cons)
  moreover have "take (Suc n) (drop j b) = b ! j # take n (drop (Suc j) b)" if "j < length b"
    using that by (metis Cons_nth_drop_Suc take_Suc_Cons)
  ultimately show ?case by (auto simp: is_equ_n.simps [of a i b j "Suc n"] Suc.IH)
qed

lemma tag_text:
  "n = length name \<Longrightarrow> name \<noteq> [] \<Longrightarrow> is_equ_n s i name 0 n \<longleftrightarrow> take (length name) (drop i s) = name"
proof -
  assume "n = length name" "name \<noteq> []"
  moreover have "i + length name \<le> length s" if "take (length name) (drop i s) = name" "name \<noteq> []"
  proof -
    have "length name \<le> length (drop i s)" using that(1) by (metis length_take min.cobounded1)
    with that(2) show ?thesis by (cases "i \<le> length s") auto
  qed
  ultimately show ?thesis by (auto simp: is_equ_n_iff)
qed

lemma trait_digit: "trait_at s i = Some (t, name) \<Longrightarrow> tag_digit s i = Some (digit_of_param t)"
  unfolding trait_at_def paramTraits_def tag_digit_def is_int_def is_uint_def is_float_def is_str_def is_path_def
  by (auto simp: tag_text split: if_splits)

lemma trait_name:
  assumes "trait_at s i = Some (t, name)"
  shows "take (length name) (drop i s) = name \<and> (\<exists>xs. name = xs @ ''>'' \<and> CHR ''>'' \<notin> set xs \<and> xs \<noteq> [])"
proof -
  have "(t, name) \<in> set paramTraits" "take (length name) (drop i s) = name"
    using assms nth_mem by (fastforce simp: trait_at_def find_Some_iff)+
  then show ?thesis by (auto simp: paramTraits_def)
qed

lemma find_closing_tag_prefix:
  "take (length (xs @ ''>'')) (drop p s) = xs @ ''>'' \<Longrightarrow> CHR ''>'' \<notin> set xs \<Longrightarrow> find_closing_tag s p = Ret (p + length xs)"
proof (induction xs arbitrary: p)
  case Nil
  then have "p < length s" "s ! p = CHR ''>''"
    by (cases "p < length s"; simp add: take_Suc_conv_app_nth Cons_nth_drop_Suc [symmetric])+
  then show ?case by (simp add: find_closing_tag.simps)
next
  case (Cons x xs)
  have p: "p < length s" using Cons.prems(1) by (cases "p < length s") simp_all
  then have "drop p s = s ! p # drop (Suc p) s" by (simp add: Cons_nth_drop_Suc)
  with Cons.prems(1) have "s ! p = x" "take (length (xs @ ''>'')) (drop (p + 1) s) = xs @ ''>''" by simp_all
  moreover from this Cons.prems(2) have "s ! p \<noteq> CHR ''>''" by auto
  ultimately show ?case using Cons.IH [of "p + 1"] Cons.prems(2) p by (simp add: find_closing_tag.simps [of s p])
qed

lemma get_parameter_tag_pattern:
  "pattern_from s p = Some ts \<Longrightarrow> length (params_of ts) \<le> 24 \<Longrightarrow> get_parameter_tag s p = Ret (tag_value (params_of ts))"
proof (induction s p arbitrary: ts rule: pattern_from.induct)
  case (1 s p)
  show ?case
  proof (cases "p < length s")
    case False
    with 1 show ?thesis by (simp add: pattern_from.simps [of s p] get_parameter_tag.simps [of s p])
  next
    case inside: True
    show ?thesis
    proof (cases "s ! p = CHR ''<''")
      case False
      with inside 1(3) obtain us where us: "pattern_from s (p + 1) = Some us" "ts = Lit (s ! p) # us"
        by (auto simp: pattern_from.simps [of s p])
      with 1(2) [OF inside False us(1)] 1(4) inside False show ?thesis
        by (simp add: get_parameter_tag.simps [of s p])
    next
      case True
      with inside 1(3) obtain t name us where t: "trait_at s p = Some (t, name)"
        "pattern_from s (p + length name) = Some us" "ts = Par t # us"
        by (auto simp: pattern_from.simps [of s p] split: option.splits)
      from trait_name [OF t(1)] obtain xs where xs: "name = xs @ ''>''" "CHR ''>'' \<notin> set xs"
        "take (length name) (drop p s) = name" "xs \<noteq> []" by blast
      have closing: "find_closing_tag s p = Ret (p + length xs)"
        using find_closing_tag_prefix [of xs p s] xs by simp
      from find_closing_tag_bounds [OF closing] have at: "p + length xs < length s" "s ! (p + length xs) = CHR ''>''" by simp_all
      have rest: "get_parameter_tag s (p + length xs) = Ret (tag_value (params_of us))"
        using 1(1) [OF inside True t(1) refl t(2)] 1(4) t(3) at xs(1)
        by (simp add: get_parameter_tag.simps [of s "p + length xs"])
      have "tag_value (params_of ts) mod 2 ^ 64 = tag_value (params_of ts)"
        using tag_value_small [OF 1(4)] by simp
      then show ?thesis
        using inside True trait_digit [OF t(1)] closing rest t(3)
        by (simp add: get_parameter_tag.simps [of s p])
    qed
  qed
qed

lemma tagged_types_pattern:
  assumes "pattern rule = Some ts" "length (params_of ts) \<le> 24"
  shows "tagged_types rule = Ret (map type_of_param (params_of ts))"
  using get_parameter_tag_pattern [of rule 0 ts] assms
  by (simp add: tagged_types_def pattern_def arguments_tag_value)

text \<open>A match appends parameters, and the positions that the handler's types ask for are there.\<close>

definition extends :: "'d routing_params \<Rightarrow> 'd routing_params \<Rightarrow> bool" where
  "extends qs ps \<longleftrightarrow>
     (\<exists>a. int_params qs = int_params ps @ a) \<and> (\<exists>b. uint_params qs = uint_params ps @ b) \<and>
     (\<exists>c. double_params qs = double_params ps @ c) \<and> (\<exists>d. string_params qs = string_params ps @ d)"

definition pairs_from :: "'d routing_params \<Rightarrow> param_type list \<Rightarrow> (arg_type \<times> nat) list" where
  "pairs_from ps ts =
     call_pairs (length (int_params ps)) (length (uint_params ps)) (length (double_params ps)) (length (string_params ps))
       (map type_of_param ts)"

lemma take_param_pushes:
  assumes "take_param strtod t s ps = Some (n, qs)"
  shows "pairs_from ps (t # ts) = hd (pairs_from ps [t]) # pairs_from qs ts \<and> extends qs ps \<and>
    (\<forall>rs. extends rs qs \<longrightarrow> (\<exists>a. get_arg rs (hd (pairs_from ps [t])) = Ret a \<and> arg_type_of a = type_of_param t))"
  using assms
  by (cases t)
    (auto simp: pairs_from_def extends_def get_int_def get_uint_def get_double_def get_string_def get_index_def Let_def
      split: list.splits if_splits prod.splits)

lemma match_args:
  "match_url strtod ts s ps = Some qs \<Longrightarrow> extends qs ps \<and>
     (\<exists>args. get_args qs (pairs_from ps (params_of ts)) = Ret args \<and>
        map arg_type_of args = map type_of_param (params_of ts))"
proof (induction ts arbitrary: s ps)
  case Nil
  then show ?case by (auto simp: extends_def pairs_from_def split: if_splits)
next
  case (Cons tok ts)
  show ?case
  proof (cases tok)
    case (Lit c)
    with Cons show ?thesis by (auto split: list.splits if_splits)
  next
    case (Par t)
    with Cons.prems obtain n ps' where step: "take_param strtod t s ps = Some (n, ps')"
      "match_url strtod ts (drop n s) ps' = Some qs" by (auto split: option.splits)
    from Cons.IH [OF step(2)] obtain args where args: "extends qs ps'"
      "get_args qs (pairs_from ps' (params_of ts)) = Ret args" "map arg_type_of args = map type_of_param (params_of ts)"
      by blast
    from take_param_pushes [OF step(1), of "params_of ts"] args(1) obtain a where
      a: "pairs_from ps (t # params_of ts) = hd (pairs_from ps [t]) # pairs_from ps' (params_of ts)"
        "extends ps' ps" "get_arg qs (hd (pairs_from ps [t])) = Ret a" "arg_type_of a = type_of_param t" by blast
    have "extends qs ps" using args(1) a(2) by (auto simp: extends_def)
    moreover have "get_args qs (pairs_from ps (t # params_of ts)) = Ret (a # args)"
      unfolding a(1) using a(3) args(2) by simp
    ultimately show ?thesis using Par a(4) args(3) by simp
  qed
qed

lemma rule_match_args:
  assumes "rule_match strtod rule u = Some ps" "pattern rule = Some ts" "length (params_of ts) \<le> 24"
  obtains types args where "tagged_types rule = Ret types" "get_args ps (call_pairs 0 0 0 0 types) = Ret args"
    "map arg_type_of args = types"
proof -
  have "match_url strtod ts u no_params = Some ps" using assms(1,2) by (simp add: rule_match_def)
  from match_args [OF this] obtain args where
    "get_args ps (call_pairs 0 0 0 0 (map type_of_param (params_of ts))) = Ret args"
    "map arg_type_of args = map type_of_param (params_of ts)"
    by (auto simp: pairs_from_def no_params_def)
  with tagged_types_pattern [OF assms(2,3)] that show ?thesis by blast
qed

section \<open>Dispatch\<close>

text \<open>The router after \<open>validate\<close>, and what it finds.\<close>

definition serves :: "'d to_double \<Rightarrow> 's catchall option \<Rightarrow> ('s, 'd) base_rule list \<Rightarrow> ('s, 'd) router \<Rightarrow> bool" where
  "serves strtod c rs g \<longleftrightarrow>
     to_double_ok strtod \<and> (\<forall>r \<in> set rs. rooted (r_rule r)) \<and> length rs < 65534 \<and>
     router_validate (plain_router c rs) = Ret g"

lemma serves_parts:
  assumes "serves strtod c rs g"
  shows "to_double_ok strtod" "validated (per_methods g m) (served m rs)" "length (served m rs) < 65534"
    "catchall_rule g = c" "blueprints g = []" "\<forall>r \<in> set rs. rule_handler r \<noteq> None"
proof -
  have len: "length rs < 65534" and root: "\<forall>r \<in> set rs. rooted (r_rule r)" and ret: "router_validate (plain_router c rs) = Ret g"
    and "to_double_ok strtod" using assms by (simp_all add: serves_def)
  then show "to_double_ok strtod" "length (served m rs) < 65534"
    by (auto intro: le_less_trans [OF length_served])
  note all = router_validate_plain [OF root len, of c]
  have acc: "acceptable_rules [] rs" using all ret by (auto split: if_splits)
  with all ret have g: "frame (plain_router c rs) g" "\<forall>m. validated (per_methods g m) (served m rs)" by auto
  from g(2) show "validated (per_methods g m) (served m rs)" by simp
  from g(1) show "catchall_rule g = c" "blueprints g = []"
    by (cases g; simp add: frame_def plain_router_def new_router_def)+
  have "\<forall>r \<in> set rs. rule_handler r \<noteq> None" if "acceptable_rules before rs" for before
    using that by (induction rs arbitrary: before) auto
  with acc show "\<forall>r \<in> set rs. rule_handler r \<noteq> None" by blast
qed

lemma served_sub: "set (served m rs) \<subseteq> set rs"
  by (auto simp: served_def)

lemma find_rule_spec:
  assumes "serves strtod c rs g"
  shows "case spec_find strtod (served m rs) u of
      No_rule \<Rightarrow> fst (find_rule strtod g m u) = 0
    | Redirect_slash \<Rightarrow> fst (find_rule strtod g m u) = RULE_SPECIAL_REDIRECT_SLASH
    | Target r ps \<Rightarrow> \<exists>k < length (served m rs). served m rs ! k = r \<and> rule_match strtod (r_rule r) u = Some ps \<and>
        find_rule strtod g m u = (of_nat (k + 2), [], ps)"
  unfolding find_rule_def by (rule find_url_spec) (rule serves_parts [OF assms])+

lemma find_rule_bps: "serves strtod c rs g \<Longrightarrow> fst (snd (find_rule strtod g m u)) = []"
  using find_url_no_blueprints [of "trie (per_methods g m)" strtod u] serves_parts(2) [of strtod c rs g m]
  by (simp add: find_rule_def validated_def)

lemma found_by_spec:
  assumes "serves strtod c rs g"
  shows "found_by strtod g u = [m \<leftarrow> all_methods. spec_find strtod (served m rs) u \<noteq> No_rule]"
proof -
  have "fst (find_rule strtod g m u) \<noteq> 0 \<longleftrightarrow> spec_find strtod (served m rs) u \<noteq> No_rule" for m
    using find_rule_spec [OF assms, of m u] serves_parts(3) [OF assms, of m]
    by (cases "spec_find strtod (served m rs) u")
      (auto simp: RULE_SPECIAL_REDIRECT_SLASH_def dest: small_index(1) [OF less_trans] simp del: of_nat_add)
  then show ?thesis by (simp add: found_by_def)
qed

text \<open>What a request without a rule gets: the code alone, or the catch-all rule.\<close>

definition spec_error :: "'s catchall option \<Rightarrow> int \<Rightarrow> crow_request \<Rightarrow> response \<times> 's \<Rightarrow> 's reply" where
  "spec_error c error_code req = (\<lambda>(res, s).
     case c of
       None \<Rightarrow> (Ret True, res\<lparr>code := error_code\<rparr>, s)
     | Some h \<Rightarrow> (case h req (res\<lparr>code := error_code\<rparr>, s) of (Ret b, y) \<Rightarrow> (Ret True, y) | r \<Rightarrow> r))"

lemma error_reply_plain:
  "blueprints g = [] \<Longrightarrow> error_reply g error_code [] req x = spec_error (catchall_rule g) error_code req x"
  by (cases x)
    (auto simp: error_reply_def get_error_def spec_error_def Let_def get_found_bp.simps
      split: option.splits prod.splits outcome.splits)

text \<open>What a request gets, for the rules \<open>rs\<close> and the catch-all rule \<open>c\<close>.\<close>

definition spec_dispatch ::
    "'d to_double \<Rightarrow> 's catchall option \<Rightarrow> ('s, 'd) base_rule list \<Rightarrow> http_method \<Rightarrow> crow_request
       \<Rightarrow> response \<times> 's \<Rightarrow> 's reply" where
  "spec_dispatch strtod c rs m req x =
     (case spec_find strtod (served m rs) (url req) of
        Target r ps \<Rightarrow> guarded (the (rule_handler r) req ps) x
      | Redirect_slash \<Rightarrow> redirect_slash req x
      | No_rule \<Rightarrow>
          spec_error c (if list_ex (\<lambda>m'. spec_find strtod (served m' rs) (url req) \<noteq> No_rule) all_methods then 405 else 404)
            req x)"

definition spec_options ::
    "'d to_double \<Rightarrow> ('s, 'd) base_rule list \<Rightarrow> crow_request \<Rightarrow> response \<times> 's \<Rightarrow> 's reply" where
  "spec_options strtod rs req = (\<lambda>(res, s).
     case [m \<leftarrow> all_methods. spec_find strtod (served m rs) (url req) \<noteq> No_rule] of
       [] \<Rightarrow> answer 404 (res, s)
     | m # ms \<Rightarrow> (Ret True, set_header ''Allow'' (allow_header (m # ms)) (assign (response_code 204) res), s))"

lemma dispatch_spec:
  assumes "serves strtod c rs g"
  shows "dispatch strtod g m req x = spec_dispatch strtod c rs m req x"
proof -
  note found = find_rule_spec [OF assms, of m "url req"]
  note parts = serves_parts [OF assms]
  have rules: "rules (per_methods g m) = None # None # map Some (served m rs)"
    using parts(2) by (simp add: validated_def)
  obtain i bps ps where f: "find_rule strtod g m (url req) = (i, bps, ps)" by (cases "find_rule strtod g m (url req)")
  have bps: "bps = []" using find_rule_bps [OF assms, of m "url req"] f by simp
  have any: "found_by strtod g (url req) \<noteq> [] \<longleftrightarrow>
      list_ex (\<lambda>m'. spec_find strtod (served m' rs) (url req) \<noteq> No_rule) all_methods"
    by (auto simp: found_by_spec [OF assms] filter_empty_conv list_ex_iff)
  show ?thesis
  proof (cases "spec_find strtod (served m rs) (url req)")
    case No_rule
    with found f have "i = 0" by simp
    with f bps No_rule any show ?thesis
      by (simp add: dispatch_def spec_dispatch_def error_reply_plain [OF parts(5)] parts(4))
  next
    case Redirect_slash
    with found f have "i = RULE_SPECIAL_REDIRECT_SLASH" by simp
    moreover have "unat RULE_SPECIAL_REDIRECT_SLASH = 1" "RULE_SPECIAL_REDIRECT_SLASH \<noteq> 0"
      by (simp_all add: RULE_SPECIAL_REDIRECT_SLASH_def)
    ultimately show ?thesis using f Redirect_slash rules by (simp add: dispatch_def spec_dispatch_def)
  next
    case (Target r qs)
    with found f obtain k where k: "k < length (served m rs)" "served m rs ! k = r" "i = of_nat (k + 2)" "ps = qs" by auto
    have i: "i \<noteq> 0" "unat i = k + 2" using small_index [of k] k(1,3) parts(3) [of m] by simp_all
    then have "i \<noteq> RULE_SPECIAL_REDIRECT_SLASH" by (auto simp: RULE_SPECIAL_REDIRECT_SLASH_def)
    moreover have "rules (per_methods g m) ! unat i = Some r" using rules i(2) k(1,2) by simp
    moreover obtain h where "rule_handler r = Some h"
      using parts(6) served_sub [of m rs] k(1,2) nth_mem [OF k(1)] by blast
    ultimately show ?thesis using f Target i k rules by (simp add: dispatch_def spec_dispatch_def)
  qed
qed



end
