(* ===== verification/Web_Service.thy ===== *)
theory Web_Service
  imports Program Routing_Theorems
begin

text \<open>
  The program behind its router: the routes that \<open>HttpServer::setup_routing\<close> adds to the application
  (\<open>app.h\<close>), the route for static files that the application adds itself, and which call of the program
  a request makes.
\<close>

section \<open>The application\<close>

text \<open>\<open>CROW_ROUTE\<close> with and without \<open>methods\<close>.\<close>

definition app_route ::
    "string \<Rightarrow> ('d arg list \<Rightarrow> crow_request \<Rightarrow> response \<times> 's \<Rightarrow> 's reply) \<Rightarrow> ('s, 'd) router \<Rightarrow> ('s, 'd) router outcome" where
  "app_route rule f g = bind_outcome (set_tagged_handler f (new_rule rule)) (\<lambda>r. Ret (add_rule r g))"

definition app_route_method ::
    "string \<Rightarrow> http_method \<Rightarrow> ('d arg list \<Rightarrow> crow_request \<Rightarrow> response \<times> 's \<Rightarrow> 's reply)
       \<Rightarrow> ('s, 'd) router \<Rightarrow> ('s, 'd) router outcome" where
  "app_route_method rule m f g =
     bind_outcome (set_methods m [] (new_rule rule))
       (\<lambda>r. bind_outcome (set_tagged_handler f r) (\<lambda>r'. Ret (add_rule r' g)))"

text \<open>
  The handler of static files. When \<open>stat\<close> fails, \<open>set_static_file_info_unsafe\<close> ends the response itself,
  and the \<open>end\<close> behind it does nothing; both are the one call of \<open>end\<close> that is reported here.
\<close>

definition static_response :: "(string \<Rightarrow> nat option) \<Rightarrow> string \<Rightarrow> response \<Rightarrow> response" where
  "static_response stat filename res =
     (case stat (c_str filename) of
        Some n \<Rightarrow> set_static_file_info_unsafe stat filename res
      | None \<Rightarrow> res\<lparr>file_info := \<lparr>sf_path = [], sf_size = 0, statResult = -1\<rparr>, code := 404\<rparr>)"

lemma static_response_ends: "stat (c_str filename) = None \<Longrightarrow>
    set_static_file_info_unsafe stat filename res = end_response (static_response stat filename res)"
  by (simp add: set_static_file_info_unsafe_def static_response_def)

definition static_path :: "string \<Rightarrow> string" where
  "static_path file_path_partial = ''static/'' @ sanitize_filename file_path_partial CHR ''_''"

definition static_handler ::
    "(string \<Rightarrow> nat option) \<Rightarrow> 'd arg list \<Rightarrow> crow_request \<Rightarrow> response \<times> engine \<Rightarrow> engine reply" where
  "static_handler stat args req = (\<lambda>(res, e).
     case args of
       [String_arg p] \<Rightarrow> (Ret True, static_response stat (static_path p) res, e)
     | _ \<Rightarrow> (UB, res, e))"

definition app_validate ::
    "(string \<Rightarrow> nat option) \<Rightarrow> (engine, 'd) router \<Rightarrow> (engine, 'd) router outcome" where
  "app_validate stat g = bind_outcome (app_route ''/static/<path>'' (static_handler stat) g) router_validate"

section \<open>The routes of the program\<close>

text \<open>A handler with no argument and one with the name of a record.\<close>

definition plain_handler :: "(engine \<Rightarrow> response outcome \<times> engine) \<Rightarrow> 'd arg list \<Rightarrow> crow_request \<Rightarrow> response \<times> engine \<Rightarrow> engine reply" where
  "plain_handler f args req = returning f"

definition name_handler ::
    "(crow_request \<Rightarrow> string \<Rightarrow> engine \<Rightarrow> response outcome \<times> engine) \<Rightarrow> 'd arg list \<Rightarrow> crow_request
       \<Rightarrow> response \<times> engine \<Rightarrow> engine reply" where
  "name_handler f args req = (\<lambda>x. case args of [String_arg nameRaw] \<Rightarrow> returning (f req nameRaw) x | _ \<Rightarrow> (UB, x))"

definition setup_routing ::
    "platform \<Rightarrow> tid \<Rightarrow> rapidjson \<Rightarrow> faults \<Rightarrow> (engine, 'd) router \<Rightarrow> (engine, 'd) router outcome" where
  "setup_routing P t J F g =
     bind_outcome (app_route_method ''/api/records/<string>'' M_Get (name_handler (\<lambda>req. get_record P J F)) g)
       (\<lambda>g1. bind_outcome (app_route_method ''/api/records/<string>'' M_Post
            (name_handler (\<lambda>req nameRaw. post_record P t J F nameRaw (req_body req))) g1)
         (\<lambda>g2. bind_outcome (app_route ''/api/records/'' (plain_handler (\<lambda>e. (list_records, e))) g2)
           (\<lambda>g3. bind_outcome (app_route ''/api/statistics/reads'' (plain_handler (read_statistics J F)) g3)
              (app_route ''/'' (plain_handler (\<lambda>e. (root_page, e)))))))"

definition web_app ::
    "platform \<Rightarrow> tid \<Rightarrow> rapidjson \<Rightarrow> faults \<Rightarrow> (string \<Rightarrow> nat option) \<Rightarrow> (engine, 'd) router outcome" where
  "web_app P t J F stat = bind_outcome (setup_routing P t J F new_router) (app_validate stat)"

section \<open>The calls of a request\<close>

datatype web_target = Web_call call | Web_static string | Web_redirect | Web_error int

definition record_url :: "string \<Rightarrow> bool" where
  "record_url u \<longleftrightarrow> take 13 u = ''/api/records/'' \<and> drop 13 u \<noteq> [] \<and> CHR ''/'' \<notin> set (drop 13 u)"

definition web_get :: "string \<Rightarrow> web_target option" where
  "web_get u =
     (if record_url u then Some (Web_call (Get_record (drop 13 u)))
      else if u = ''/api/records'' then Some Web_redirect
      else if u = ''/api/records/'' then Some (Web_call List_records)
      else if u = ''/api/statistics/reads'' then Some (Web_call Read_statistics)
      else if u = ''/'' then Some (Web_call Root_page)
      else if take 8 u = ''/static/'' \<and> drop 8 u \<noteq> [] then Some (Web_static (drop 8 u))
      else None)"

definition web_post :: "string \<Rightarrow> string \<Rightarrow> web_target option" where
  "web_post u b = (if record_url u then Some (Web_call (Post_record (drop 13 u) b)) else None)"

definition web_target :: "http_method \<Rightarrow> string \<Rightarrow> string \<Rightarrow> web_target" where
  "web_target m u b =
     (case (if m = M_Get then web_get u else if m = M_Post then web_post u b else None) of
        Some w \<Rightarrow> w
      | None \<Rightarrow> Web_error (if web_get u \<noteq> None then 405 else 404))"

fun web_reply ::
    "platform \<Rightarrow> tid \<Rightarrow> rapidjson \<Rightarrow> faults \<Rightarrow> (string \<Rightarrow> nat option) \<Rightarrow> crow_request \<Rightarrow> web_target
       \<Rightarrow> response \<times> engine \<Rightarrow> engine reply" where
  "web_reply P t J F stat req (Web_call c) x = guarded (returning (run_call P t J F c)) x"
| "web_reply P t J F stat req (Web_static p) x = (Ret True, static_response stat (static_path p) (fst x), snd x)"
| "web_reply P t J F stat req Web_redirect x = redirect_slash req x"
| "web_reply P t J F stat req (Web_error c) x = (Ret True, (fst x)\<lparr>code := c\<rparr>, snd x)"

section \<open>The rules of the program\<close>

definition tagged_rule ::
    "string \<Rightarrow> u32 \<Rightarrow> arg_type list \<Rightarrow> ('d arg list \<Rightarrow> crow_request \<Rightarrow> response \<times> engine \<Rightarrow> engine reply)
       \<Rightarrow> (engine, 'd) base_rule" where
  "tagged_rule r ms types f = \<lparr>r_rule = r, r_name = [], r_methods = ms, rule_handler = Some (call_handler types f)\<rparr>"

definition web_rules ::
    "platform \<Rightarrow> tid \<Rightarrow> rapidjson \<Rightarrow> faults \<Rightarrow> (string \<Rightarrow> nat option) \<Rightarrow> (engine, 'd) base_rule list" where
  "web_rules P t J F stat =
     [tagged_rule ''/api/records/<string>'' 2 [T_string] (name_handler (\<lambda>req. get_record P J F)),
      tagged_rule ''/api/records/<string>'' 8 [T_string]
        (name_handler (\<lambda>req nameRaw. post_record P t J F nameRaw (req_body req))),
      tagged_rule ''/api/records/'' 2 [] (plain_handler (\<lambda>e. (list_records, e))),
      tagged_rule ''/api/statistics/reads'' 2 [] (plain_handler (read_statistics J F)),
      tagged_rule ''/'' 2 [] (plain_handler (\<lambda>e. (root_page, e))),
      tagged_rule ''/static/<path>'' 2 [T_string] (static_handler stat)]"

lemma web_shifts: "method_shift M_Get = Ret 2" "method_shift M_Post = Ret 8"
  by code_simp+

lemma web_patterns:
  "pattern ''/api/records/<string>'' = Some (map Lit ''/api/records/'' @ [Par P_STRING])"
  "pattern ''/api/records/'' = Some (map Lit ''/api/records/'')"
  "pattern ''/api/records'' = Some (map Lit ''/api/records'')"
  "pattern ''/api/statistics/reads'' = Some (map Lit ''/api/statistics/reads'')"
  "pattern ''/'' = Some (map Lit ''/'')"
  "pattern ''/static/<path>'' = Some (map Lit ''/static/'' @ [Par P_PATH])"
  by code_simp+

lemma params_of_literal: "params_of (map Lit k @ ts) = params_of ts"
  by (induction k) simp_all

lemma web_tags:
  "tagged_types ''/api/records/<string>'' = Ret [T_string]" "tagged_types ''/api/records/'' = Ret []"
  "tagged_types ''/api/statistics/reads'' = Ret []" "tagged_types ''/'' = Ret []"
  "tagged_types ''/static/<path>'' = Ret [T_string]"
  using web_patterns [THEN tagged_types_pattern] params_of_literal [of _ "[]"]
  by (simp_all only: params_of_literal append_Nil2 params_of.simps list.map type_of_param.simps list.size) simp_all

lemma foreach_methods: "foreach_from 2 1 all_methods = [M_Get]" "foreach_from 8 1 all_methods = [M_Post]"
  by code_simp+

lemma web_app_router:
  "web_app P t J F stat = router_validate (plain_router None (web_rules P t J F stat))"
  by (simp add: web_app_def setup_routing_def app_route_method_def app_route_def app_validate_def
      set_tagged_handler_def new_rule_def web_tags web_shifts add_rule_def plain_router_def web_rules_def
      tagged_rule_def new_router_def)

lemma web_rules_served:
  "served M_Get (web_rules P t J F stat) =
     [tagged_rule ''/api/records/<string>'' 2 [T_string] (name_handler (\<lambda>req. get_record P J F)),
      tagged_rule ''/api/records/'' 2 [] (plain_handler (\<lambda>e. (list_records, e))),
      tagged_rule ''/api/statistics/reads'' 2 [] (plain_handler (read_statistics J F)),
      tagged_rule ''/'' 2 [] (plain_handler (\<lambda>e. (root_page, e))),
      tagged_rule ''/static/<path>'' 2 [T_string] (static_handler stat)]"
  "served M_Post (web_rules P t J F stat) =
     [tagged_rule ''/api/records/<string>'' 8 [T_string]
        (name_handler (\<lambda>req nameRaw. post_record P t J F nameRaw (req_body req)))]"
  "m \<noteq> M_Get \<Longrightarrow> m \<noteq> M_Post \<Longrightarrow> served m (web_rules P t J F stat) = []"
  by (simp_all add: served_def web_rules_def tagged_rule_def foreach_method_def foreach_methods)

lemma r_rule_tagged [simp]: "r_rule (tagged_rule r ms types f) = r"
  by (simp add: tagged_rule_def)

lemma web_slash_rules:
  "\<not> slash_rule ''/api/records/<string>''" "slash_rule ''/api/records/''" "\<not> slash_rule ''/api/statistics/reads''"
  "\<not> slash_rule ''/''" "\<not> slash_rule ''/static/<path>''"
  by (simp_all add: slash_rule_def)

lemma web_rules_accepted: "acceptable_rules [] (web_rules P t J F stat)"
  by (simp add: web_rules_def tagged_rule_def foreach_method_def foreach_methods acceptable_code served_def
      entry_patterns_def option_list_def web_patterns web_slash_rules Let_def)

lemma web_rules_rooted: "\<forall>r \<in> set (web_rules P t J F stat). rooted (r_rule r)" "length (web_rules P t J F stat) < 65534"
  by (auto simp: web_rules_def rooted_def)

lemma web_app_serves:
  assumes "to_double_ok strtod" "web_app P t J F stat = Ret g"
  shows "serves strtod None (web_rules P t J F stat) g"
  using assms web_rules_rooted [of P t J F stat] unfolding serves_def web_app_router by simp

lemma web_app_ok: "\<exists>g :: (engine, 'd) router. web_app P t J F stat = Ret g"
proof -
  note all = router_validate_plain [where c = None, OF web_rules_rooted(1,2) [of P t J F stat]]
  show ?thesis using all [unfolded if_P [OF web_rules_accepted]] unfolding web_app_router by blast
qed

text \<open>The patterns of the program on a URL.\<close>

lemma match_exact: "match_url strtod (map Lit k) u ps = (if u = k then Some ps else None)"
  using match_literal [of strtod k "[]" u ps] by (auto simp: take_all_iff split: if_splits)

lemma match_name:
  "match_url strtod (map Lit k @ [Par P_STRING]) u ps =
     (if take (length k) u = k \<and> drop (length k) u \<noteq> [] \<and> CHR ''/'' \<notin> set (drop (length k) u)
      then Some (ps\<lparr>string_params := string_params ps @ [drop (length k) u]\<rparr>) else None)"
proof -
  have step: "match_url strtod [Par P_STRING] t ps =
      (if t \<noteq> [] \<and> CHR ''/'' \<notin> set t then Some (ps\<lparr>string_params := string_params ps @ [t]\<rparr>) else None)" for t
  proof (cases "CHR ''/'' \<in> set t")
    case True
    then have "dropWhile (\<lambda>c. c \<noteq> CHR ''/'') t \<noteq> []" by simp
    then have "drop (length (takeWhile (\<lambda>c. c \<noteq> CHR ''/'') t)) t \<noteq> []" by (simp add: dropWhile_eq_drop)
    with True show ?thesis by (simp add: Let_def)
  next
    case False
    then have tw: "takeWhile (\<lambda>c. c \<noteq> CHR ''/'') t = t" by (simp add: takeWhile_eq_all_conv) blast
    show ?thesis unfolding match_url.simps take_param.simps Let_def tw using False by simp
  qed
  show ?thesis unfolding match_literal step by simp
qed

lemma match_path:
  "match_url strtod (map Lit k @ [Par P_PATH]) u ps =
     (if take (length k) u = k \<and> drop (length k) u \<noteq> []
      then Some (ps\<lparr>string_params := string_params ps @ [drop (length k) u]\<rparr>) else None)"
  by (simp add: match_literal)

lemma web_matches:
  "rule_match strtod ''/api/records/<string>'' u =
     (if record_url u then Some (no_params\<lparr>string_params := [drop 13 u]\<rparr>) else None)"
  "rule_match strtod ''/api/records/'' u = (if u = ''/api/records/'' then Some no_params else None)"
  "rule_match strtod ''/api/records'' u = (if u = ''/api/records'' then Some no_params else None)"
  "rule_match strtod ''/api/statistics/reads'' u = (if u = ''/api/statistics/reads'' then Some no_params else None)"
  "rule_match strtod ''/'' u = (if u = ''/'' then Some no_params else None)"
  "rule_match strtod ''/static/<path>'' u =
     (if take 8 u = ''/static/'' \<and> drop 8 u \<noteq> [] then Some (no_params\<lparr>string_params := [drop 8 u]\<rparr>) else None)"
proof -
  have l: "length ''/api/records/'' = 13" "length ''/static/'' = 8" by simp_all
  show "rule_match strtod ''/api/records/<string>'' u =
      (if record_url u then Some (no_params\<lparr>string_params := [drop 13 u]\<rparr>) else None)"
    unfolding rule_match_def web_patterns option.case match_name l record_url_def by (simp add: no_params_def)
  show "rule_match strtod ''/static/<path>'' u =
      (if take 8 u = ''/static/'' \<and> drop 8 u \<noteq> [] then Some (no_params\<lparr>string_params := [drop 8 u]\<rparr>) else None)"
    unfolding rule_match_def web_patterns option.case match_path l by (simp add: no_params_def)
qed (simp_all only: rule_match_def web_patterns option.case match_exact)

lemma web_redirects:
  "redirects strtod (served m (web_rules P t J F stat)) u \<longleftrightarrow> m = M_Get \<and> u = ''/api/records''"
proof -
  have b: "butlast ''/api/records/'' = ''/api/records''" by simp
  consider "m = M_Get" | "m = M_Post" | "m \<noteq> M_Get" "m \<noteq> M_Post" by blast
  then show ?thesis
    by cases (simp_all only: redirects_def web_rules_served list.set bex_simps r_rule_tagged web_slash_rules b web_matches
        if_distrib [of "\<lambda>x. x \<noteq> None"] option.distinct http_method.distinct simp_thms if_True if_False not_False_eq_True
        not_None_eq HOL.if_bool_eq_conj, auto)
qed

lemma call_handlers:
  "call_handler [T_string] (name_handler f) req (no_params\<lparr>string_params := [k]\<rparr>) x = returning (f req k) x"
  "call_handler [] (plain_handler h) req ps x = returning h x"
  "call_handler [T_string] (static_handler stat) req (no_params\<lparr>string_params := [k]\<rparr>) (res, e) =
     (Ret True, static_response stat (static_path k) res, e)"
  by (cases x; simp add: call_handler_def get_string_def get_index_def name_handler_def plain_handler_def static_handler_def)+

lemma run_call_functions:
  "run_call P t J F (Get_record k) = get_record P J F k" "run_call P t J F (Post_record k b) = post_record P t J F k b"
  "run_call P t J F List_records = (\<lambda>e. (list_records, e))" "run_call P t J F Read_statistics = read_statistics J F"
  "run_call P t J F Root_page = (\<lambda>e. (root_page, e))"
  by (rule ext, simp)+

lemma handler_of_tagged [simp]: "rule_handler (tagged_rule r ms types f) = Some (call_handler types f)"
  by (simp add: tagged_rule_def)

lemma record_url_literals [simp]:
  "\<not> record_url ''/api/records''" "\<not> record_url ''/api/records/''" "\<not> record_url ''/api/statistics/reads''"
  "\<not> record_url ''/''"
  by (simp_all add: record_url_def)

lemma web_find_get:
  "spec_find strtod (served M_Get (web_rules P t J F stat)) u =
     (if u = ''/api/records'' then Redirect_slash
      else if record_url u then
        Target (tagged_rule ''/api/records/<string>'' 2 [T_string] (name_handler (\<lambda>req. get_record P J F)))
          (no_params\<lparr>string_params := [drop 13 u]\<rparr>)
      else if u = ''/api/records/'' then
        Target (tagged_rule ''/api/records/'' 2 [] (plain_handler (\<lambda>e. (list_records, e)))) no_params
      else if u = ''/api/statistics/reads'' then
        Target (tagged_rule ''/api/statistics/reads'' 2 [] (plain_handler (read_statistics J F))) no_params
      else if u = ''/'' then Target (tagged_rule ''/'' 2 [] (plain_handler (\<lambda>e. (root_page, e)))) no_params
      else if take 8 u = ''/static/'' \<and> drop 8 u \<noteq> [] then
        Target (tagged_rule ''/static/<path>'' 2 [T_string] (static_handler stat)) (no_params\<lparr>string_params := [drop 8 u]\<rparr>)
      else No_rule)"
  unfolding spec_find_def web_redirects unfolding web_rules_served first_match.simps r_rule_tagged web_matches
  by (simp del: list.inject char.inject)

lemma web_find_other:
  "spec_find strtod (served M_Post (web_rules P t J F stat)) u =
     (if record_url u then
        Target (tagged_rule ''/api/records/<string>'' 8 [T_string]
          (name_handler (\<lambda>req nameRaw. post_record P t J F nameRaw (req_body req)))) (no_params\<lparr>string_params := [drop 13 u]\<rparr>)
      else No_rule)"
  "m \<noteq> M_Get \<Longrightarrow> m \<noteq> M_Post \<Longrightarrow> spec_find strtod (served m (web_rules P t J F stat)) u = No_rule"
  unfolding spec_find_def web_redirects unfolding web_rules_served(2) first_match.simps r_rule_tagged web_matches
  by (simp_all add: web_rules_served(3))

lemma web_found:
  "list_ex (\<lambda>m'. spec_find strtod (served m' (web_rules P t J F stat)) u \<noteq> No_rule) all_methods \<longleftrightarrow> web_get u \<noteq> None"
proof -
  have get: "spec_find strtod (served M_Get (web_rules P t J F stat)) u \<noteq> No_rule \<longleftrightarrow> web_get u \<noteq> None"
    unfolding web_find_get web_get_def by simp
  have "spec_find strtod (served m (web_rules P t J F stat)) u \<noteq> No_rule \<Longrightarrow> web_get u \<noteq> None" for m
  proof -
    assume found: "spec_find strtod (served m (web_rules P t J F stat)) u \<noteq> No_rule"
    consider "m = M_Get" | "m = M_Post" | "m \<noteq> M_Get" "m \<noteq> M_Post" by blast
    then show ?thesis
    proof cases
      case 2
      have "record_url u" using found [unfolded 2 web_find_other(1)] by (simp split: if_splits)
      then show ?thesis by (simp add: web_get_def)
    qed (use found get web_find_other(2) in blast)+
  qed
  with get show ?thesis by (auto simp: list_ex_iff all_methods_all)
qed

lemma web_requests_reply:
  assumes "to_double_ok strtod" "web_app P t J F stat = Ret g" "req_method req \<noteq> M_Head" "req_method req \<noteq> M_Options"
  shows "router_handle strtod g req (res, e) =
    web_reply P t J F stat req (web_target (req_method req) (url req) (req_body req)) (res, e)"
proof -
  note serves = web_app_serves [OF assms(1,2)]
  let ?R = "web_rules P t J F stat"
  have handle: "router_handle strtod g req (res, e) = spec_dispatch strtod None ?R (req_method req) req (res, e)"
    using assms(3,4) by (simp add: router_handle_def dispatch_spec [OF serves])
  show ?thesis
  proof (cases "req_method req = M_Get")
    case True
    show ?thesis unfolding handle True spec_dispatch_def web_find_get web_found web_target_def
      by (simp add: spec_error_def web_get_def call_handlers guarded_def run_call_functions del: list.inject char.inject)
  next
    case get: False
    show ?thesis
    proof (cases "req_method req = M_Post")
      case True
      show ?thesis unfolding handle True spec_dispatch_def web_find_other(1) web_found web_target_def
        by (simp add: spec_error_def web_post_def call_handlers guarded_def run_call_functions)
    next
      case False
      show ?thesis unfolding handle spec_dispatch_def web_find_other(2) [OF get False] web_found web_target_def
        using get False by (simp add: spec_error_def)
    qed
  qed
qed


end
