(* ===== verification/Web_Theorems.thy ===== *)
theory Web_Theorems
  imports Web_Service Program_Theorems
begin

text \<open>
  The properties of the program as a client of its URLs sees it, and the router's properties at the
  routes of the program (\<open>demo_web\<close>: the application with an instance of the parameters).
\<close>

definition demo_double :: "unit to_double" where
  "demo_double s = ((), False, 0)"

lemma demo_double_ok: "to_double_ok demo_double"
  by (simp add: to_double_ok_def demo_double_def)

definition demo_web :: "(engine, unit) router outcome" where
  "demo_web = web_app demo_platform2 0 demo_json no_faults (\<lambda>_. None)"

abbreviation demo_rules :: "(engine, unit) base_rule list" where
  "demo_rules \<equiv> web_rules demo_platform2 0 demo_json no_faults (\<lambda>_. None)"

lemma demo_web_serves:
  obtains g where "demo_web = Ret g" "serves demo_double None demo_rules g"
proof -
  obtain g where "demo_web = Ret g" using web_app_ok unfolding demo_web_def by blast
  moreover from this have "serves demo_double None demo_rules g"
    unfolding demo_web_def by (rule web_app_serves [OF demo_double_ok])
  ultimately show ?thesis by (rule that)
qed

definition demo_request :: "http_method \<Rightarrow> string \<Rightarrow> string \<Rightarrow> crow_request" where
  "demo_request m u b = (empty_request empty_query_string ())\<lparr>req_method := m, url := u, req_body := b\<rparr>"

lemma demo_request_fields [simp]:
  "req_method (demo_request m u b) = m" "url (demo_request m u b) = u" "req_body (demo_request m u b) = b"
  by (simp_all add: demo_request_def)

section \<open>The router at these routes\<close>



section \<open>The program\<close>


lemma record_requests:
  assumes "to_double_ok strtod" "web_app P t J no_faults stat = Ret g" "engine_ok P e"
    and "url req = ''/api/records/'' @ k" "k \<noteq> []" "CHR ''/'' \<notin> set k" "k \<noteq> ''%''" "length k < 2 ^ 64"
  shows "(req_method req = M_Get \<longrightarrow>
      (case spec_get (engine_map e) (decode k) of (st, ms) \<Rightarrow>
         \<exists>e'. router_handle strtod g req (res, e) = (Ret True, assign (json_response J st ms) res, e') \<and>
           engine_ok P e' \<and> engine_map e' = engine_map e)) \<and>
    (req_method req = M_Post \<longrightarrow>
      (case spec_post (engine_map e) (decode k) (request_value J (req_body req)) of ((st, ms), m) \<Rightarrow>
         \<exists>e'. router_handle strtod g req (res, e) = (Ret True, assign (json_response J st ms) res, e') \<and>
           engine_ok P e' \<and> engine_map e' = m))"
proof -
  have name: "url_decode k = Some (decode k)" using assms(7,8) by (simp add: url_decode_eq)
  have "record_url (url req)" "drop 13 (url req) = k" using assms(4-6) by (simp_all add: record_url_def)
  then have get: "router_handle strtod g req (res, e) = guarded (returning (get_record P J no_faults k)) (res, e)"
      if "req_method req = M_Get"
    using web_requests_reply [OF assms(1,2), of req res e] that
    by (simp add: web_target_def web_get_def run_call_functions)
  have post: "router_handle strtod g req (res, e) = guarded (returning (post_record P t J no_faults k (req_body req))) (res, e)"
      if "req_method req = M_Post"
    using web_requests_reply [OF assms(1,2), of req res e] that \<open>record_url (url req)\<close> \<open>drop 13 (url req) = k\<close>
    by (simp add: web_target_def web_post_def run_call_functions)
  have "case spec_get (engine_map e) (decode k) of (st, ms) \<Rightarrow>
         \<exists>e'. guarded (returning (get_record P J no_faults k)) (res, e) = (Ret True, assign (json_response J st ms) res, e') \<and>
           engine_ok P e' \<and> engine_map e' = engine_map e"
    using get_record_spec [OF assms(3) name, where J = J] by (fastforce simp: guarded_def returning_def split: prod.splits)
  moreover have "case spec_post (engine_map e) (decode k) (request_value J (req_body req)) of ((st, ms), m) \<Rightarrow>
         \<exists>e'. guarded (returning (post_record P t J no_faults k (req_body req))) (res, e) =
             (Ret True, assign (json_response J st ms) res, e') \<and>
           engine_ok P e' \<and> engine_map e' = m"
    using post_record_spec [OF assms(3) name, where J = J and t = t and request_body = "req_body req"] by (fastforce simp: guarded_def returning_def split: prod.splits)
  ultimately show ?thesis using get post by simp
qed

text \<open>C36: The records as resources. GET and POST on \<open>/api/records/\<close> followed by a name are, on the map that
  the engine stands for, the specified lookup and update of the decoded name, with the specified status and
  JSON body; the response keeps what it has of the connection, and the engine its invariant. (The name \<open>%\<close>
  alone is not decoded safely.)\<close>

theorem service_records:
  assumes "to_double_ok strtod" "web_app P t J no_faults stat = Ret g" "engine_ok P e"
    and "url req = ''/api/records/'' @ k" "k \<noteq> []" "CHR ''/'' \<notin> set k" "k \<noteq> ''%''" "length k < 2 ^ 64"
  shows "(req_method req = M_Get \<longrightarrow>
      (case spec_get (engine_map e) (decode k) of (st, ms) \<Rightarrow>
         \<exists>e'. router_handle strtod g req (res, e) = (Ret True, assign (json_response J st ms) res, e') \<and>
           engine_ok P e' \<and> engine_map e' = engine_map e)) \<and>
    (req_method req = M_Post \<longrightarrow>
      (case spec_post (engine_map e) (decode k) (request_value J (req_body req)) of ((st, ms), m) \<Rightarrow>
         \<exists>e'. router_handle strtod g req (res, e) = (Ret True, assign (json_response J st ms) res, e') \<and>
           engine_ok P e' \<and> engine_map e' = m))"
  using assms by (rule record_requests)

theorem service_records_witness:
  "\<exists>g e'. demo_web = Ret g \<and>
     router_handle demo_double g (demo_request M_Post ''/api/records/a+b'' (enc_str ''value'' @ enc_str ''w''))
       (new_response, new_engine 2) =
       (Ret True, assign (json_response demo_json ST_OK [(JString ''name'', JString ''a b'')]) new_response, e') \<and>
     engine_map e' = [''a b'' \<mapsto> ''w'']"
proof -
  obtain g where g: "demo_web = Ret g" "serves demo_double None demo_rules g" by (rule demo_web_serves)
  have n: "decode ''a+b'' = ''a b''" by code_simp
  have r: "request_value demo_json (enc_str ''value'' @ enc_str ''w'') = Inr ''w''"
    by (simp add: request_value_def demo_json_def c_str_def)
  from service_records [OF demo_double_ok g(1) [unfolded demo_web_def], of "new_engine 2"
      "demo_request M_Post ''/api/records/a+b'' (enc_str ''value'' @ enc_str ''w'')" "''a+b''" new_response] r n
  show ?thesis using g(1) by (auto simp: new_engine_ok spec_post_def str_member_def)
qed

end
