(* ===== verification/Service_Session.thy ===== *)
theory Service_Session
  imports Request_Parsed Connection_Theorems Web_Theorems Query_Theorems
begin

text \<open>
  The program from the bytes that a client sends to the bytes it gets: a connection whose parser, router,
  handlers and engine work together, over any number of requests on the same connection.
\<close>

section \<open>One request on a connection\<close>

text \<open>A connection between two requests, which waits for the next read.\<close>

definition at_rest :: "conn \<Rightarrow> bool" where
  "at_rest p \<longleftrightarrow> fresh p \<and>
     (let c = handler p; r = c_res c
      in sock_open (adaptor c) \<and> read_op c \<and> write_op c = None \<and> \<not> deleted c \<and> \<not> held c \<and>
         \<not> need_to_start_read_after_complete c \<and> res_body_copy c = [] \<and>
         \<not> completed r \<and> \<not> skip_body r \<and> \<not> manual_length_header r)"

text \<open>What a handler may leave for a response that is sent in one write.\<close>

definition plain_response :: "Connection.server \<Rightarrow> response \<Rightarrow> bool" where
  "plain_response env r \<longleftrightarrow> \<not> completed r \<and> \<not> skip_body r \<and> \<not> manual_length_header r \<and> \<not> is_static_type r \<and>
     get_header_value (headers r) ''Location'' = [] \<and> ci_count ''connection'' (headers r) = 0 \<and>
     length (sent_body r) < stream_threshold env"

lemma end_response_plain:
  assumes "\<not> skip_body r"
  shows "headers (end_response r) = headers r" "body (end_response r) = body r" "code (end_response r) = code r"
    "file_info (end_response r) = file_info r" "skip_body (end_response r) = skip_body r"
    "manual_length_header (end_response r) = manual_length_header r"
  using assms by (simp_all add: end_response_def Let_def)

lemma sent_body_end:
  assumes "\<not> skip_body r"
  shows "sent_body (end_response r) = sent_body r"
  unfolding sent_body_def end_response_plain [OF assms] ..

lemma response_text_end:
  assumes "\<not> skip_body r"
  shows "response_text env keep (end_response r) = response_text env keep r"
  unfolding response_text_def sent_body_end [OF assms] end_response_plain [OF assms] ..

lemma prepare_buffers_more:
  assumes "sock_open (adaptor c)"
  shows "headers (c_res (prepare_buffers env c)) = headers (c_res c)"
    "skip_body (c_res (prepare_buffers env c)) = skip_body (c_res c)"
    "manual_length_header (c_res (prepare_buffers env c)) = manual_length_header (c_res c)"
    "adaptor (prepare_buffers env c) = adaptor c" "res_body_copy (prepare_buffers env c) = res_body_copy c"
    "read_op (prepare_buffers env c) = read_op c" "held (prepare_buffers env c) = held c"
    "need_to_call_after_handlers (prepare_buffers env c) = need_to_call_after_handlers c"
    "c_add_keep_alive (prepare_buffers env c) = c_add_keep_alive c" "c_req (prepare_buffers env c) = c_req c"
    "set (concat (map borrowed (buffers (prepare_buffers env c)))) \<subseteq> set (headers (c_res c))"
proof -
  have b: "set (concat (map borrowed (header_buffers hs))) \<subseteq> set hs" for hs
    by (auto simp: header_buffers_def)
  show "set (concat (map borrowed (buffers (prepare_buffers env c)))) \<subseteq> set (headers (c_res c))"
    using assms b [of "headers (c_res c)"] by (auto simp: prepare_buffers_def settle_status_def Let_def)
qed (use assms in \<open>simp_all add: prepare_buffers_def settle_status_def Let_def\<close>)

lemma set_header_borrowed:
  "ci_count k (headers r) = 0 \<Longrightarrow> set (headers r) \<subseteq> set (headers (set_header k v r))"
  by (auto simp: set_header_def ci_emplace_def ci_erase_def ci_count_def filter_empty_conv)

text \<open>The completion of the response, in the case that \<open>plain_response\<close> describes.\<close>

lemma complete_plain:
  assumes "plain_response env r" "sock_open (adaptor c)" "write_op c = None" "\<not> need_to_start_read_after_complete c"
    and "c_res c = end_response r" "res_body_copy c = []"
  obtains c' bs where "complete_request env c = Ret c'" "write_op c' = Some bs"
    "concat (map bytes bs) = response_text env (c_add_keep_alive c) r" "set (concat (map borrowed bs)) \<subseteq> set (headers (c_res c'))"
    "headers (c_res c') = headers r" "\<not> skip_body (c_res c')" "\<not> manual_length_header (c_res c')" "wire c' = wire c"
    "adaptor c' = adaptor c" "read_op c' = read_op c" "deleted c' = deleted c" "held c' = held c"
    "c_close_connection c' = c_close_connection c" "\<not> need_to_call_after_handlers c'"
    "\<not> need_to_start_read_after_complete c'" "c_add_keep_alive c' = c_add_keep_alive c" "c_req c' = c_req c"
proof -
  let ?c = "prepare_buffers env (c\<lparr>need_to_call_after_handlers := False\<rparr>)"
  note p = assms(1) [unfolded plain_response_def]
  then have nb: "\<not> skip_body r" by simp
  note e = end_response_plain [OF nb] and sb = sent_body_end [OF nb]
  have body: "body (c_res ?c) = sent_body r"
    using prepare_buffers_body [of "c\<lparr>need_to_call_after_handlers := False\<rparr>" env] assms(2,5) sb by simp
  have eq: "complete_request env c = do_write_general env ?c"
    using p e assms(5) prepare_buffers_file [of env "c\<lparr>need_to_call_after_handlers := False\<rparr>"]
    by (simp add: complete_request_def complete_location_def Let_def is_static_type_def)
  let ?c' = "?c\<lparr>res_body_copy := sent_body r, c_res := (c_res ?c)\<lparr>body := []\<rparr>,
    buffers := buffers ?c @ [Text (sent_body r)], is_writing := True, write_op := Some (buffers ?c @ [Text (sent_body r)])\<rparr>"
  have m: "res_body_copy ?c = []" "write_op ?c = None" "\<not> need_to_start_read_after_complete ?c"
    using prepare_buffers_more [of "c\<lparr>need_to_call_after_handlers := False\<rparr>" env] assms(2-4,6) by simp_all
  have "do_write_general env ?c = Ret ?c'"
    using p body m by (simp add: do_write_general_def do_write_def Let_def)
  with eq have run: "complete_request env c = Ret ?c'" by simp
  have tx: "concat (map bytes (buffers ?c)) @ sent_body r = response_text env (c_add_keep_alive c) r"
    using prepare_buffers_text [of "c\<lparr>need_to_call_after_handlers := False\<rparr>" env] assms(2,5) body
      response_text_end [of r env "c_add_keep_alive c"] p by simp
  show thesis
    by (rule that [of ?c' "buffers ?c @ [Text (sent_body r)]", OF run])
      (use prepare_buffers_more [of "c\<lparr>need_to_call_after_handlers := False\<rparr>" env] assms e p tx in simp_all)
qed

text \<open>The handling of a request to which the router gives a plain response.\<close>

lemma handle_plain:
  assumes "to_request () P = make_request m u v Q hs b 1 1 True False False ()" "remote env = Some a" "0 < ci_count ''host'' hs"
    and "router env ((to_request () P)\<lparr>remote_ip_address := a\<rparr>) (c_res c) = (r, True)" "plain_response env r"
    and "sock_open (adaptor c)" "write_op c = None" "\<not> need_to_start_read_after_complete c" "\<not> completed (c_res c)"
    and "res_body_copy c = []"
  obtains c' bs where "Connection.handle env P c = Ret c'" "write_op c' = Some bs"
    "concat (map bytes bs) = response_text env True r" "wire c' = wire c" "adaptor c' = adaptor c" "read_op c' = read_op c"
    "deleted c' = deleted c" "held c' = held c" "\<not> c_close_connection c'" "\<not> need_to_call_after_handlers c'"
    "\<not> need_to_start_read_after_complete c'" "\<not> skip_body (c_res c')" "\<not> manual_length_header (c_res c')"
    "c_req c' = (to_request () P)\<lparr>remote_ip_address := a\<rparr>"
proof -
  note p = assms(5) [unfolded plain_response_def]
  let ?rq = "(to_request () P)\<lparr>remote_ip_address := a\<rparr>"
  let ?c = "(cancel_deadline_timer c)\<lparr>c_req := ?rq, c_add_keep_alive := True, c_close_connection := False,
    on_complete := Complete_request, need_to_call_after_handlers := True, c_res := end_response r\<rparr>"
  have h: "Connection.handle env P c = bind_outcome (complete_request env ?c)
      (\<lambda>c3. if c_add_keep_alive c3 then set_res (set_header ''connection'' ''Keep-Alive'' (c_res c3)) c3 else Ret c3)"
    using assms p
    by (simp add: Connection.handle_def make_request_def check_version_def Connection.route_def call_router_def res_end_def set_res_def
        cancel_deadline_timer_def Let_def)
  obtain c1 bs where c1: "complete_request env ?c = Ret c1" "write_op c1 = Some bs"
    "concat (map bytes bs) = response_text env True r" "set (concat (map borrowed bs)) \<subseteq> set (headers (c_res c1))"
    "headers (c_res c1) = headers r" "\<not> skip_body (c_res c1)" "\<not> manual_length_header (c_res c1)" "wire c1 = wire c"
    "adaptor c1 = adaptor c" "read_op c1 = read_op c" "deleted c1 = deleted c" "held c1 = held c"
    "\<not> c_close_connection c1" "\<not> need_to_call_after_handlers c1" "\<not> need_to_start_read_after_complete c1" "c_add_keep_alive c1" "c_req c1 = ?rq"
    by (rule complete_plain [OF assms(5), of ?c]) (use assms in \<open>simp_all add: cancel_deadline_timer_def\<close>)
  have sub: "set (headers (c_res c1)) \<subseteq> set (headers (set_header ''connection'' ''Keep-Alive'' (c_res c1)))"
    using p c1(5) by (intro set_header_borrowed) simp
  show thesis
    by (rule that [of "c1\<lparr>c_res := set_header ''connection'' ''Keep-Alive'' (c_res c1)\<rparr>" bs])
      (use h c1 sub in \<open>auto simp: set_res_def set_header_def\<close>)
qed

text \<open>A request is read, and its response written.\<close>

lemma message_callback_core: "keeps_core (message_callback env)"
  by (auto simp: keeps_core_def message_callback_def normal_def on_connection_def core_def split: outcome.splits)
    (auto simp: outcome_simps)

lemma start_deadline_fields [simp]:
  "adaptor (start_deadline env c) = adaptor c" "read_op (start_deadline env c) = read_op c"
  "write_op (start_deadline env c) = write_op c" "wire (start_deadline env c) = wire c" "held (start_deadline env c) = held c"
  "deleted (start_deadline env c) = deleted c" "c_close_connection (start_deadline env c) = c_close_connection c"
  "need_to_start_read_after_complete (start_deadline env c) = need_to_start_read_after_complete c"
  "c_res (start_deadline env c) = c_res c" "c_req (start_deadline env c) = c_req c"
  by (simp_all add: start_deadline_def cancel_deadline_timer_def Let_def split: prod.split)

text \<open>What a server answers to a request: the router's answer to every request with this method, URL and body.\<close>

definition answers :: "Connection.server \<Rightarrow> http_method \<Rightarrow> string \<Rightarrow> string \<Rightarrow> string \<Rightarrow> bool" where
  "answers env m u b t \<longleftrightarrow> (\<forall>rq r. \<not> completed r \<and> \<not> skip_body r \<and> \<not> manual_length_header r \<and>
     req_method rq = m \<and> url rq = u \<and> req_body rq = b \<longrightarrow>
     (\<exists>r'. router env rq r = (r', True) \<and> plain_response env r' \<and> response_text env True r' = t))"

lemma read_request:
  assumes "at_rest p" "url_ok u" "m \<noteq> M_Connect" "\<forall>e\<in>set hs. plain_header e" "query_string_of u = Some Q"
    and "length (request_text m u hs b) \<le> 4096" "0 < ci_count ''host'' hs" "ci_count ''expect'' hs = 0"
    and "remote env = Some a" "answers env m (url_path u) b t"
  obtains p' bs where "apply_event env (Read_done False (request_text m u hs b)) p = Ret p'" "fresh p'"
    "write_op (handler p') = Some bs" "concat (map bytes bs) = t" "wire (handler p') = wire (handler p)"
    "sock_open (adaptor (handler p'))" "read_op (handler p')" "\<not> deleted (handler p')" "\<not> held (handler p')"
    "\<not> c_close_connection (handler p')" "\<not> need_to_start_read_after_complete (handler p')"
    "\<not> skip_body (c_res (handler p'))" "\<not> manual_length_header (c_res (handler p'))"
    "c_req (handler p') = (make_request m u (url_path u) Q (hs @ length_header b) b 1 1 True False False ())\<lparr>remote_ip_address := a\<rparr>"
proof -
  let ?c = "(handler p)\<lparr>read_op := False\<rparr>" let ?p = "p\<lparr>handler := ?c\<rparr>"
  note r = assms(1) [unfolded at_rest_def Let_def]
  have exp: "ci_count ''expect'' (hs @ length_header b) = 0"
    using assms(8) by (auto simp: ci_count_def length_header_def ci_key_eq_iff to_upper_def)
  have hh: "header_callback x = Some x" if "p_headers x = hs @ length_header b" for x
    using that exp by (simp add: header_callback_def handle_header_def normal_def on_connection_def get_header_value_def)
  have "fresh ?p" using r by (simp add: fresh_def)
  from request_read [OF this message_callback_core assms(2-5), of b header_callback env] assms(6) hh
  obtain P where P: "carries m u Q (hs @ length_header b) b ?c P"
    "feed header_callback (message_callback env) (request_text m u hs b) ?p =
      map_option (\<lambda>p. (True, p\<lparr>saved_nread := 0\<rparr>)) (message_callback env P)" by auto
  have rq: "to_request () P = make_request m u (url_path u) Q (hs @ length_header b) b 1 1 True False False ()"
    and f: "fresh P" and hP: "handler P = ?c" using P(1) by (simp_all add: carries_def)
  let ?rq = "(to_request () P)\<lparr>remote_ip_address := a\<rparr>"
  have "req_method ?rq = m" "url ?rq = url_path u" "req_body ?rq = b" by (simp_all add: rq make_request_def)
  with assms(10) r obtain res where res: "router env ?rq (c_res ?c) = (res, True)" "plain_response env res" "response_text env True res = t"
    unfolding answers_def by fastforce
  have host: "0 < ci_count ''host'' (hs @ length_header b)" using assms(7) by (auto simp: ci_count_def)
  obtain c' bs where c': "Connection.handle env P ?c = Ret c'" "write_op c' = Some bs"
    "concat (map bytes bs) = response_text env True res" "wire c' = wire ?c" "adaptor c' = adaptor ?c" "read_op c' = read_op ?c"
    "deleted c' = deleted ?c" "held c' = held ?c" "\<not> c_close_connection c'" "\<not> need_to_call_after_handlers c'"
    "\<not> need_to_start_read_after_complete c'" "\<not> skip_body (c_res c')" "\<not> manual_length_header (c_res c')" "c_req c' = ?rq"
    by (rule handle_plain [OF rq assms(9) host res(1,2)]) (use r in simp_all)
  have "message_callback env P = Some (P\<lparr>handler := c'\<rparr>)"
    using c'(1) hP by (simp add: message_callback_def on_connection_def normal_def)
  with P(2) have feed: "feed header_callback (message_callback env) (request_text m u hs b) ?p = Some (True, P\<lparr>handler := c', saved_nread := 0\<rparr>)"
    by simp
  let ?c2 = "(start_deadline env c')\<lparr>is_reading := True, read_op := True\<rparr>"
  have "apply_event env (Read_done False (request_text m u hs b)) p = Ret (P\<lparr>handler := ?c2, saved_nread := 0\<rparr>)"
    using r feed c' by (simp add: apply_event_def on_connection_def alive_def read_done_def do_read_def Let_def)
  then show thesis
    by (rule that [of _ bs]) (use f c' r res(3) rq in \<open>simp_all add: fresh_def\<close>)
qed

lemma request_answered:
  assumes "at_rest p" "url_ok u" "m \<noteq> M_Connect" "\<forall>e\<in>set hs. plain_header e" "query_string_of u = Some Q"
    and "length (request_text m u hs b) \<le> 4096" "0 < ci_count ''host'' hs" "ci_count ''expect'' hs = 0"
    and "remote env = Some a" "answers env m (url_path u) b t"
  obtains p' where "run_events [(env, Read_done False (request_text m u hs b)), (env, Write_done False 0)] p = Ret p'"
    "at_rest p'" "wire (handler p') = wire (handler p) @ t"
    "req_method (c_req (handler p')) = m" "url (c_req (handler p')) = url_path u" "req_body (c_req (handler p')) = b"
proof -
  obtain p1 bs where p1: "apply_event env (Read_done False (request_text m u hs b)) p = Ret p1" "fresh p1"
    "write_op (handler p1) = Some bs" "concat (map bytes bs) = t" "wire (handler p1) = wire (handler p)"
    "sock_open (adaptor (handler p1))" "read_op (handler p1)" "\<not> deleted (handler p1)" "\<not> held (handler p1)"
    "\<not> c_close_connection (handler p1)" "\<not> need_to_start_read_after_complete (handler p1)"
    "\<not> skip_body (c_res (handler p1))" "\<not> manual_length_header (c_res (handler p1))"
    "c_req (handler p1) = (make_request m u (url_path u) Q (hs @ length_header b) b 1 1 True False False ())\<lparr>remote_ip_address := a\<rparr>"
    by (rule read_request [OF assms])
  have "request_text m u hs b \<noteq> []" using method_name_bytes(3) [of m] by (simp add: request_text_def)
  with assms(1,6) have e: "enabled (Read_done False (request_text m u hs b)) (handler p)"
    by (simp add: enabled_def at_rest_def Let_def)
  let ?c = "(handler p1)\<lparr>write_op := None, wire := wire (handler p1) @ t, is_writing := False,
    c_res := clear (c_res (handler p1)), res_body_copy := []\<rparr>"
  have "apply_event env (Write_done False 0) p1 = Ret (p1\<lparr>handler := ?c\<rparr>)"
    using p1 by (simp add: apply_event_def on_connection_def alive_def write_done_def sent_bytes_def set_res_def Let_def)
  with e p1(1,3) have "run_events [(env, Read_done False (request_text m u hs b)), (env, Write_done False 0)] p = Ret (p1\<lparr>handler := ?c\<rparr>)"
    by (simp add: enabled_def)
  then show thesis
    by (rule that) (use p1 in \<open>simp_all add: at_rest_def fresh_def clear_def make_request_def Let_def\<close>)
qed


section \<open>The program behind a connection\<close>

text \<open>The server of a connection whose router is the application, with the engine in the state \<open>e\<close>.\<close>

definition app_server :: "Connection.server \<Rightarrow> 'd to_double \<Rightarrow> (engine, 'd) router \<Rightarrow> engine \<Rightarrow> Connection.server" where
  "app_server env strtod g e = env\<lparr>Connection.router := (\<lambda>rq r. case router_handle strtod g rq (r, e) of
     (Ret b, r', e') \<Rightarrow> (r', b) | (_, r', e') \<Rightarrow> (r', False))\<rparr>"

text \<open>The texts of requests are read one by one and their responses written; the handlers share the engine.\<close>

fun serve :: "Connection.server \<Rightarrow> 'd to_double \<Rightarrow> (engine, 'd) router \<Rightarrow> string list \<Rightarrow> conn \<times> engine \<Rightarrow> (conn \<times> engine) outcome" where
  "serve env strtod g [] (p, e) = Ret (p, e)"
| "serve env strtod g (t # ts) (p, e) =
     bind_outcome (run_events [(app_server env strtod g e, Read_done False t), (app_server env strtod g e, Write_done False 0)] p)
       (\<lambda>p'. serve env strtod g ts (p', snd (snd (router_handle strtod g (c_req (handler p')) (c_res (handler p), e)))))"

text \<open>The text that a client sends for a call, and what the specification of the handlers answers.\<close>

fun call_text :: "(string \<times> string) list \<Rightarrow> call \<Rightarrow> string" where
  "call_text hs (Get_record k) = request_text M_Get (''/api/records/'' @ k) hs []"
| "call_text hs (Post_record k b) = request_text M_Post (''/api/records/'' @ k) hs b"
| "call_text hs c = []"

fun replies :: "rapidjson \<Rightarrow> (string \<rightharpoonup> string) \<Rightarrow> call list \<Rightarrow> response list" where
  "replies J m [] = []"
| "replies J m (Get_record k # cs) = case_prod (json_response J) (spec_get m (decode k)) # replies J m cs"
| "replies J m (Post_record k b # cs) = (case spec_post m (decode k) (request_value J b) of
     (r, m') \<Rightarrow> case_prod (json_response J) r # replies J m' cs)"
| "replies J m (c # cs) = replies J m cs"

text \<open>The names that a URL can hold as they are.\<close>

definition sendable_name :: "string \<Rightarrow> bool" where
  "sendable_name k \<longleftrightarrow> k \<noteq> [] \<and> k \<noteq> ''%'' \<and> list_all is_url_char k \<and> CHR ''/'' \<notin> set k"

fun sendable :: "(string \<times> string) list \<Rightarrow> call \<Rightarrow> bool" where
  "sendable hs (Get_record k) \<longleftrightarrow> sendable_name k \<and> length (call_text hs (Get_record k)) \<le> 4096"
| "sendable hs (Post_record k b) \<longleftrightarrow> sendable_name k \<and> length (call_text hs (Post_record k b)) \<le> 4096"
| "sendable hs c \<longleftrightarrow> False"

lemma app_server_fields [simp]:
  "stream_threshold (app_server env strtod g e) = stream_threshold env" "remote (app_server env strtod g e) = remote env"
  "response_text (app_server env strtod g e) = response_text env" "plain_response (app_server env strtod g e) = plain_response env"
  by (simp_all add: app_server_def response_text_def plain_response_def fun_eq_iff)

lemma json_response_plain:
  assumes "length (sent_body (json_response J st ms)) < stream_threshold env"
    and "\<not> skip_body r" "\<not> manual_length_header r"
  shows "plain_response env (assign (json_response J st ms) r)"
    "response_text env True (assign (json_response J st ms) r) = response_text env True (json_response J st ms)"
proof -
  have "body (assign x r) = body x" "code (assign x r) = code x" for x by (simp_all add: assign_def)
  then have b: "sent_body (assign x r) = sent_body x" for x by (simp only: sent_body_def)
  show "plain_response env (assign (json_response J st ms) r)"
    unfolding plain_response_def b using assms
    by (simp add: assign_def json_response_def set_header_def ci_emplace_def ci_erase_def new_response_def
      is_static_type_def no_file_def get_header_value_def ci_count_def ci_key_eq_iff to_upper_def)
  have m: "\<not> manual_length_header (json_response J st ms)" by (simp add: json_response_def set_header_def new_response_def)
  show "response_text env True (assign (json_response J st ms) r) = response_text env True (json_response J st ms)"
    unfolding response_text_def b using assms(3) m by (simp add: assign_def)
qed

text \<open>The router's answer to a request for a record, from what its handler is known to answer.\<close>

lemma answers_json:
  assumes "length (sent_body (json_response J st ms)) < stream_threshold env"
    and "\<And>rq r. req_method rq = m \<Longrightarrow> url rq = u \<Longrightarrow> req_body rq = b \<Longrightarrow>
      \<exists>e'. router_handle strtod g rq (r, e) = (Ret True, assign (json_response J st ms) r, e')"
  shows "answers (app_server env strtod g e) m u b (response_text env True (json_response J st ms))"
  unfolding answers_def
proof (intro allI impI, elim conjE)
  fix rq :: crow_request and r :: response
  assume rq: "req_method rq = m" "url rq = u" "req_body rq = b" and r: "\<not> skip_body r" "\<not> manual_length_header r"
  from assms(2) [OF rq, of r] obtain e' where "router_handle strtod g rq (r, e) = (Ret True, assign (json_response J st ms) r, e')" by blast
  then have "Connection.router (app_server env strtod g e) rq r = (assign (json_response J st ms) r, True)" by (simp add: app_server_def)
  with json_response_plain [OF assms(1) r] show "\<exists>r'. Connection.router (app_server env strtod g e) rq r = (r', True) \<and>
      plain_response (app_server env strtod g e) r' \<and>
      response_text (app_server env strtod g e) True r' = response_text env True (json_response J st ms)"
    by auto
qed


text \<open>One call: its reply is written and the engine is the specified one.\<close>

lemma record_url_url:
  assumes "sendable_name k"
  shows "url_ok (''/api/records/'' @ k)" "url_path (''/api/records/'' @ k) = ''/api/records/'' @ k"
    "\<exists>Q. query_string_of (''/api/records/'' @ k) = Some Q"
proof -
  have k: "list_all is_url_char k" using assms by (simp add: sendable_name_def)
  have "\<not> is_url_char CHR ''?''" by code_simp
  with k have q: "CHR ''?'' \<notin> set (''/api/records/'' @ k)" by (auto simp: list_all_iff)
  have "list_all is_url_char ''/api/records/''" by code_simp
  with k have u: "list_all is_url_char (''/api/records/'' @ k)" by (simp only: list_all_append)
  then have "list_all url_byte (''/api/records/'' @ k)" by (auto simp only: url_byte_def list_all_iff)
  then show "url_ok (''/api/records/'' @ k)" unfolding url_ok_def by (simp only: append_Cons take_Suc_Cons One_nat_def take_0)
  show "url_path (''/api/records/'' @ k) = ''/api/records/'' @ k" using q by (auto simp: url_path_def takeWhile_eq_all_conv)
  show "\<exists>Q. query_string_of (''/api/records/'' @ k) = Some Q"
  proof -
    have "\<not> is_url_char NUL" "\<not> is_url_char CHR ''#''" by code_simp+
    with u have "NUL \<notin> set (''/api/records/'' @ k)" "CHR ''#'' \<notin> set (''/api/records/'' @ k)" unfolding list_all_iff by blast+
    from query_string_of_plain [OF this(1) q this(2)] show ?thesis by blast
  qed
qed

lemma serve_call:
  assumes "to_double_ok strtod" "web_app P t J no_faults stat = Ret g" "engine_ok P e" "at_rest p" "remote env = Some a"
    and "\<forall>x\<in>set hs. plain_header x" "0 < ci_count ''host'' hs" "ci_count ''expect'' hs = 0" "sendable hs c"
    and "replies J (engine_map e) [c] = [r]" "length (sent_body r) < stream_threshold env"
  obtains (served) p' e' where "\<And>ts. serve env strtod g (call_text hs c # ts) (p, e) = serve env strtod g ts (p', e')" "at_rest p'"
    "wire (handler p') = wire (handler p) @ response_text env True r" "engine_ok P e'" "engine_map e' = session_map J (engine_map e) [c]"
proof -
  have get: thesis if c: "c = Get_record k" for k
  proof -
    have k: "sendable_name k" "length (request_text M_Get (''/api/records/'' @ k) hs []) \<le> 4096" using assms(9) c by simp_all
    then have len: "length k < 2 ^ 64" by (simp add: request_text_def)
    obtain Q where Q: "query_string_of (''/api/records/'' @ k) = Some Q" using record_url_url(3) [OF k(1)] by blast
    obtain st ms where st: "spec_get (engine_map e) (decode k) = (st, ms)" by fastforce
    have r: "r = json_response J st ms" using assms(10) c st by simp
    have ans: "\<exists>e'. router_handle strtod g rq (x, e) = (Ret True, assign r x, e') \<and> engine_ok P e' \<and> engine_map e' = engine_map e"
      if "req_method rq = M_Get" "url rq = ''/api/records/'' @ k" for rq x
      using record_requests [OF assms(1-3) that(2) _ _ _ len, of x] that(1) k(1) st r by (simp add: sendable_name_def)
    have "answers (app_server env strtod g e) M_Get (url_path (''/api/records/'' @ k)) [] (response_text env True r)"
      unfolding record_url_url(2) [OF k(1)] r
      by (rule answers_json, use assms(11) r in simp) (unfold r [symmetric], use ans in blast)
    note run = request_answered [OF assms(4) record_url_url(1) [OF k(1)] _ assms(6) Q k(2) assms(7,8) _ this, of a,
        unfolded record_url_url(2) [OF k(1)]]
    obtain p' where p': "run_events [(app_server env strtod g e, Read_done False (call_text hs c)),
        (app_server env strtod g e, Write_done False 0)] p = Ret p'" "at_rest p'"
      "wire (handler p') = wire (handler p) @ response_text env True r"
      "req_method (c_req (handler p')) = M_Get" "url (c_req (handler p')) = ''/api/records/'' @ k"
      unfolding c call_text.simps by (rule run, simp, use assms(5) in simp) blast
    obtain e' where e': "router_handle strtod g (c_req (handler p')) (c_res (handler p), e) = (Ret True, assign r (c_res (handler p)), e')"
      "engine_ok P e'" "engine_map e' = engine_map e" using ans [OF p'(4,5)] by blast
    show thesis by (rule served [of p' e']) (use p'(1-3) e' c in \<open>simp_all del: run_events.simps\<close>)
  qed
  have post: thesis if c: "c = Post_record k b" for k b
  proof -
    have k: "sendable_name k" "length (request_text M_Post (''/api/records/'' @ k) hs b) \<le> 4096" using assms(9) c by simp_all
    then have len: "length k < 2 ^ 64" by (simp add: request_text_def)
    obtain Q where Q: "query_string_of (''/api/records/'' @ k) = Some Q" using record_url_url(3) [OF k(1)] by blast
    obtain st ms m where st: "spec_post (engine_map e) (decode k) (request_value J b) = ((st, ms), m)" by (metis prod.exhaust)
    have r: "r = json_response J st ms" using assms(10) c st by simp
    have ans: "\<exists>e'. router_handle strtod g rq (x, e) = (Ret True, assign r x, e') \<and> engine_ok P e' \<and> engine_map e' = m"
      if "req_method rq = M_Post" "url rq = ''/api/records/'' @ k" "req_body rq = b" for rq x
      using record_requests [OF assms(1-3) that(2) _ _ _ len, of x] that(1,3) k(1) st r by (simp add: sendable_name_def)
    have "answers (app_server env strtod g e) M_Post (url_path (''/api/records/'' @ k)) b (response_text env True r)"
      unfolding record_url_url(2) [OF k(1)] r
      by (rule answers_json, use assms(11) r in simp) (unfold r [symmetric], use ans in blast)
    note run = request_answered [OF assms(4) record_url_url(1) [OF k(1)] _ assms(6) Q k(2) assms(7,8) _ this, of a,
        unfolded record_url_url(2) [OF k(1)]]
    obtain p' where p': "run_events [(app_server env strtod g e, Read_done False (call_text hs c)),
        (app_server env strtod g e, Write_done False 0)] p = Ret p'" "at_rest p'"
      "wire (handler p') = wire (handler p) @ response_text env True r"
      "req_method (c_req (handler p')) = M_Post" "url (c_req (handler p')) = ''/api/records/'' @ k" "req_body (c_req (handler p')) = b"
      unfolding c call_text.simps by (rule run, simp, use assms(5) in simp) blast
    obtain e' where e': "router_handle strtod g (c_req (handler p')) (c_res (handler p), e) = (Ret True, assign r (c_res (handler p)), e')"
      "engine_ok P e'" "engine_map e' = m" using ans [OF p'(4-6)] by blast
    show thesis by (rule served [of p' e']) (use p'(1-3) e' c st in \<open>simp_all del: run_events.simps\<close>)
  qed
  show thesis using get post assms(9) by (cases c) simp_all
qed

text \<open>C5: The program from the bytes a client sends to the bytes it gets: on a connection between two requests,
  the texts of any GETs and POSTs of records, each with its name in the URL, are answered one by one with
  the responses that the specification of the handlers gives on the map, each with its status line, its
  headers and its body; the engine stands for the specified map at the end, and the connection waits for
  the next request.\<close>

theorem service_session:
  assumes "to_double_ok strtod" "web_app P t J no_faults stat = Ret g" "engine_ok P e" "at_rest p" "remote env = Some a"
    and "\<forall>x\<in>set hs. plain_header x" "0 < ci_count ''host'' hs" "ci_count ''expect'' hs = 0" "\<forall>c\<in>set cs. sendable hs c"
    and "\<forall>r\<in>set (replies J (engine_map e) cs). length (sent_body r) < stream_threshold env"
  shows "\<exists>p' e'. serve env strtod g (map (call_text hs) cs) (p, e) = Ret (p', e') \<and> at_rest p' \<and>
    wire (handler p') = wire (handler p) @ concat (map (response_text env True) (replies J (engine_map e) cs)) \<and>
    engine_ok P e' \<and> engine_map e' = session_map J (engine_map e) cs"
  using assms(3,4,9,10)
proof (induction cs arbitrary: p e)
  case (Cons c cs)
  obtain r where r: "replies J (engine_map e) [c] = [r]"
    "replies J (engine_map e) (c # cs) = r # replies J (session_map J (engine_map e) [c]) cs"
    using Cons.prems(3) by (cases c) (fastforce split: prod.splits)+
  have s: "session_map J (engine_map e) (c # cs) = session_map J (session_map J (engine_map e) [c]) cs" by (cases c) simp_all
  obtain p1 e1 where c: "\<And>ts. serve env strtod g (call_text hs c # ts) (p, e) = serve env strtod g ts (p1, e1)" "at_rest p1"
    "wire (handler p1) = wire (handler p) @ response_text env True r" "engine_ok P e1" "engine_map e1 = session_map J (engine_map e) [c]"
    by (rule serve_call [OF assms(1,2) Cons.prems(1,2) assms(5-8) _ r(1)]) (use Cons.prems(3,4) r(2) in auto)
  have small: "\<forall>r\<in>set (replies J (engine_map e1) cs). length (sent_body r) < stream_threshold env"
    using Cons.prems(4) unfolding r(2) c(5) by simp
  from Cons.IH [OF c(4,2) _ small] Cons.prems(3) obtain p' e' where
    "serve env strtod g (map (call_text hs) cs) (p1, e1) = Ret (p', e')" "at_rest p'"
    "wire (handler p') = wire (handler p1) @ concat (map (response_text env True) (replies J (engine_map e1) cs))"
    "engine_ok P e'" "engine_map e' = session_map J (engine_map e1) cs" by auto
  then show ?case unfolding s r(2) using c by (intro exI conjI) simp_all
qed simp


definition demo_headers :: "(string \<times> string) list" where
  "demo_headers = [(''Host'', ''x'')]"

definition demo_calls :: "call list" where
  "demo_calls = [Post_record ''a'' (enc_str ''value'' @ enc_str ''w''), Get_record ''a'']"

lemma first_start:
  obtains p where "run_events [(quiet_server, Start False)] first_connection = Ret p" "at_rest p" "wire (handler p) = []"
  by (simp add: first_connection_def new_HTTPParser_def http_parser_init_def new_connection_def apply_event_def
      enabled_def on_connection_def start_def start_deadline_def cancel_deadline_timer_def cancel_def schedule_def
      schedule_in_def do_read_def Let_def alive_def at_rest_def fresh_def new_response_def)

theorem service_session_witness:
  "\<exists>g p p' e'. demo_web = Ret g \<and> run_events [(quiet_server, Start False)] first_connection = Ret p \<and>
     serve quiet_server demo_double g (map (call_text demo_headers) demo_calls) (p, new_engine 2) = Ret (p', e') \<and>
     wire (handler p') =
       response_text quiet_server True (json_response demo_json ST_OK [str_member ''name'' ''a'']) @
       response_text quiet_server True (json_response demo_json ST_OK [str_member ''name'' ''a'', str_member ''value'' ''w'']) \<and>
     engine_map e' = [''a'' \<mapsto> ''w'']"
proof -
  obtain g where g: "demo_web = Ret g" "serves demo_double None demo_rules g" by (rule demo_web_serves)
  obtain p where p: "run_events [(quiet_server, Start False)] first_connection = Ret p" "at_rest p" "wire (handler p) = []"
    by (rule first_start)
  have d: "decode ''a'' = ''a''" by code_simp
  have v: "request_value demo_json (enc_str ''value'' @ enc_str ''w'') = Inr ''w''"
    by (simp add: request_value_def demo_json_def c_str_def)
  have r: "replies demo_json (engine_map (new_engine 2)) demo_calls =
      [json_response demo_json ST_OK [str_member ''name'' ''a''],
       json_response demo_json ST_OK [str_member ''name'' ''a'', str_member ''value'' ''w'']]"
    by (simp add: demo_calls_def d v [unfolded enc_str.simps append.simps] spec_get_def spec_post_def)
  have e: "session_map demo_json (engine_map (new_engine 2)) demo_calls = [''a'' \<mapsto> ''w'']"
    by (simp add: demo_calls_def d v [unfolded enc_str.simps append.simps] spec_post_def new_engine_ok)
  have h: "\<forall>x\<in>set demo_headers. plain_header x" "0 < ci_count ''host'' demo_headers" "ci_count ''expect'' demo_headers = 0"
    by code_simp+
  have c: "\<forall>c\<in>set demo_calls. sendable demo_headers c" by code_simp
  have small: "\<forall>r\<in>set (replies demo_json (engine_map (new_engine 2)) demo_calls). length (sent_body r) < stream_threshold quiet_server"
    unfolding r by (simp add: sent_body_def json_response_def set_header_def demo_json_def str_member_def quiet_server_def)
  from service_session [OF demo_double_ok g(1) [unfolded demo_web_def] _ p(2) _ h c small] p(3)
  show ?thesis unfolding r e using g(1) p(1) by (auto simp: new_engine_ok quiet_server_def)
qed

end
